(* ===== verification/Prelude.thy ===== *)
theory Prelude
  imports Main "HOL-Library.Word" "HOL-Library.Monad_Syntax"
begin

text \<open>
  Shared vocabulary of the AstralOS development: the machine integer types of the C headers, the
  little-endian byte encodings of them, the flat byte-addressed memory every pointer of the kernel
  refers to, and the interface (a locale) by which a C struct stored in that memory is read and
  written.  The kernel runs identity mapped and without an unmapped guard page, so the memory is a
  total function on 64-bit addresses: address 0 is an ordinary address, as it is on the machine.
\<close>

unbundle bit_operations_syntax

section \<open>Machine integers\<close>

type_synonym u8 = "8 word"
type_synonym u16 = "16 word"
type_synonym u32 = "32 word"
type_synonym u64 = "64 word"

type_synonym mem = "u64 \<Rightarrow> u8"

text \<open>A diagnostic a component prints with \<open>kprintf\<close>: the format string, without the newline that ends
  it, and its integer arguments.\<close>

type_synonym kmsg = "string \<times> u64 list"

named_theorems byte_simps \<open>sizes and round trips of byte encodings\<close>
named_theorems frame_simps \<open>reads that a write elsewhere leaves alone\<close>

lemma and_not_mask_shift:
  fixes w :: "'a::len word"
  shows "w AND NOT (mask k) = push_bit k (drop_bit k w)"
  by (rule bit_word_eqI) (auto simp: bit_simps)

lemma unat_and_not_mask:
  fixes w :: "'a::len word"
  shows "unat (w AND NOT (mask k)) = unat w div 2 ^ k * 2 ^ k"
proof -
  have "unat (w AND NOT (mask k)) = push_bit k (drop_bit k (unat w))"
    by (rule bit_eqI) (auto simp: bit_simps and_not_mask_shift dest: bit_imp_le_length)
  then show ?thesis by (simp add: push_bit_eq_mult drop_bit_eq_div)
qed

lemma replicate_numeral: "replicate (numeral k) x = x # replicate (pred_numeral k) x"
  by (simp add: numeral_eq_Suc)

text \<open>The conversion of a 64-bit value to \<open>int\<close>.\<close>

definition c_int :: "u64 \<Rightarrow> int" where
  "c_int w = sint (ucast w :: u32)"

lemma c_int_small: "unat w < 2 ^ 31 \<Longrightarrow> c_int w = int (unat w)"
proof -
  assume w: "unat w < 2 ^ 31"
  then have "unat (ucast w :: u32) = unat w" by (simp add: unsigned_ucast_eq take_bit_nat_eq_self)
  then have u: "uint (ucast w :: u32) = int (unat w)" by (metis uint_nat)
  have "- (2 ^ 31) \<le> int k \<and> int k < 2 ^ 31" if "k < 2 ^ 31" for k :: nat using that by simp
  from this [OF w] have "signed_take_bit 31 (int (unat w)) = int (unat w)" by (intro signed_take_bit_int_eq_self) simp_all
  then show ?thesis unfolding c_int_def sint_uint u by simp
qed

lemma c_int_ge: "- (2 ^ 31) \<le> c_int w"
  unfolding c_int_def using sint_range_size [of "ucast w :: u32"] by (simp add: size_word_def)

section \<open>Little-endian encodings\<close>

fun le_bytes :: "nat \<Rightarrow> 'a::len word \<Rightarrow> u8 list" where
  "le_bytes 0 w = []"
| "le_bytes (Suc n) w = ucast w # le_bytes n (drop_bit 8 w)"

fun le_word :: "u8 list \<Rightarrow> 'a::len word" where
  "le_word [] = 0"
| "le_word (b # bs) = ucast b OR push_bit 8 (le_word bs)"

lemma length_le_bytes [simp, byte_simps]: "length (le_bytes n w) = n"
  by (induction n arbitrary: w) auto

lemma le_word_le_bytes_take:
  fixes w :: "'a::len word"
  shows "le_word (le_bytes n w) = take_bit (8 * n) w"
proof (induction n arbitrary: w)
  case 0
  then show ?case by simp
next
  case (Suc n)
  show ?case
    by (rule bit_eqI) (auto simp: Suc.IH bit_simps)
qed

lemma le_word_le_bytes [byte_simps]:
  fixes w :: "'a::len word"
  assumes "8 * n = LENGTH('a)"
  shows "le_word (le_bytes n w) = w"
  using assms by (simp add: le_word_le_bytes_take)

lemma bit_le_word:
  "bit (le_word bs :: 'a::len word) k \<longleftrightarrow>
     k < LENGTH('a) \<and> k div 8 < length bs \<and> bit (bs ! (k div 8)) (k mod 8)"
proof (induction bs arbitrary: k)
  case Nil
  then show ?case by simp
next
  case (Cons b bs)
  show ?case
  proof (cases "k < 8")
    case True
    then show ?thesis by (auto simp: bit_simps)
  next
    case False
    then have *: "k div 8 = Suc ((k - 8) div 8)" "k mod 8 = (k - 8) mod 8"
      by (auto simp: le_div_geq le_mod_geq)
    from False show ?thesis
      unfolding le_word.simps bit_or_iff bit_push_bit_iff Cons.IH *
      by (auto simp: bit_simps dest: bit_imp_le_length)
  qed
qed

lemma nth_le_bytes:
  "i < n \<Longrightarrow> le_bytes n w ! i = ucast (drop_bit (8 * i) w)"
proof (induction n arbitrary: w i)
  case 0
  then show ?case by simp
next
  case (Suc n)
  then show ?case
    by (cases i) (auto simp: drop_bit_drop_bit add.commute)
qed

lemma le_bytes_le_word [byte_simps]:
  assumes "length bs = n" and "8 * n \<le> LENGTH('a::len)"
  shows "le_bytes n (le_word bs :: 'a word) = bs"
proof (rule nth_equalityI)
  show "length (le_bytes n (le_word bs :: 'a word)) = length bs"
    using assms by simp
next
  fix i assume "i < length (le_bytes n (le_word bs :: 'a word))"
  then have i: "i < n" by simp
  show "le_bytes n (le_word bs :: 'a word) ! i = bs ! i"
  proof (rule bit_word_eqI)
    fix k assume "k < LENGTH(8)"
    then have k: "k < 8" by simp
    then have *: "(8 * i + k) div 8 = i" "(8 * i + k) mod 8 = k"
      by auto
    from i k assms have "8 * i + k < LENGTH('a)" by linarith
    with i k assms show "bit (le_bytes n (le_word bs :: 'a word) ! i) k = bit (bs ! i) k"
      by (simp add: nth_le_bytes bit_simps bit_le_word * add.commute)
  qed
qed

section \<open>Memory\<close>

definition region :: "u64 \<Rightarrow> nat \<Rightarrow> u64 set" where
  "region a n = {x. unat (x - a) < n}"

definition read_bytes :: "mem \<Rightarrow> u64 \<Rightarrow> nat \<Rightarrow> u8 list" where
  "read_bytes m a n = map (\<lambda>i. m (a + of_nat i)) [0..<n]"

definition write_bytes :: "mem \<Rightarrow> u64 \<Rightarrow> u8 list \<Rightarrow> mem" where
  "write_bytes m a bs = (\<lambda>x. if unat (x - a) < length bs then bs ! unat (x - a) else m x)"

definition load32 :: "mem \<Rightarrow> u64 \<Rightarrow> u32" where
  "load32 m a = le_word (read_bytes m a 4)"

definition load64 :: "mem \<Rightarrow> u64 \<Rightarrow> u64" where
  "load64 m a = le_word (read_bytes m a 8)"

definition store32 :: "mem \<Rightarrow> u64 \<Rightarrow> u32 \<Rightarrow> mem" where
  "store32 m a v = write_bytes m a (le_bytes 4 v)"

definition store64 :: "mem \<Rightarrow> u64 \<Rightarrow> u64 \<Rightarrow> mem" where
  "store64 m a v = write_bytes m a (le_bytes 8 v)"

lemma unat_of_nat64: "n < 2 ^ 64 \<Longrightarrow> unat (of_nat n :: u64) = n"
  by (simp add: unat_of_nat)

lemma unat_lt64: "unat (x :: u64) < 2 ^ 64"
  using unsigned_less [where 'a = nat and w = x] by simp

text \<open>Offsets of an address from a moving pointer.\<close>

lemma unat_minus_1_64 [simp]: "unat (- 1 :: u64) = 2 ^ 64 - 1"
  by (simp only: unsigned_minus_1_eq_mask) (simp add: mask_eq_exp_minus_1)

lemma offset_before: "unat ((p :: u64) - (p + 1)) = 2 ^ 64 - 1"
  by simp

lemma offset_Suc: "x \<noteq> (p :: u64) \<Longrightarrow> unat (x - p) = Suc (unat (x - (p + 1)))"
proof -
  assume "x \<noteq> p"
  then have "x - p \<noteq> 0" by simp
  then have "unat (x - p - 1) = unat (x - p) - 1" by (rule unat_minus_one)
  moreover from \<open>x - p \<noteq> 0\<close> have "0 < unat (x - p)" by (simp add: unat_gt_0)
  ultimately show ?thesis by (simp add: diff_diff_eq)
qed

lemma region_iff: "x \<in> region a n \<longleftrightarrow> unat (x - a) < n"
  by (simp add: region_def)

lemma region_mono: "n \<le> k \<Longrightarrow> region a n \<subseteq> region a k"
  by (auto simp: region_def)

lemma region_offset: "i < n \<Longrightarrow> n \<le> 2 ^ 64 \<Longrightarrow> a + of_nat i \<in> region a n"
  by (simp add: region_def unat_of_nat)

lemma regionE:
  assumes "x \<in> region a n"
  obtains i where "i < n" and "x = a + of_nat i"
proof
  show "unat (x - a) < n" using assms by (simp add: region_def)
  show "x = a + of_nat (unat (x - a))" by simp
qed

text \<open>A region that does not wrap around the address space is an interval of naturals.\<close>

lemma region_nat:
  assumes "a + n \<le> 2 ^ 64"
  shows "x \<in> region (of_nat a) n \<longleftrightarrow> a \<le> unat x \<and> unat x < a + n"
proof (cases "n = 0")
  case True
  then show ?thesis by (auto simp: region_def)
next
  case False
  with assms have a: "unat (of_nat a :: u64) = a"
    by (intro unat_of_nat64) simp
  show ?thesis
  proof (cases "a \<le> unat x")
    case True
    then have "unat (x - of_nat a) = unat x - a"
      using a by (metis unat_sub word_le_nat_alt)
    with True show ?thesis by (auto simp: region_def)
  next
    case False
    then have "x < of_nat a" using a by (simp add: word_less_nat_alt)
    then have "unat (x - of_nat a) = unat x + 2 ^ 64 - a"
      using a by (simp add: unat_sub_if' not_le word_less_nat_alt)
    with False assms show ?thesis
      by (simp add: region_def)
  qed
qed

lemma length_read_bytes [simp, byte_simps]: "length (read_bytes m a n) = n"
  by (simp add: read_bytes_def)

lemma read_bytes_append:
  "read_bytes m a (n + k) = read_bytes m a n @ read_bytes m (a + of_nat n) k"
proof -
  have "map f [n..<n + k] = map (\<lambda>i. f (n + i)) [0..<k]" for f :: "nat \<Rightarrow> u8"
    by (rule nth_equalityI) auto
  then show ?thesis
    by (simp add: read_bytes_def upt_add_eq_append [of 0 n k, simplified] add.assoc)
qed

lemma read_bytes_0 [simp]: "read_bytes m a 0 = []"
  by (simp add: read_bytes_def)

lemma read_bytes_Suc: "read_bytes m a (Suc n) = m a # read_bytes m (a + 1) n"
  using read_bytes_append [of m a 1 n] by (simp add: read_bytes_def)

lemma read_bytes_numeral:
  "read_bytes m a (numeral k) = m a # read_bytes m (a + 1) (pred_numeral k)"
  by (simp add: numeral_eq_Suc read_bytes_Suc)

lemma read_bytes_cong:
  assumes "n \<le> 2 ^ 64" and "\<And>x. x \<in> region a n \<Longrightarrow> m x = m' x"
  shows "read_bytes m a n = read_bytes m' a n"
  unfolding read_bytes_def using assms by (simp add: region_offset)

lemma write_bytes_frame [frame_simps]:
  "x \<notin> region a (length bs) \<Longrightarrow> write_bytes m a bs x = m x"
  by (simp add: write_bytes_def region_def)

lemma read_write_same [byte_simps]:
  assumes "length bs = n" and "n \<le> 2 ^ 64"
  shows "read_bytes (write_bytes m a bs) a n = bs"
  using assms by (intro nth_equalityI) (auto simp: read_bytes_def write_bytes_def unat_of_nat)

lemma read_write_other [frame_simps]:
  assumes "region a (length bs) \<inter> region b n = {}" and "n \<le> 2 ^ 64"
  shows "read_bytes (write_bytes m a bs) b n = read_bytes m b n"
  using assms by (intro read_bytes_cong) (auto intro: write_bytes_frame)

lemma write_bytes_append:
  assumes "length xs + length ys \<le> 2 ^ 64"
  shows "write_bytes (write_bytes m a xs) (a + of_nat (length xs)) ys = write_bytes m a (xs @ ys)"
proof (rule ext)
  fix x :: u64
  let ?i = "unat (x - a)" and ?n = "length xs"
  consider "?n = 2 ^ 64" | (less) "?n < 2 ^ 64" using assms by linarith
  then show "write_bytes (write_bytes m a xs) (a + of_nat ?n) ys x = write_bytes m a (xs @ ys) x"
  proof cases
    case 1
    then have "ys = []" using assms by simp
    then show ?thesis by (simp add: write_bytes_def)
  next
    case less
    have n: "unat (of_nat ?n :: u64) = ?n" using less by (rule unat_of_nat64)
    have d: "x - (a + of_nat ?n) = (x - a) - of_nat ?n" by simp
    show ?thesis
    proof (cases "?n \<le> ?i")
      case True
      then have "unat (x - (a + of_nat ?n)) = ?i - ?n" unfolding d by (simp add: unat_sub word_le_nat_alt n)
      then show ?thesis using True by (auto simp: write_bytes_def nth_append)
    next
      case False
      have "unat ((x - a) - of_nat ?n) = ?i + 2 ^ LENGTH(64) - ?n"
        using unat_sub_if' [of "x - a" "of_nat ?n"] by (simp only: n False if_False)
      then have "\<not> unat (x - (a + of_nat ?n)) < length ys" unfolding d using assms False by simp
      then show ?thesis using False by (auto simp: write_bytes_def nth_append)
    qed
  qed
qed

lemma load64_store64_same [byte_simps]: "load64 (store64 m a v) a = v"
  by (simp add: load64_def store64_def byte_simps)

lemma load32_store32_same [byte_simps]: "load32 (store32 m a v) a = v"
  by (simp add: load32_def store32_def byte_simps)

lemma store64_frame: "x \<notin> region a 8 \<Longrightarrow> store64 m a v x = m x"
  by (simp add: store64_def frame_simps)

lemma store32_frame: "x \<notin> region a 4 \<Longrightarrow> store32 m a v x = m x"
  by (simp add: store32_def frame_simps)

lemma load64_cong: "(\<And>x. x \<in> region a 8 \<Longrightarrow> m x = m' x) \<Longrightarrow> load64 m a = load64 m' a"
  unfolding load64_def by (simp cong: read_bytes_cong)

lemma load32_cong: "(\<And>x. x \<in> region a 4 \<Longrightarrow> m x = m' x) \<Longrightarrow> load32 m a = load32 m' a"
  unfolding load32_def by (simp cong: read_bytes_cong)

text \<open>Two words at different offsets of one base address.\<close>

lemma unat_diff_le: "unat (u - v) \<le> unat u \<or> unat (v - u) \<le> unat (v :: u64)"
  using linorder_linear [of u v] by (auto simp: unat_sub)

lemma region_apart:
  assumes "n \<le> unat (j - i)" and "k \<le> unat (i - j)"
  shows "region (a + i) n \<inter> region (a + j) k = {}"
proof -
  have False if x: "unat (x - (a + i)) < n" "unat (x - (a + j)) < k" for x :: u64
  proof -
    let ?u = "x - (a + i)" and ?v = "x - (a + j)"
    have ji: "j - i = ?u - ?v" "i - j = ?v - ?u" by simp_all
    have "unat (?u - ?v) > unat ?u" "unat (?v - ?u) > unat ?v"
      using less_le_trans [OF x(1) assms(1)] less_le_trans [OF x(2) assms(2)] by (simp_all only: ji)
    with unat_diff_le [of ?u ?v] show False by linarith
  qed
  then show ?thesis by (auto simp: region_def)
qed

lemma load64_store64_off:
  assumes "8 \<le> unat (j - i)" and "8 \<le> unat (i - j)"
  shows "load64 (store64 m (a + i) v) (a + j) = load64 m (a + j)"
  using region_apart [OF assms, of a]
  by (simp add: load64_def store64_def read_write_other)

lemmas load64_store64_offs =
  load64_store64_off load64_store64_off [where i = 0, simplified] load64_store64_off [where j = 0, simplified]

text \<open>Arrays of 64-bit words.\<close>

lemma unat_word_index:
  assumes "j < 2 ^ 32" and "i < j"
  shows "unat (8 * of_nat j - 8 * of_nat i :: u64) = 8 * (j - i)"
    and "unat (8 * of_nat i - 8 * of_nat j :: u64) = 2 ^ 64 - 8 * (j - i)"
proof -
  have *: "unat (8 * of_nat k :: u64) = 8 * k" if "k < 2 ^ 32" for k
    using that unat_of_nat64 [of "8 * k"] by simp
  show diff: "unat (8 * of_nat j - 8 * of_nat i :: u64) = 8 * (j - i)"
    using * [of i] * [of j] assms by (subst unat_sub) (simp_all add: word_le_nat_alt)
  have neg: "unat (- w) = 2 ^ 64 - unat w" if "unat w \<noteq> 0" for w :: u64
    using that unat_sub_if' [of 0 w] by simp
  have "8 * (j - i) \<noteq> 0" using assms(2) by simp
  with neg [of "8 * of_nat j - 8 * of_nat i"]
  show "unat (8 * of_nat i - 8 * of_nat j :: u64) = 2 ^ 64 - 8 * (j - i)"
    unfolding diff minus_diff_eq by blast
qed

lemma load64_store64_index:
  assumes "i < 2 ^ 32" and "j < 2 ^ 32"
  shows "load64 (store64 m (a + 8 * of_nat i) v) (a + 8 * of_nat j) =
         (if i = j then v else load64 m (a + 8 * of_nat j))"
proof (cases i j rule: linorder_cases)
  case less
  then have "8 \<le> unat (8 * of_nat j - 8 * of_nat i :: u64)" "8 \<le> unat (8 * of_nat i - 8 * of_nat j :: u64)"
    unfolding unat_word_index [OF assms(2) less] using assms(2) by simp_all
  with less show ?thesis by (simp only: load64_store64_off if_False less_imp_neq)
next
  case equal
  then show ?thesis by (simp add: load64_store64_same)
next
  case greater
  then have "8 \<le> unat (8 * of_nat j - 8 * of_nat i :: u64)" "8 \<le> unat (8 * of_nat i - 8 * of_nat j :: u64)"
    unfolding unat_word_index [OF assms(1) greater] using assms(1) by simp_all
  with greater show ?thesis by (simp only: load64_store64_off if_False less_imp_not_eq2)
qed

lemma region_index:
  assumes "8 * i + 8 \<le> n" and "n \<le> 2 ^ 32"
  shows "region (a + 8 * of_nat i) 8 \<subseteq> region a n"
proof
  fix x assume "x \<in> region (a + 8 * of_nat i) 8"
  then obtain k where k: "k < 8" "x = a + 8 * of_nat i + of_nat k" by (rule regionE)
  then have "x = a + of_nat (8 * i + k)" by (simp add: add.assoc)
  moreover have "a + of_nat (8 * i + k) \<in> region a n" using k assms by (intro region_offset) auto
  ultimately show "x \<in> region a n" by simp
qed

lemma load64_zero:
  assumes "\<And>x. x \<in> region a 8 \<Longrightarrow> m x = 0"
  shows "load64 m a = 0"
proof -
  have "load64 m a = load64 (\<lambda>_. 0) a" by (rule load64_cong) (simp add: assms)
  also have "\<dots> = 0" by (simp add: load64_def read_bytes_def numeral_eq_Suc)
  finally show ?thesis .
qed

section \<open>Structs in memory\<close>

text \<open>
  A C struct of \<open>w\<close> bytes is read and written as a value.  What its users rely on: a read returns
  what was last written, a write touches nothing outside the struct, and a read depends on nothing
  outside it.
\<close>

locale cell =
  fixes rd :: "mem \<Rightarrow> u64 \<Rightarrow> 'v"
    and wr :: "mem \<Rightarrow> u64 \<Rightarrow> 'v \<Rightarrow> mem"
    and w :: nat
  assumes rd_wr: "rd (wr m a v) a = v"
    and wr_frame: "x \<notin> region a w \<Longrightarrow> wr m a v x = m x"
    and rd_local: "(\<And>x. x \<in> region a w \<Longrightarrow> m x = m' x) \<Longrightarrow> rd m a = rd m' a"
begin

lemma rd_wr_other:
  assumes "region a w \<inter> region b w = {}"
  shows "rd (wr m a v) b = rd m b"
  using assms by (intro rd_local wr_frame) auto

lemma rd_write_bytes_other:
  assumes "region a (length bs) \<inter> region b w = {}"
  shows "rd (write_bytes m a bs) b = rd m b"
  using assms by (intro rd_local write_bytes_frame) auto

lemma wr_read_bytes_other:
  assumes "region a w \<inter> region b n = {}" and "n \<le> 2 ^ 64"
  shows "read_bytes (wr m a v) b n = read_bytes m b n"
  using assms by (intro read_bytes_cong wr_frame) auto

end

end
