(* ===== verification/Lib.thy ===== *)
theory Lib
  imports Prelude
begin

text \<open>
  The memory and string routines of \<^verbatim>\<open>src/kern/lib/lib.c\<close>, over the byte memory and addresses.  The
  counted loops recurse on the count; the loops that run to a terminator are partial functions,
  since nothing bounds them on a memory without one.  The lemmas relate each routine to the byte
  strings its arguments point to, and show that it returns on every terminated string.
  \<open>memset\<close>, \<open>memcpy\<close> and \<open>strncpy\<close> also return their first argument, which no caller uses.
\<close>

section \<open>Definitions\<close>

primrec memset_loop :: "nat \<Rightarrow> mem \<Rightarrow> u64 \<Rightarrow> u8 \<Rightarrow> mem" where
  "memset_loop 0 m p c = m"
| "memset_loop (Suc n) m p c = memset_loop n (m(p := c)) (p + 1) c"

definition memset :: "mem \<Rightarrow> u64 \<Rightarrow> u32 \<Rightarrow> u64 \<Rightarrow> mem" where
  "memset m s c n = memset_loop (unat n) m s (ucast c)"

primrec memcpy_loop :: "nat \<Rightarrow> mem \<Rightarrow> u64 \<Rightarrow> u64 \<Rightarrow> mem" where
  "memcpy_loop 0 m d s = m"
| "memcpy_loop (Suc n) m d s = memcpy_loop n (m(d := m s)) (d + 1) (s + 1)"

definition memcpy :: "mem \<Rightarrow> u64 \<Rightarrow> u64 \<Rightarrow> u64 \<Rightarrow> mem" where
  "memcpy m dest src n = memcpy_loop (unat n) m dest src"

partial_function (option) strcmp :: "mem \<Rightarrow> u64 \<Rightarrow> u64 \<Rightarrow> int option" where
  "strcmp m s1 s2 =
     (if m s1 \<noteq> 0 \<and> m s1 = m s2 then strcmp m (s1 + 1) (s2 + 1)
      else Some (uint (m s1) - uint (m s2)))"

primrec strncmp_loop :: "nat \<Rightarrow> mem \<Rightarrow> u64 \<Rightarrow> u64 \<Rightarrow> int" where
  "strncmp_loop 0 m s1 s2 = 0"
| "strncmp_loop (Suc n) m s1 s2 =
     (if m s1 \<noteq> 0 \<and> m s1 = m s2 then strncmp_loop n m (s1 + 1) (s2 + 1)
      else uint (m s1) - uint (m s2))"

definition strncmp :: "mem \<Rightarrow> u64 \<Rightarrow> u64 \<Rightarrow> u64 \<Rightarrow> int" where
  "strncmp m s1 s2 n = strncmp_loop (unat n) m s1 s2"

text \<open>The two loops of \<open>strncpy\<close>; \<open>k\<close> is the number of bytes still to be written.\<close>

primrec strncpy_pad :: "nat \<Rightarrow> mem \<Rightarrow> u64 \<Rightarrow> mem" where
  "strncpy_pad 0 m d = m"
| "strncpy_pad (Suc k) m d = strncpy_pad k (m(d := 0)) (d + 1)"

primrec strncpy_copy :: "nat \<Rightarrow> mem \<Rightarrow> u64 \<Rightarrow> u64 \<Rightarrow> mem" where
  "strncpy_copy 0 m d s = m"
| "strncpy_copy (Suc k) m d s =
     (if m s \<noteq> 0 then strncpy_copy k (m(d := m s)) (d + 1) (s + 1)
      else strncpy_pad (Suc k) m d)"

definition strncpy :: "mem \<Rightarrow> u64 \<Rightarrow> u64 \<Rightarrow> u64 \<Rightarrow> mem" where
  "strncpy m dest src n = strncpy_copy (unat n) m dest src"

partial_function (option) strchr_loop :: "mem \<Rightarrow> u64 \<Rightarrow> u8 \<Rightarrow> u64 option" where
  "strchr_loop m s c =
     (if m s = c then Some s else if m s = 0 then Some 0 else strchr_loop m (s + 1) c)"

definition strchr :: "mem \<Rightarrow> u64 \<Rightarrow> u32 \<Rightarrow> u64 option" where
  "strchr m s c = strchr_loop m s (ucast c)"

partial_function (option) strlen_loop :: "mem \<Rightarrow> u64 \<Rightarrow> u64 \<Rightarrow> u64 option" where
  "strlen_loop m s len = (if m s \<noteq> 0 then strlen_loop m (s + 1) (len + 1) else Some len)"

definition strlen :: "mem \<Rightarrow> u64 \<Rightarrow> u64 option" where
  "strlen m s = strlen_loop m s 0"

text \<open>\<open>ALIGN_UP(addr, align)\<close> of \<^verbatim>\<open>lib.h\<close>.\<close>

definition ALIGN_UP :: "u64 \<Rightarrow> u64 \<Rightarrow> u64" where
  "ALIGN_UP addr align = (addr + align - 1) AND NOT (align - 1)"

section \<open>Terminated strings in memory\<close>

fun c_string :: "mem \<Rightarrow> u64 \<Rightarrow> u8 list \<Rightarrow> bool" where
  "c_string m a [] \<longleftrightarrow> m a = 0"
| "c_string m a (x # xs) \<longleftrightarrow> m a = x \<and> x \<noteq> 0 \<and> c_string m (a + 1) xs"

text \<open>The value of \<open>strcmp\<close> on two byte strings, the end of a string counting as 0.\<close>

fun cmp_bytes :: "u8 list \<Rightarrow> u8 list \<Rightarrow> int" where
  "cmp_bytes (x # xs) (y # ys) = (if x = y then cmp_bytes xs ys else uint x - uint y)"
| "cmp_bytes xs [] = (case xs of [] \<Rightarrow> 0 | x # _ \<Rightarrow> uint x)"
| "cmp_bytes [] (y # ys) = - uint y"

lemma c_string_unique: "c_string m a xs \<Longrightarrow> c_string m a ys \<Longrightarrow> xs = ys"
proof (induction xs arbitrary: a ys)
  case Nil
  then show ?case by (cases ys) auto
next
  case (Cons x xs)
  then show ?case by (cases ys) auto
qed

lemma c_string_nonzero: "c_string m a xs \<Longrightarrow> 0 \<notin> set xs"
  by (induction xs arbitrary: a) auto

lemma c_string_nth: "c_string m a xs \<Longrightarrow> i < length xs \<Longrightarrow> m (a + of_nat i) = xs ! i"
proof (induction xs arbitrary: a i)
  case Nil
  then show ?case by simp
next
  case (Cons x xs)
  then show ?case by (cases i) (auto simp: add.assoc [symmetric])
qed

lemma c_string_end: "c_string m a xs \<Longrightarrow> m (a + of_nat (length xs)) = 0"
  by (induction xs arbitrary: a) (auto simp: add.assoc [symmetric])

lemma c_string_cong:
  assumes "c_string m a xs" and "\<And>i. i \<le> length xs \<Longrightarrow> m' (a + of_nat i) = m (a + of_nat i)"
  shows "c_string m' a xs"
  using assms
proof (induction xs arbitrary: a)
  case Nil
  then show ?case using Nil.prems(2) [of 0] by simp
next
  case (Cons x xs)
  have "m' a = m a" using Cons.prems(2) [of 0] by simp
  moreover have "m' (a + 1 + of_nat i) = m (a + 1 + of_nat i)" if "i \<le> length xs" for i
    using Cons.prems(2) [of "Suc i"] that by (simp add: add.assoc)
  ultimately show ?case using Cons by auto
qed

lemma c_string_bytes:
  "read_bytes m a (length xs) = xs \<Longrightarrow> m (a + of_nat (length xs)) = 0 \<Longrightarrow> 0 \<notin> set xs \<Longrightarrow> c_string m a xs"
proof (induction xs arbitrary: a)
  case Nil
  then show ?case by simp
next
  case (Cons x xs)
  then show ?case by (auto simp: read_bytes_Suc add.assoc)
qed

lemma c_string_write:
  assumes "0 \<notin> set xs" and "length xs < 2 ^ 64"
  shows "c_string (write_bytes m a (xs @ [0])) a xs"
proof -
  let ?m = "write_bytes m a (xs @ [0])"
  have at: "?m (a + of_nat i) = (xs @ [0]) ! i" if "i \<le> length xs" for i
    using that assms(2) by (simp add: write_bytes_def unat_of_nat)
  have "c_string ?m (a + of_nat k) (drop k xs)" if "k \<le> length xs" for k
    using that
  proof (induction "length xs - k" arbitrary: k)
    case 0
    then show ?case using at [of k] by (simp add: nth_append)
  next
    case (Suc n)
    then have k: "k < length xs" by simp
    then have d: "drop k xs = xs ! k # drop (Suc k) xs" by (simp add: Cons_nth_drop_Suc)
    have "xs ! k \<noteq> 0" using assms(1) k by (metis nth_mem)
    moreover have "c_string ?m (a + of_nat (Suc k)) (drop (Suc k) xs)"
      using Suc k by (intro Suc.hyps) auto
    ultimately show ?case
      using at [of k] k unfolding d by (simp add: nth_append add_ac)
  qed
  from this [of 0] show ?thesis by simp
qed

section \<open>Block operations\<close>

lemma memset_loop_eq:
  assumes "n \<le> 2 ^ 64"
  shows "memset_loop n m p c x = (if unat (x - p) < n then c else m x)"
  using assms
proof (induction n arbitrary: m p)
  case 0
  then show ?case by simp
next
  case (Suc n)
  show ?case
  proof (cases "x = p")
    case True
    with Suc show ?thesis by (simp add: offset_before)
  next
    case False
    with Suc offset_Suc [OF False] show ?thesis by auto
  qed
qed

lemma memset_eq: "memset m s c n = write_bytes m s (replicate (unat n) (ucast c))"
  by (rule ext) (simp add: memset_def memset_loop_eq [OF less_imp_le [OF unat_lt64]] write_bytes_def)

text \<open>
  The forward copy is right whenever no byte is overwritten before it is read: the destination is
  the source, or does not start inside the rest of it.  This covers disjoint buffers and the
  downward move of a scrolled screen.
\<close>

lemma memcpy_loop_eq:
  assumes "n \<le> 2 ^ 64" and "d = s \<or> n \<le> unat (d - s)"
  shows "memcpy_loop n m d s x = (if unat (x - d) < n then m (s + (x - d)) else m x)"
  using assms
proof (induction n arbitrary: m d s)
  case 0
  then show ?case by simp
next
  case (Suc n)
  have "d + 1 = s + 1 \<or> n \<le> unat (d + 1 - (s + 1))"
    using Suc.prems(2) by auto
  moreover have "n \<le> 2 ^ 64" using Suc.prems(1) by simp
  ultimately have IH: "memcpy_loop (Suc n) m d s x =
      (if unat (x - (d + 1)) < n then (m(d := m s)) (s + 1 + (x - (d + 1))) else (m(d := m s)) x)"
    unfolding memcpy_loop.simps by (intro Suc.IH)
  show ?case
  proof (cases "x = d")
    case True
    then show ?thesis using IH Suc.prems(1) by (simp add: offset_before)
  next
    case False
    have "s + (x - d) \<noteq> d" if "unat (x - d) < Suc n" "d \<noteq> s"
    proof
      assume "s + (x - d) = d"
      then have "x - d = d - s" by (metis add_diff_cancel_left')
      with that Suc.prems(2) show False by simp
    qed
    moreover have "s + 1 + (x - (d + 1)) = s + (x - d)" by simp
    ultimately show ?thesis
      using IH offset_Suc [OF False] False by (cases "d = s") auto
  qed
qed

lemma memcpy_eq:
  assumes "dest = src \<or> unat n \<le> unat (dest - src)"
  shows "memcpy m dest src n = write_bytes m dest (read_bytes m src (unat n))"
  using assms memcpy_loop_eq [of "unat n" dest src m] unat_lt64 [of n]
  by (intro ext) (simp add: memcpy_def write_bytes_def read_bytes_def)

section \<open>String operations\<close>

lemma strlen_loop_c_string:
  "c_string m a xs \<Longrightarrow> strlen_loop m a len = Some (len + of_nat (length xs))"
proof (induction xs arbitrary: a len)
  case Nil
  then show ?case by (simp add: strlen_loop.simps)
next
  case (Cons x xs)
  then show ?case by (subst strlen_loop.simps) (simp add: add_ac)
qed

lemma strlen_c_string: "c_string m a xs \<Longrightarrow> strlen m a = Some (of_nat (length xs))"
  by (simp add: strlen_def strlen_loop_c_string)

lemma strcmp_c_string:
  "c_string m a xs \<Longrightarrow> c_string m b ys \<Longrightarrow> strcmp m a b = Some (cmp_bytes xs ys)"
proof (induction xs ys arbitrary: a b rule: cmp_bytes.induct)
  case (1 x xs y ys)
  then show ?case by (subst strcmp.simps) auto
next
  case (2 xs)
  then show ?case by (subst strcmp.simps) (cases xs; auto)
next
  case (3 y ys)
  then show ?case by (subst strcmp.simps) auto
qed

lemma cmp_bytes_zero:
  "0 \<notin> set xs \<Longrightarrow> 0 \<notin> set ys \<Longrightarrow> cmp_bytes xs ys = 0 \<longleftrightarrow> xs = ys"
  by (induction xs ys rule: cmp_bytes.induct) (auto split: list.splits simp: uint_0_iff dest: word_uint_eqI)

lemma cmp_bytes_less:
  "0 \<notin> set xs \<Longrightarrow> 0 \<notin> set ys \<Longrightarrow> cmp_bytes xs ys < 0 \<longleftrightarrow> (xs, ys) \<in> lexord {(x, y). x < y}"
proof (induction xs ys rule: cmp_bytes.induct)
  case (1 x xs y ys)
  then show ?case by (auto simp: word_less_def)
next
  case (2 xs)
  then show ?case by (auto split: list.splits simp: not_less)
next
  case (3 y ys)
  then have "0 < uint y" by (simp add: word_neq_0_conv word_less_def)
  then show ?case by simp
qed

lemma strncmp_loop_c_string:
  "c_string m a xs \<Longrightarrow> c_string m b ys \<Longrightarrow>
     strncmp_loop n m a b = cmp_bytes (take n xs) (take n ys)"
proof (induction n arbitrary: a b xs ys)
  case 0
  then show ?case by simp
next
  case (Suc n)
  then show ?case
    by (cases xs; cases ys) (auto split: list.splits)
qed

lemma strncmp_c_string:
  "c_string m a xs \<Longrightarrow> c_string m b ys \<Longrightarrow>
     strncmp m a b n = cmp_bytes (take (unat n) xs) (take (unat n) ys)"
  by (simp add: strncmp_def strncmp_loop_c_string)

lemma strchr_loop_found:
  "c_string m a (xs @ c # ys) \<Longrightarrow> c \<notin> set xs \<Longrightarrow> strchr_loop m a c = Some (a + of_nat (length xs))"
proof (induction xs arbitrary: a)
  case Nil
  then show ?case by (simp add: strchr_loop.simps)
next
  case (Cons x xs)
  then show ?case by (subst strchr_loop.simps) (auto simp: add_ac)
qed

lemma strchr_loop_missing:
  "c_string m a xs \<Longrightarrow> c \<notin> set xs \<Longrightarrow> c \<noteq> 0 \<Longrightarrow> strchr_loop m a c = Some 0"
proof (induction xs arbitrary: a)
  case Nil
  then show ?case by (simp add: strchr_loop.simps)
next
  case (Cons x xs)
  then show ?case by (subst strchr_loop.simps) auto
qed

lemma strncpy_pad_eq:
  "k \<le> 2 ^ 64 \<Longrightarrow> strncpy_pad k m d x = (if unat (x - d) < k then 0 else m x)"
proof (induction k arbitrary: m d)
  case 0
  then show ?case by simp
next
  case (Suc k)
  then show ?case
    by (cases "x = d") (auto simp: offset_before offset_Suc)
qed

text \<open>What \<open>strncpy\<close> writes: the string cut to \<open>n\<close> bytes, then zeros.\<close>

definition strncpy_bytes :: "nat \<Rightarrow> u8 list \<Rightarrow> u8 list" where
  "strncpy_bytes n xs = take n xs @ replicate (n - length xs) 0"

lemma strncpy_copy_eq:
  assumes "c_string m s xs" and "n \<le> 2 ^ 64"
    and "\<And>i. i \<le> length xs \<Longrightarrow> s + of_nat i \<notin> region d n"
  shows "strncpy_copy n m d s = write_bytes m d (strncpy_bytes n xs)"
  using assms
proof (induction n arbitrary: m d s xs)
  case 0
  then show ?case by (auto simp: strncpy_bytes_def write_bytes_def)
next
  case (Suc n)
  show ?case
  proof (cases xs)
    case Nil
    then have "strncpy_copy (Suc n) m d s = strncpy_pad (Suc n) m d"
      using Suc.prems(1) by simp
    then show ?thesis
      using strncpy_pad_eq [OF Suc.prems(2)] Nil
      by (intro ext) (simp add: strncpy_bytes_def write_bytes_def del: replicate_Suc)
  next
    case (Cons y ys)
    have "c_string (m(d := y)) (s + 1) ys"
    proof (rule c_string_cong)
      show "c_string m (s + 1) ys" using Suc.prems(1) Cons by simp
      fix i assume "i \<le> length ys"
      then have "s + of_nat (Suc i) \<notin> region d (Suc n)"
        using Suc.prems(3) [of "Suc i"] Cons by simp
      then have "s + 1 + of_nat i \<noteq> d" by (auto simp: region_def add.assoc)
      then show "(m(d := y)) (s + 1 + of_nat i) = m (s + 1 + of_nat i)" by simp
    qed
    moreover have "s + 1 + of_nat i \<notin> region (d + 1) n" if "i \<le> length ys" for i
      using Suc.prems(3) [of "Suc i"] that Cons offset_Suc [of "s + 1 + of_nat i" d]
      by (cases "s + 1 + of_nat i = d") (auto simp: region_def add.assoc)
    moreover have "n \<le> 2 ^ 64" using Suc.prems(2) by simp
    ultimately have "strncpy_copy n (m(d := y)) (d + 1) (s + 1) =
        write_bytes (m(d := y)) (d + 1) (strncpy_bytes n ys)"
      by (intro Suc.IH)
    then have "strncpy_copy (Suc n) m d s = write_bytes (m(d := y)) (d + 1) (strncpy_bytes n ys)"
      using Suc.prems(1) Cons by simp
    also have "\<dots> = write_bytes m d (strncpy_bytes (Suc n) xs)"
    proof
      fix x
      have len: "length (strncpy_bytes n ys) = n" "strncpy_bytes (Suc n) xs = y # strncpy_bytes n ys"
        using Cons by (simp_all add: strncpy_bytes_def)
      show "write_bytes (m(d := y)) (d + 1) (strncpy_bytes n ys) x =
            write_bytes m d (strncpy_bytes (Suc n) xs) x"
        using Suc.prems(2)
        by (cases "x = d") (auto simp: write_bytes_def len offset_before offset_Suc)
    qed
    finally show ?thesis .
  qed
qed

section \<open>Properties\<close>

text \<open>A memory that holds the strings "ab" at 0 and "ac" at 16, for concrete instances.\<close>

definition text_mem :: mem where
  "text_mem = write_bytes (write_bytes (\<lambda>_. 0) 0 [0x61, 0x62, 0]) 16 [0x61, 0x63, 0]"

lemma text_mem_strings: "c_string text_mem 0 [0x61, 0x62]" "c_string text_mem 16 [0x61, 0x63]"
  by (simp_all add: text_mem_def write_bytes_def)

text \<open>on terminated strings \<open>strcmp\<close> returns, its result is 0 exactly for equal strings and
  negative exactly when the first string comes first in the byte-wise lexicographic order.\<close>

theorem strcmp_correct:
  assumes "c_string m a xs" and "c_string m b ys"
  shows "\<exists>r. strcmp m a b = Some r \<and> (r = 0 \<longleftrightarrow> xs = ys) \<and>
             (r < 0 \<longleftrightarrow> (xs, ys) \<in> lexord {(x, y). x < y})"
  using strcmp_c_string [OF assms] cmp_bytes_zero [of xs ys] cmp_bytes_less [of xs ys]
    c_string_nonzero [OF assms(1)] c_string_nonzero [OF assms(2)] by auto

theorem strcmp_correct_witness: "\<exists>r. strcmp text_mem 0 16 = Some r \<and> r < 0"
  using strcmp_correct [OF text_mem_strings] by auto

text \<open>\<open>strlen\<close> returns the number of bytes before the terminator, and \<open>strchr\<close> the address of
  the first occurrence of the byte, or null when a non-zero byte does not occur.\<close>

theorem strlen_strchr_correct:
  assumes "c_string m a xs"
  shows "strlen m a = Some (of_nat (length xs)) \<and>
         (\<forall>us vs. xs = us @ ucast c # vs \<and> ucast c \<notin> set us \<longrightarrow>
            strchr m a c = Some (a + of_nat (length us))) \<and>
         (ucast c \<notin> set xs \<and> (ucast c :: u8) \<noteq> 0 \<longrightarrow> strchr m a c = Some 0)"
  using strlen_c_string [OF assms] strchr_loop_found [of m a] strchr_loop_missing [OF assms] assms
  unfolding strchr_def by blast

theorem strlen_strchr_correct_witness:
  "strlen text_mem 0 = Some 2 \<and> strchr text_mem 0 0x62 = Some 1 \<and> strchr text_mem 0 0x63 = Some 0"
  using strlen_strchr_correct [OF text_mem_strings(1), of "0x62"]
    strlen_strchr_correct [OF text_mem_strings(1), of "0x63"]
  by (auto elim!: allE [of _ "[0x61]"])

text \<open>\<open>strncpy\<close> writes exactly \<open>n\<close> bytes, the source cut to \<open>n\<close> bytes and zeros after it, and
  nothing else; so the copy is terminated exactly when the source is shorter than \<open>n\<close>.\<close>

theorem strncpy_correct:
  assumes "c_string m src xs" and "\<And>i. i \<le> length xs \<Longrightarrow> src + of_nat i \<notin> region dest (unat n)"
  shows "strncpy m dest src n =
           write_bytes m dest (take (unat n) xs @ replicate (unat n - length xs) 0)"
  using strncpy_copy_eq [OF assms(1) less_imp_le [OF unat_lt64] assms(2)]
  by (simp add: strncpy_def strncpy_bytes_def)

theorem strncpy_correct_witness: "strncpy text_mem 32 0 4 = write_bytes text_mem 32 [0x61, 0x62, 0, 0]"
proof -
  have "0 + of_nat i \<notin> region 32 (unat (4 :: u64))" if "i \<le> length [0x61, 0x62 :: u8]" for i
  proof -
    from that consider "i = 0" | "i = 1" | "i = 2" by fastforce
    then show ?thesis by cases (simp_all add: region_def)
  qed
  from strncpy_correct [OF text_mem_strings(1) this] show ?thesis
    by (simp add: replicate_numeral)
qed

text \<open>\<open>memcpy\<close> copies \<open>n\<close> bytes as they were before the call, and writes nothing else, whenever
  the destination is the source or does not start in the rest of it; the regions may overlap when the
  destination lies below.  \<open>memset\<close> fills exactly \<open>n\<close> bytes.\<close>

theorem memcpy_correct:
  assumes "dest = src \<or> unat n \<le> unat (dest - src)"
  shows "memcpy m dest src n = write_bytes m dest (read_bytes m src (unat n)) \<and>
         memset m dest c n = write_bytes m dest (replicate (unat n) (ucast c))"
  using memcpy_eq [OF assms] memset_eq by simp

theorem memcpy_correct_witness:
  "memcpy text_mem 0 1 2 = write_bytes text_mem 0 [0x62, 0] \<and>
   memset text_mem 0 7 2 = write_bytes text_mem 0 [7, 7]"
proof -
  have "read_bytes text_mem 1 2 = [0x62, 0]"
    by (simp add: read_bytes_numeral read_bytes_Suc text_mem_def write_bytes_def)
  then show ?thesis
    using memcpy_correct [of 0 1 2 text_mem 7] by (simp add: replicate_numeral)
qed

end
