(* ===== verification/Printf.thy ===== *)
theory Printf
  imports Lib "HOL-Library.Signed_Division"
begin

text \<open>
  The formatted output of \<^verbatim>\<open>src/kern/lib/lib.c\<close>: \<open>itoa\<close>, \<open>vsnprintf\<close> and \<open>snprintf\<close>.  The destination, the
  format and string arguments lie in the byte memory; the number buffers on the stack are byte lists.
  The variable arguments are a list of 64-bit values; taking one from an empty list is undefined
  behaviour, \<open>None\<close>.  The loops are partial functions.
\<close>

section \<open>Definitions\<close>

text \<open>The character of a digit; \<open>tmp_val\<close> may be negative.\<close>

definition itoa_char :: "int \<Rightarrow> u8" where
  "itoa_char tmp_val = (if tmp_val > 9 then word_of_int (tmp_val - 10 + 97) else word_of_int (tmp_val + 48))"

text \<open>The characters the first loop of \<open>itoa\<close> appends to the buffer.\<close>

partial_function (option) itoa_digits :: "int \<Rightarrow> int \<Rightarrow> u8 list option" where
  "itoa_digits num base =
     (if num \<noteq> 0 then do { rest \<leftarrow> itoa_digits (num sdiv base) base; Some (itoa_char (num smod base) # rest) }
      else Some [])"

text \<open>The second loop: \<open>ptr1\<close> and \<open>ptr\<close> are the indices \<open>i\<close> and \<open>j\<close>.\<close>

function reverse_loop :: "u8 list \<Rightarrow> nat \<Rightarrow> nat \<Rightarrow> u8 list" where
  "reverse_loop buf i j =
     (if i < j then reverse_loop (buf[j := buf ! i, i := buf ! j]) (Suc i) (j - 1) else buf)"
  by pat_completeness auto
termination by (relation "measure (\<lambda>(buf, i, j). j - i)") auto

text \<open>\<open>num\<close> is a \<open>long long\<close>; negating the smallest one is a signed overflow, for which the language defines no
  result.\<close>

abbreviation LLONG_MAX :: int where "LLONG_MAX \<equiv> 2 ^ 63 - 1"

definition itoa :: "int \<Rightarrow> int \<Rightarrow> u8 list option" where
  "itoa num base =
     (if num = 0 then Some [0x30]
      else do {
        let is_negative = (num < 0 \<and> base = 10);
        num \<leftarrow> (if is_negative then (if - num > LLONG_MAX then None else Some (- num)) else Some num);
        buf \<leftarrow> itoa_digits num base;
        let buf = (if is_negative then buf @ [0x2D] else buf);
        Some (reverse_loop buf 0 (length buf - 1))
      })"

text \<open>The number of bytes to copy, cut to what the size leaves.\<close>

definition cut :: "u64 \<Rightarrow> u64 \<Rightarrow> u64 \<Rightarrow> u64" where
  "cut sz written n = (if written + n \<ge> sz then sz - written - 1 else n)"

text \<open>The next variable argument.\<close>

definition va_arg :: "u64 list \<Rightarrow> (u64 \<times> u64 list) option" where
  "va_arg ap = (case ap of [] \<Rightarrow> None | a # ap \<Rightarrow> Some (a, ap))"

text \<open>The part of the loop body for a conversion whose character is at \<open>format\<close>: the memory, by how much
  \<open>str_ptr\<close> and \<open>written\<close> advance, and the remaining arguments.\<close>

definition convert :: "mem \<Rightarrow> u64 \<Rightarrow> u64 \<Rightarrow> u64 \<Rightarrow> u64 list \<Rightarrow> u64 \<Rightarrow> (mem \<times> u64 \<times> u64 list) option" where
  "convert m str_ptr sz format ap written =
     (if m format = 0x73 then do {
        (s, ap) \<leftarrow> va_arg ap;
        s_len \<leftarrow> strlen m s;
        let s_len = cut sz written s_len;
        Some (memcpy m str_ptr s s_len, s_len, ap)
      }
      else if m format = 0x64 \<or> m format = 0x69 then do {
        (val, ap) \<leftarrow> va_arg ap;
        num_buf \<leftarrow> itoa (c_int val) 10;
        let num_len = cut sz written (of_nat (length num_buf));
        Some (write_bytes m str_ptr (take (unat num_len) num_buf), num_len, ap)
      }
      else if m format = 0x78 \<or> m format = 0x70 then do {
        (val, ap) \<leftarrow> va_arg ap;
        num_buf \<leftarrow> itoa (sint val) 16;
        let num_len = cut sz written (of_nat (length num_buf));
        Some (write_bytes m str_ptr (take (unat num_len) num_buf), num_len, ap)
      }
      else if m format = 0x63 then do {
        (c, ap) \<leftarrow> va_arg ap;
        Some (if written + 1 < sz then (m(str_ptr := ucast c), 1, ap) else (m, 0, ap))
      }
      else if m format = 0x25 then
        Some (if written + 1 < sz then (m(str_ptr := 0x25), 1, ap) else (m, 0, ap))
      else Some (m, 0, ap))"

partial_function (option) vsnprintf_loop ::
  "mem \<Rightarrow> u64 \<Rightarrow> u64 \<Rightarrow> u64 \<Rightarrow> u64 list \<Rightarrow> u64 \<Rightarrow> (mem \<times> u64 \<times> u64) option" where
  "vsnprintf_loop m str_ptr sz format ap written =
     (if m format \<noteq> 0 \<and> written < sz
      then if m format = 0x25
        then do {
          (m, n, ap) \<leftarrow> convert m str_ptr sz (format + 1) ap written;
          vsnprintf_loop m (str_ptr + n) sz (format + 2) ap (written + n)
        }
        else vsnprintf_loop (m(str_ptr := m format)) (str_ptr + 1) sz (format + 1) ap (written + 1)
      else Some (m, str_ptr, written))"

definition vsnprintf :: "mem \<Rightarrow> u64 \<Rightarrow> u64 \<Rightarrow> u64 \<Rightarrow> u64 list \<Rightarrow> (int \<times> mem) option" where
  "vsnprintf m str sz format ap = do {
     (m, str_ptr, written) \<leftarrow> vsnprintf_loop m str sz format ap 0;
     let m = (if written < sz then m(str_ptr := 0)
              else if sz > 0 then m(str + (sz - 1) := 0) else m);
     Some (c_int written, m)
   }"

definition snprintf :: "mem \<Rightarrow> u64 \<Rightarrow> u64 \<Rightarrow> u64 \<Rightarrow> u64 list \<Rightarrow> (int \<times> mem) option" where
  "snprintf m str sz format args = vsnprintf m str sz format args"

section \<open>Numbers\<close>

declare reverse_loop.simps [simp del]

lemma reverse_loop_rev:
  assumes "i + length ys = Suc j \<or> ys = [] \<and> j = i - 1 \<and> 0 < i \<or> ys = [] \<and> i = 0 \<and> j = 0" and "length xs = i"
  shows "reverse_loop (xs @ ys @ zs) i j = xs @ rev ys @ zs"
  using assms
proof (induction "length ys" arbitrary: xs ys zs i j rule: less_induct)
  case less
  show ?case
  proof (cases "length ys \<le> 1")
    case True
    then have "\<not> i < j" using less.prems(1) by auto
    moreover have "rev ys = ys" using True by (cases ys) auto
    ultimately show ?thesis by (simp add: reverse_loop.simps)
  next
    case False
    then obtain y y' ws where ys: "ys = y # ws @ [y']"
      by (cases ys; cases "tl ys" rule: rev_cases) auto
    have j: "j = Suc (i + length ws)" using less.prems(1) ys by auto
    have "(xs @ ys @ zs)[j := (xs @ ys @ zs) ! i, i := (xs @ ys @ zs) ! j] = (xs @ [y']) @ ws @ (y # zs)"
      using less.prems(2) by (simp add: ys j nth_append list_update_append)
    moreover have "reverse_loop ((xs @ [y']) @ ws @ (y # zs)) (Suc i) (j - 1) = (xs @ [y']) @ rev ws @ (y # zs)"
      using ys j less.prems(2) by (intro less.hyps) auto
    ultimately show ?thesis using j ys by (subst reverse_loop.simps) simp
  qed
qed

lemma reverse_loop_all: "reverse_loop xs 0 (length xs - 1) = rev xs"
  using reverse_loop_rev [of 0 xs "length xs - 1" "[]" "[]"] by (cases xs) auto

text \<open>The usual notation of a number, most significant digit first.\<close>

fun radix :: "nat \<Rightarrow> nat \<Rightarrow> nat list" where
  "radix b n = (if n < b \<or> b < 2 then [n] else radix b (n div b) @ [n mod b])"

declare radix.simps [simp del]

definition digit_char :: "nat \<Rightarrow> u8" where
  "digit_char d = (if d > 9 then of_nat (d - 10 + 97) else of_nat (d + 48))"

definition number_text :: "nat \<Rightarrow> int \<Rightarrow> u8 list" where
  "number_text b k = (if k < 0 then [0x2D] else []) @ map digit_char (radix b (nat \<bar>k\<bar>))"

lemma itoa_char_nat: "itoa_char (int d) = digit_char d"
  by (simp add: itoa_char_def digit_char_def of_nat_diff)

lemma itoa_digits_radix:
  assumes "0 < n" and "2 \<le> b"
  shows "itoa_digits (int n) (int b) = Some (map digit_char (rev (radix b n)))"
  using assms(1)
proof (induction n rule: less_induct)
  case (less n)
  have q: "int n sdiv int b = int (n div b)" "int n smod int b = int (n mod b)"
    using less.prems assms(2) by (simp_all add: signed_divide_int_def signed_modulo_int_def zdiv_int zmod_int)
  show ?case
  proof (cases "n < b")
    case True
    then have "itoa_digits (int n sdiv int b) (int b) = Some []" using q by (subst itoa_digits.simps) simp
    then show ?thesis using True less.prems q
      by (subst itoa_digits.simps, subst radix.simps) (simp add: itoa_char_nat)
  next
    case False
    then have "0 < n div b" "n div b < n" using assms(2) less.prems by (simp_all add: div_greater_zero_iff)
    from less.IH [OF this(2,1)] show ?thesis using False less.prems assms(2) q
      by (subst itoa_digits.simps, subst radix.simps) (simp add: itoa_char_nat)
  qed
qed

lemma itoa_text:
  assumes "b = 10 \<or> 2 \<le> b \<and> 0 \<le> k" and "- LLONG_MAX \<le> k"
  shows "itoa k (int b) = Some (number_text b k)"
proof -
  consider "k = 0" | (pos) "0 < k" | (neg) "k < 0" by linarith
  then show ?thesis
  proof cases
    case 1
    then show ?thesis using assms by (subst number_text_def, subst radix.simps) (auto simp: itoa_def digit_char_def)
  next
    case pos
    have "itoa_digits k (int b) = Some (map digit_char (rev (radix b (nat k))))"
      using itoa_digits_radix [of "nat k" b] pos assms by auto
    with pos show ?thesis
      using reverse_loop_all [of "map digit_char (rev (radix b (nat k)))"]
      by (simp add: itoa_def number_text_def rev_map)
  next
    case neg
    then have b: "b = 10" using assms by simp
    let ?ds = "map digit_char (rev (radix 10 (nat (- k))))"
    have "itoa_digits (- k) 10 = Some ?ds" using itoa_digits_radix [of "nat (- k)" 10] neg by simp
    with neg b assms(2) show ?thesis
      using reverse_loop_all [of "?ds @ [0x2D]"] by (simp add: itoa_def number_text_def rev_map)
  qed
qed

lemma radix_value: "foldl (\<lambda>a d. a * b + d) 0 (radix b n) = n"
proof (induction b n rule: radix.induct)
  case (1 b n)
  then show ?case by (subst radix.simps) (auto simp: mult.commute)
qed

lemma radix_digits: "2 \<le> b \<Longrightarrow> d \<in> set (radix b n) \<Longrightarrow> d < b"
proof (induction b n rule: radix.induct)
  case (1 b n)
  then show ?case by (subst (asm) (2) radix.simps) (auto split: if_splits)
qed

lemma radix_length: "2 \<le> b \<Longrightarrow> n < b ^ Suc k \<Longrightarrow> length (radix b n) \<le> Suc k"
proof (induction k arbitrary: n)
  case 0
  then show ?case by (subst radix.simps) simp
next
  case (Suc k)
  show ?case
  proof (cases "n < b")
    case True
    then show ?thesis by (subst radix.simps) simp
  next
    case False
    have "n div b < b ^ Suc k" using Suc.prems by (simp add: div_less_iff_less_mult mult.commute)
    from Suc.IH [OF Suc.prems(1) this] False show ?thesis by (subst radix.simps) simp
  qed
qed

lemma number_text_length:
  assumes "2 \<le> b" and "nat \<bar>k\<bar> < b ^ Suc j"
  shows "length (number_text b k) \<le> Suc (Suc j)"
  using radix_length [OF assms] by (auto simp: number_text_def)

section \<open>Formatting\<close>

text \<open>What a format and its arguments stand for: \<open>None\<close> when an argument is missing, when the format ends in a
  single \<open>%\<close>, when a string argument has no known value, or for a hexadecimal argument above $2^{63}$.\<close>

fun expand :: "(u64 \<Rightarrow> u8 list option) \<Rightarrow> u8 list \<Rightarrow> u64 list \<Rightarrow> u8 list option" where
  "expand strs [] ap = Some []"
| "expand strs [c] ap = (if c = 0x25 then None else Some [c])"
| "expand strs (c # d # f) ap =
     (if c \<noteq> 0x25 then map_option ((#) c) (expand strs (d # f) ap)
      else if d = 0x73 then (case ap of [] \<Rightarrow> None
        | a # ap \<Rightarrow> do { s \<leftarrow> strs a; r \<leftarrow> expand strs f ap; Some (s @ r) })
      else if d = 0x64 \<or> d = 0x69 then (case ap of [] \<Rightarrow> None
        | a # ap \<Rightarrow> do { r \<leftarrow> expand strs f ap; Some (number_text 10 (c_int a) @ r) })
      else if d = 0x78 \<or> d = 0x70 then (case ap of [] \<Rightarrow> None
        | a # ap \<Rightarrow> if sint a < 0 then None else do { r \<leftarrow> expand strs f ap; Some (number_text 16 (sint a) @ r) })
      else if d = 0x63 then (case ap of [] \<Rightarrow> None
        | a # ap \<Rightarrow> do { r \<leftarrow> expand strs f ap; Some (ucast a # r) })
      else if d = 0x25 then map_option ((#) 0x25) (expand strs f ap)
      else expand strs f ap)"

text \<open>Output that is right as far as the size allows: \<open>bs\<close> is written from index \<open>W\<close> on where \<open>out\<close> is due.\<close>

definition fits_as :: "nat \<Rightarrow> nat \<Rightarrow> u8 list \<Rightarrow> u8 list \<Rightarrow> bool" where
  "fits_as S W bs out \<longleftrightarrow> W + length bs \<le> S \<and>
     (if W + length out < S then bs = out
      else S - 1 \<le> W + length bs \<and> take (S - 1 - W) bs = take (S - 1 - W) out)"

lemma fits_as_Nil: "W \<le> S \<Longrightarrow> fits_as S W [] []"
  by (auto simp: fits_as_def)

lemma fits_as_full: "fits_as S S [] out"
  by (simp add: fits_as_def)

lemma fits_as_append:
  assumes "W < S" and "xs = ys \<or> xs = take (S - 1 - W) ys" and "W + length xs \<le> S"
    and "fits_as S (W + length xs) bs out"
  shows "fits_as S W (xs @ bs) (ys @ out)"
proof (cases "xs = ys")
  case True
  with assms show ?thesis
    by (cases "W + length xs = S") (auto simp: fits_as_def)
next
  case False
  then have xs: "xs = take (S - 1 - W) ys" "S - 1 - W < length ys" using assms(2) by auto
  then have "length xs = S - 1 - W" by simp
  then show ?thesis using assms(1,4) xs by (auto simp: fits_as_def)
qed

lemma write_bytes_Nil: "write_bytes m a [] = m"
  by (rule ext) (simp add: write_bytes_def)

lemma write_bytes_single: "write_bytes m a [c] = m(a := c)"
proof (rule ext)
  fix x
  show "write_bytes m a [c] x = (m(a := c)) x"
    using unat_gt_0 [of "x - a"] by (cases "x = a") (simp_all add: write_bytes_def)
qed


text \<open>The state of the loop: the destination does not overlap the format and the string arguments.\<close>

definition apart :: "u64 \<Rightarrow> nat \<Rightarrow> u64 \<Rightarrow> nat \<Rightarrow> bool" where
  "apart a n b k \<longleftrightarrow> region a n \<inter> region b k = {}"

definition readable :: "mem \<Rightarrow> u64 \<Rightarrow> nat \<Rightarrow> u64 \<Rightarrow> u8 list \<Rightarrow> bool" where
  "readable m str S a s \<longleftrightarrow> c_string m a s \<and> length s < 2 ^ 63 \<and> (\<forall>i \<le> length s. a + of_nat i \<notin> region str S)"

lemma readable_Cons: "readable m str S a (x # s) \<Longrightarrow> readable m str S (a + 1) s"
proof -
  assume r: "readable m str S a (x # s)"
  have "a + 1 + of_nat i \<notin> region str S" if "i \<le> length s" for i
    using r that by (auto simp: readable_def dest!: spec [of _ "Suc i"] simp: add.assoc)
  then show ?thesis using r by (simp add: readable_def)
qed

lemma readable_below:
  assumes "c_string m a s" and "unat a + length s < unat str" and "unat str + S \<le> 2 ^ 64" and "length s < 2 ^ 63"
  shows "readable m str S a s"
proof -
  have "a + of_nat i \<notin> region str S" if "i \<le> length s" for i
  proof -
    have "unat a + i < 2 ^ 64" using assms(2) that unat_lt64 [of str] by linarith
    then have "unat (a + of_nat i) = unat a + i" by (simp add: unat_word_ariths unat_of_nat)
    then show ?thesis using region_nat [OF assms(3), of "a + of_nat i"] assms(2) that by simp
  qed
  then show ?thesis using assms(1,4) by (simp add: readable_def)
qed

lemma readable_write:
  assumes "readable m str S a s" and "\<And>x. x \<notin> region str S \<Longrightarrow> m' x = m x"
  shows "readable m' str S a s"
  using assms c_string_cong [of m a s m'] by (simp add: readable_def)

lemma write_inside:
  assumes "W + length bs \<le> S" and "S \<le> 2 ^ 64" and "x \<notin> region str S"
  shows "write_bytes m (str + of_nat W) bs x = m x"
proof (rule write_bytes_frame, rule notI)
  assume "x \<in> region (str + of_nat W) (length bs)"
  then obtain i where i: "i < length bs" "x = str + of_nat W + of_nat i" by (rule regionE)
  then have "x = str + of_nat (W + i)" by (simp add: add.assoc)
  moreover have "str + of_nat (W + i) \<in> region str S" using i(1) assms(1,2) by (intro region_offset) simp_all
  ultimately show False using assms(3) by simp
qed

lemma cut_take:
  assumes "written < sz" and "unat sz < 2 ^ 63" and "n < 2 ^ 63"
  shows "unat (cut sz written (of_nat n)) = min n (unat sz - 1 - unat written)"
proof -
  have w: "unat written < unat sz" using assms(1) by (simp add: word_less_nat_alt)
  have n: "unat (of_nat n :: u64) = n" using assms(3) by (intro unat_of_nat64) simp
  have "unat written + n < 2 ^ 64" using w assms(2,3) by simp
  then have s: "unat (written + of_nat n) = unat written + n" using n by (simp add: unat_word_ariths)
  have d: "unat (sz - written) = unat sz - unat written" using w by (simp add: unat_sub word_le_nat_alt)
  then have "sz - written \<noteq> 0" using w by auto
  then have "unat (sz - written - 1) = unat sz - unat written - 1" using d by (simp add: unat_minus_one)
  then show ?thesis using s n by (auto simp: cut_def word_le_nat_alt)
qed

lemma read_bytes_string:
  assumes "c_string m a s" and "n \<le> length s"
  shows "read_bytes m a n = take n s"
  using assms by (intro nth_equalityI) (auto simp: read_bytes_def c_string_nth)

lemma of_nat_min_length: "(of_nat (min (length ys) k) :: u64) = of_nat (length (take k ys))"
  by (simp add: min.commute)

lemma c_int_text: "length (number_text 10 (c_int a)) \<le> 11"
proof -
  have "- (2 ^ 31) \<le> c_int a" "c_int a < 2 ^ 31"
    using sint_greater_eq [of "ucast a :: u32"] sint_less [of "ucast a :: u32"] by (simp_all add: c_int_def)
  then have "nat \<bar>c_int a\<bar> < 10 ^ Suc 9" by simp
  from number_text_length [OF _ this] show ?thesis by simp
qed

lemma sint_text: "length (number_text 16 (sint (a :: u64))) \<le> 17"
proof -
  have "- (2 ^ 63) \<le> sint a" "sint a < 2 ^ 63"
    using sint_greater_eq [of a] sint_less [of a] by simp_all
  then have "nat \<bar>sint a\<bar> < 16 ^ Suc 15" by simp
  from number_text_length [OF _ this] show ?thesis by simp
qed

text \<open>The three ways a conversion writes its text: a copied number, a single character and a string, each cut to
  the space left.\<close>

lemma cut_length:
  assumes "written < sz" and "unat sz < 2 ^ 63" and "length ys < 2 ^ 63"
  shows "cut sz written (of_nat (length ys)) = of_nat (length (take (unat sz - 1 - unat written) ys))"
  using cut_take [OF assms] by (metis of_nat_min_length of_nat_unat ucast_id)

lemma take_of_nat_length:
  assumes "length ys < 2 ^ 63"
  shows "take (unat (of_nat (length (take k ys)) :: u64)) ys = take k ys"
proof -
  have "length (take k ys) < 2 ^ 64" using assms by simp
  then show ?thesis by (simp add: unat_of_nat64 min_def)
qed

lemma put_single:
  fixes written sz :: u64
  assumes "written < sz" and "unat sz < 2 ^ 63"
  shows "(if written + 1 < sz then (m(p := c), 1 :: u64, ap) else (m, 0, ap)) =
      (write_bytes m p (take (unat sz - 1 - unat written) [c]), of_nat (length (take (unat sz - 1 - unat written) [c])), ap)"
proof -
  have "unat written < unat sz" using assms(1) by (simp add: word_less_nat_alt)
  then have "unat (written + 1) = unat written + 1" using assms(2) by (simp add: unat_word_ariths)
  then have "written + 1 < sz \<longleftrightarrow> 0 < unat sz - 1 - unat written" by (simp add: word_less_nat_alt)
  then show ?thesis by (cases "0 < unat sz - 1 - unat written") (auto simp: write_bytes_single write_bytes_Nil)
qed

lemma copy_string:
  assumes "readable m str S a t" and "W < S" and "S < 2 ^ 63"
  shows "memcpy m (str + of_nat W) a (of_nat (length (take k t))) = write_bytes m (str + of_nat W) (take k t)"
proof -
  let ?p = "str + of_nat W" and ?n = "of_nat (length (take k t)) :: u64"
  have ct: "c_string m a t" and len: "length t < 2 ^ 63" using assms(1) by (simp_all add: readable_def)
  have n: "unat ?n = length (take k t)" using len by (intro unat_of_nat64) simp
  have "unat ?n \<le> unat (?p - a)"
  proof (rule ccontr)
    assume "\<not> unat ?n \<le> unat (?p - a)"
    then have "unat (?p - a) \<le> length t" using n by simp
    then have "a + of_nat (unat (?p - a)) \<notin> region str S" using assms(1) unfolding readable_def by blast
    moreover have "a + of_nat (unat (?p - a)) = ?p" by simp
    moreover have "?p \<in> region str S" using assms(2,3) by (intro region_offset) simp_all
    ultimately show False by simp
  qed
  then have "memcpy m ?p a ?n = write_bytes m ?p (read_bytes m a (unat ?n))" by (intro memcpy_eq) simp
  also have "read_bytes m a (unat ?n) = take k t"
    unfolding n using read_bytes_string [OF ct, of "length (take k t)"] by (simp add: min_def)
  finally show ?thesis .
qed

text \<open>One conversion: a prefix \<open>ys\<close> of the output, cut to the space left.\<close>

lemma convert_ok:
  assumes out: "expand strs (0x25 # d # f) ap = Some out" and fmt: "m fmt = d"
    and w: "written < sz" "unat sz < 2 ^ 63"
    and strs: "\<And>a s. strs a = Some s \<Longrightarrow> readable m str (unat sz) a s"
  obtains ys r ap' where "out = ys @ r" and "expand strs f ap' = Some r"
    and "convert m (str + of_nat (unat written)) sz fmt ap written =
      Some (write_bytes m (str + of_nat (unat written)) (take (unat sz - 1 - unat written) ys),
            of_nat (length (take (unat sz - 1 - unat written) ys)), ap')"
proof -
  let ?k = "unat sz - 1 - unat written" and ?p = "str + of_nat (unat written)"
  have lt: "unat written < unat sz" using w(1) by (simp add: word_less_nat_alt)
  note cutw = cut_length [OF w] and tk = take_of_nat_length and single = put_single [OF w]
  have num: "length (number_text 10 (c_int a)) < 2 ^ 63" "length (number_text 16 (sint a)) < 2 ^ 63" for a
    using c_int_text [of a] sint_text [of a] by simp_all
  consider (s) a as where "d = 0x73" "ap = a # as" | (i) a as where "d = 0x64 \<or> d = 0x69" "ap = a # as"
    | (x) a as where "d = 0x78 \<or> d = 0x70" "ap = a # as" | (c) a as where "d = 0x63" "ap = a # as"
    | (pct) "d = 0x25" | (other) "d \<notin> {0x73, 0x64, 0x69, 0x78, 0x70, 0x63, 0x25}"
    using out by (auto split: if_splits list.splits)
  then show thesis
  proof cases
    case (s a as)
    with out obtain t r where t: "strs a = Some t" "expand strs f as = Some r" "out = t @ r"
      by (auto simp: bind_eq_Some_conv)
    have rd: "readable m str (unat sz) a t" using strs [OF t(1)] .
    then have ct: "c_string m a t" and len: "length t < 2 ^ 63" by (simp_all add: readable_def)
    show thesis
      using s t fmt strlen_c_string [OF ct] cutw [OF len] copy_string [OF rd lt w(2), of ?k]
      by (intro that [of t r as]) (simp_all add: convert_def va_arg_def)
  next
    case (i a as)
    with out obtain r where r: "expand strs f as = Some r" "out = number_text 10 (c_int a) @ r"
      by (auto simp: bind_eq_Some_conv)
    have "itoa (c_int a) 10 = Some (number_text 10 (c_int a))" using itoa_text [of 10 "c_int a"] c_int_ge [of a] by simp
    then show thesis
      using i r fmt cutw [OF num(1)] tk [OF num(1)]
      by (intro that [of "number_text 10 (c_int a)" r as]) (auto simp: convert_def va_arg_def)
  next
    case (x a as)
    with out obtain r where r: "expand strs f as = Some r" "out = number_text 16 (sint a) @ r" "\<not> sint a < 0"
      by (auto simp: bind_eq_Some_conv split: if_splits)
    have "itoa (sint a) 16 = Some (number_text 16 (sint a))" using itoa_text [of 16 "sint a"] r(3) by simp
    then show thesis
      using x r fmt cutw [OF num(2)] tk [OF num(2)]
      by (intro that [of "number_text 16 (sint a)" r as]) (auto simp: convert_def va_arg_def)
  next
    case (c a as)
    with out obtain r where r: "expand strs f as = Some r" "out = [ucast a] @ r" by (auto simp: bind_eq_Some_conv)
    have "convert m ?p sz fmt ap written = Some (if written + 1 < sz then (m(?p := ucast a), 1, as) else (m, 0, as))"
      using c fmt by (simp add: convert_def va_arg_def)
    then show thesis unfolding single by (rule that [OF r(2,1)])
  next
    case pct
    with out obtain r where r: "expand strs f ap = Some r" "out = [0x25] @ r" by auto
    have "convert m ?p sz fmt ap written = Some (if written + 1 < sz then (m(?p := 0x25), 1, ap) else (m, 0, ap))"
      using pct fmt by (simp add: convert_def)
    then show thesis unfolding single by (rule that [OF r(2,1)])
  next
    case other
    then have "expand strs f ap = Some out" using out by simp
    then show thesis using other fmt by (intro that [of "[]" out ap]) (simp_all add: convert_def write_bytes_Nil)
  qed
qed


text \<open>The whole loop, from index \<open>written\<close> of the destination on.\<close>

lemma expand_plain: "c \<noteq> 0x25 \<Longrightarrow> expand strs (c # f) ap = map_option ((#) c) (expand strs f ap)"
  by (cases f) auto

text \<open>A round that writes \<open>xs\<close>, which is \<open>ys\<close> or its part that fits, before the rest of the loop.\<close>

lemma vsnprintf_round:
  assumes step: "vsnprintf_loop m (str + written) sz fmt ap written =
        vsnprintf_loop (write_bytes m (str + written) xs) (str + w) sz fmt' ap' w"
    and w: "w = written + of_nat (length xs)" "unat w = unat written + length xs" and lt: "unat written < unat sz" "unat sz < 2 ^ 63"
    and xs: "xs = ys \<or> xs = take (unat sz - 1 - unat written) ys" "unat written + length xs \<le> unat sz"
    and rest: "\<exists>bs. vsnprintf_loop (write_bytes m (str + written) xs) (str + w) sz fmt' ap' w =
          Some (write_bytes (write_bytes m (str + written) xs) (str + w) bs, str + (w + of_nat (length bs)), w + of_nat (length bs)) \<and>
        fits_as (unat sz) (unat w) bs r"
  shows "\<exists>bs. vsnprintf_loop m (str + written) sz fmt ap written =
      Some (write_bytes m (str + written) bs, str + (written + of_nat (length bs)), written + of_nat (length bs)) \<and>
    fits_as (unat sz) (unat written) bs (ys @ r)"
proof -
  let ?m = "write_bytes m (str + written) xs"
  from rest obtain bs where
    bs: "vsnprintf_loop ?m (str + w) sz fmt' ap' w = Some (write_bytes ?m (str + w) bs, str + (w + of_nat (length bs)), w + of_nat (length bs))"
    "fits_as (unat sz) (unat written + length xs) bs r" unfolding w(2) by blast
  have "length xs + length bs \<le> 2 ^ 64" using bs(2) lt(2) by (auto simp: fits_as_def)
  from write_bytes_append [OF this, of m "str + written"]
  have "write_bytes ?m (str + w) bs = write_bytes m (str + written) (xs @ bs)" by (simp add: w(1) add.assoc)
  moreover have "fits_as (unat sz) (unat written) (xs @ bs) (ys @ r)" using lt(1) xs bs(2) by (rule fits_as_append)
  ultimately show ?thesis using step bs(1) by (intro exI [of _ "xs @ bs"]) (simp add: w(1) add.assoc)
qed

lemma vsnprintf_loop_ok:
  assumes "expand strs f ap = Some out" and "readable m str (unat sz) fmt f" and "written \<le> sz" and "unat sz < 2 ^ 63"
    and "\<And>a s. strs a = Some s \<Longrightarrow> readable m str (unat sz) a s"
  shows "\<exists>bs. vsnprintf_loop m (str + written) sz fmt ap written =
      Some (write_bytes m (str + written) bs, str + (written + of_nat (length bs)), written + of_nat (length bs)) \<and>
    fits_as (unat sz) (unat written) bs out"
  using assms
proof (induction "length f" arbitrary: f ap out m fmt written rule: less_induct)
  case less
  let ?S = "unat sz" and ?W = "unat written" and ?p = "str + written"
  have W: "?W \<le> ?S" using less.prems(3) by (simp add: word_le_nat_alt)
  show ?case
  proof (cases "written < sz")
    case False
    then have "written = sz" using less.prems(3) by simp
    then show ?thesis
      by (subst vsnprintf_loop.simps) (auto simp: write_bytes_Nil fits_as_full intro!: exI [of _ "[]"])
  next
    case True
    then have lt: "?W < ?S" by (simp add: word_less_nat_alt)
    have p: "?p = str + of_nat ?W" by simp
    text \<open>One round that writes \<open>xs\<close> for \<open>ys\<close> and leaves the format \<open>g\<close>.\<close>
    have round: ?thesis
      if step: "vsnprintf_loop m ?p sz fmt ap written =
            vsnprintf_loop (write_bytes m ?p xs) (?p + of_nat (length xs)) sz fmt' ap' (written + of_nat (length xs))"
        and o: "out = ys @ r" "expand strs g ap' = Some r" and g: "length g < length f" "readable m str ?S fmt' g"
        and xs: "xs = ys \<or> xs = take (?S - 1 - ?W) ys" "?W + length xs \<le> ?S" for xs ys r g ap' fmt'
    proof -
      let ?m = "write_bytes m ?p xs" and ?w = "written + of_nat (length xs)"
      have len: "?W + length xs < 2 ^ 63" using xs(2) less.prems(4) by linarith
      then have "unat (of_nat (length xs) :: u64) = length xs" by (intro unat_of_nat64) simp
      then have w: "unat ?w = ?W + length xs" using len by (simp add: unat_word_ariths)
      have same: "?m x = m x" if "x \<notin> region str ?S" for x
        unfolding p using xs(2) less.prems(4) that by (intro write_inside [of _ _ ?S]) simp_all
      have rs: "readable ?m str ?S a s" if "strs a = Some s" for a s
        by (rule readable_write [OF less.prems(5) [OF that] same])
      have le: "?w \<le> sz" using w xs(2) by (simp add: word_le_nat_alt)
      have rest: "\<exists>bs. vsnprintf_loop ?m (str + ?w) sz fmt' ap' ?w =
          Some (write_bytes ?m (str + ?w) bs, str + (?w + of_nat (length bs)), ?w + of_nat (length bs)) \<and>
        fits_as ?S (unat ?w) bs r"
        using less.hyps [OF g(1) o(2) readable_write [OF g(2) same] le less.prems(4) rs] .
      show ?thesis unfolding o(1)
        by (rule vsnprintf_round [OF _ refl w lt less.prems(4) xs rest]) (simp add: step add.assoc)
    qed
    show ?thesis
    proof (cases f)
      case Nil
      then have "m fmt = 0" "out = []" using less.prems(1,2) by (simp_all add: readable_def)
      then show ?thesis using W
        by (subst vsnprintf_loop.simps) (auto simp: write_bytes_Nil fits_as_Nil intro!: exI [of _ "[]"])
    next
      case (Cons c g)
      have c: "m fmt = c" "c \<noteq> 0" using less.prems(2) Cons by (simp_all add: readable_def)
      have g: "readable m str ?S (fmt + 1) g" using less.prems(2) Cons readable_Cons by blast
      show ?thesis
      proof (cases "c = 0x25")
        case False
        then obtain r where "out = [c] @ r" "expand strs g ap = Some r"
          using less.prems(1) Cons by (auto simp: expand_plain)
        then show ?thesis using False c True lt Cons g
          by (intro round [of "[c]" "fmt + 1" ap "[c]" r g]) (simp_all add: write_bytes_single vsnprintf_loop.simps [of m ?p])
      next
        case pct: True
        then obtain d h where h: "g = d # h" using less.prems(1) Cons by (cases g) auto
        have d: "m (fmt + 1) = d" using g h by (simp add: readable_def)
        have out: "expand strs (0x25 # d # h) ap = Some out" using less.prems(1) Cons pct h by simp
        from out d True less.prems(4,5) obtain ys r ap' where
          y: "out = ys @ r" "expand strs h ap' = Some r"
          "convert m (str + of_nat ?W) sz (fmt + 1) ap written =
             Some (write_bytes m (str + of_nat ?W) (take (?S - 1 - ?W) ys), of_nat (length (take (?S - 1 - ?W) ys)), ap')"
          by (rule convert_ok) blast
        have "readable m str ?S (fmt + 2) h" using readable_Cons [of m str ?S "fmt + 1" d h] g h by (simp add: add.assoc)
        then show ?thesis using y c pct True lt Cons h
          by (intro round [of "take (?S - 1 - ?W) ys" "fmt + 2" ap' ys r h])
            (simp_all add: vsnprintf_loop.simps [of m ?p])
      qed
    qed
  qed
qed


section \<open>Properties\<close>

text \<open>C33: what \<open>itoa\<close> does with every number of 64 bits in base 10 and every one that is not negative in base 16.  For the
  smallest number, in base 10, the negation overflows and nothing is defined.  For the others it returns the usual
  notation of the number: reading its digits back gives the number, every digit is below the base, and the text
  with its terminator fits in the 32-byte buffers of \<open>vsnprintf\<close>.\<close>

theorem itoa_correct:
  assumes "b = 10 \<or> b = 16 \<and> 0 \<le> k" and "- (2 ^ 63) \<le> k" and "k < 2 ^ 63"
  shows "if k = - (2 ^ 63) then itoa k (int b) = None
    else itoa k (int b) = Some ((if k < 0 then [0x2D] else []) @ map digit_char (radix b (nat \<bar>k\<bar>))) \<and>
      foldl (\<lambda>a d. a * b + d) 0 (radix b (nat \<bar>k\<bar>)) = nat \<bar>k\<bar> \<and>
      (\<forall>d \<in> set (radix b (nat \<bar>k\<bar>)). d < b) \<and> length (number_text b k) < 32"
proof (cases "k = - (2 ^ 63)")
  case True
  then have "b = 10" using assms(1) by auto
  with True show ?thesis by (simp add: itoa_def)
next
  case False
  have b: "2 \<le> b" using assms(1) by auto
  have "nat \<bar>k\<bar> < 2 ^ 63" using assms(2,3) False by simp
  also have "(2 :: nat) ^ 63 \<le> 10 ^ Suc 18" by simp
  also have "(10 :: nat) ^ Suc 18 \<le> b ^ Suc 18" using assms(1) by (intro power_mono) auto
  finally have "length (number_text b k) \<le> Suc (Suc 18)" using b by (intro number_text_length)
  moreover have "itoa k (int b) = Some (number_text b k)" using assms False by (intro itoa_text) auto
  ultimately show ?thesis using radix_value radix_digits [OF b] False by (simp add: number_text_def)
qed

theorem itoa_correct_witness:
  "itoa (- 120) 10 = Some [0x2D, 0x31, 0x32, 0x30] \<and> itoa (- (2 ^ 63)) 10 = None"
proof -
  have "radix 10 120 = [1, 2, 0]" by (simp add: radix.simps)
  then have "itoa (- 120) 10 = Some [0x2D, 0x31, 0x32, 0x30]" using itoa_correct [of 10 "- 120"] by (simp add: digit_char_def)
  then show ?thesis using itoa_correct [of 10 "- (2 ^ 63)"] by simp
qed

text \<open>What the loop has written, once the terminator is set.\<close>

lemma fits_length:
  assumes "fits_as S 0 bs out"
  shows "if length out < S then int (length bs) = int (length out)
      else int S - 1 \<le> int (length bs) \<and> int (length bs) \<le> int S"
proof (cases "length out < S")
  case True
  then show ?thesis using assms by (simp add: fits_as_def)
next
  case False
  have "t - 1 \<le> b \<Longrightarrow> b \<le> t \<Longrightarrow> int t - 1 \<le> int b \<and> int b \<le> int t" for t b :: nat by simp
  from this [of S "length bs"] show ?thesis using False assms unfolding fits_as_def by fastforce
qed

lemma fits_nth:
  assumes "fits_as S 0 bs out" and "i < min (length out) (S - 1)"
  shows "i < length bs \<and> bs ! i = out ! i"
proof (cases "length out < S")
  case True
  then show ?thesis using assms by (simp add: fits_as_def)
next
  case False
  then have b: "S - 1 \<le> length bs" "take (S - 1) bs = take (S - 1) out" using assms(1) by (simp_all add: fits_as_def)
  have "take (S - 1) bs ! i = take (S - 1) out ! i" by (simp only: b(2))
  then show ?thesis using assms(2) b(1) by simp
qed

lemma fits_terminator:
  fixes sz str :: u64
  assumes "fits_as (unat sz) 0 bs out" and "sz \<noteq> 0" and "unat sz < 2 ^ 63"
  shows "(if of_nat (length bs) < sz then m(str + of_nat (length bs) := 0)
      else if sz > 0 then m(str + (sz - 1) := 0) else m) = m(str + of_nat (min (length out) (unat sz - 1)) := (0 :: u8))"
proof -
  have pos: "0 < unat sz" using assms(2) by (simp add: unat_gt_0)
  have "length bs < 2 ^ 64" using assms(1,3) by (simp add: fits_as_def)
  then have n: "unat (of_nat (length bs) :: u64) = length bs" by (rule unat_of_nat64)
  show ?thesis
  proof (cases "length bs < unat sz")
    case True
    have "length bs = min (length out) (unat sz - 1)" using assms(1) True by (auto simp: fits_as_def split: if_splits)
    then show ?thesis using True n by (simp add: word_less_nat_alt)
  next
    case False
    then have "min (length out) (unat sz - 1) = unat sz - 1" using assms(1) by (auto simp: fits_as_def split: if_splits)
    moreover have "sz - 1 = of_nat (unat sz - 1)" using pos by (simp add: of_nat_diff)
    ultimately show ?thesis using False n pos unfolding word_less_nat_alt by (simp only: n if_False if_True unat_0)
  qed
qed

lemma fits_text:
  assumes "fits_as S 0 bs out" and "0 < S" and "S < 2 ^ 63"
  defines "k \<equiv> min (length out) (S - 1)"
  shows "read_bytes ((write_bytes m str bs)(str + of_nat k := 0)) str k = take k out"
proof (rule nth_equalityI)
  fix i assume "i < length (read_bytes ((write_bytes m str bs)(str + of_nat k := 0)) str k)"
  then have i: "i < k" by simp
  have ui: "unat (of_nat i :: u64) = i" "unat (of_nat k :: u64) = k" using i assms(2,3) by (auto simp: k_def intro!: unat_of_nat64)
  then have "str + of_nat i \<noteq> str + of_nat k" using i by (metis add_left_cancel less_irrefl)
  then show "read_bytes ((write_bytes m str bs)(str + of_nat k := 0)) str k ! i = take k out ! i"
    using i ui(1) fits_nth [OF assms(1)] by (simp add: read_bytes_def write_bytes_def k_def)
qed (simp add: k_def)

lemma vsnprintf_ok:
  assumes "expand strs f ap = Some out" and "readable m str (unat sz) fmt f" and "unat sz < 2 ^ 31"
    and "\<And>a s. strs a = Some s \<Longrightarrow> readable m str (unat sz) a s"
  shows "\<exists>r m'. vsnprintf m str sz fmt ap = Some (r, m') \<and> (\<forall>x. x \<notin> region str (unat sz) \<longrightarrow> m' x = m x) \<and>
    (sz \<noteq> 0 \<longrightarrow> (let k = min (length out) (unat sz - 1)
      in read_bytes m' str k = take k out \<and> m' (str + of_nat k) = 0)) \<and>
    (if length out < unat sz then r = int (length out) else int (unat sz) - 1 \<le> r \<and> r \<le> int (unat sz))"
proof -
  let ?S = "unat sz" and ?k = "min (length out) (unat sz - 1)"
  have S: "?S < 2 ^ 63" using assms(3) by simp
  from vsnprintf_loop_ok [OF assms(1,2) word_zero_le S assms(4)] obtain bs where
    bs: "vsnprintf_loop m str sz fmt ap 0 = Some (write_bytes m str bs, str + of_nat (length bs), of_nat (length bs))"
    "fits_as ?S 0 bs out" by auto
  have le: "length bs \<le> ?S" using bs(2) by (simp add: fits_as_def)
  have len: "length bs < 2 ^ 31" using le assms(3) by simp
  then have n: "unat (of_nat (length bs) :: u64) = length bs" by (intro unat_of_nat64) simp
  have r: "c_int (of_nat (length bs)) = int (length bs)"
    using c_int_small [of "of_nat (length bs)"] len n by simp
  have inside: "write_bytes m str bs x = m x" if "x \<notin> region str ?S" for x
    using write_inside [of 0 bs ?S x str m] le S that by simp
  note res = fits_length [OF bs(2)]
  show ?thesis
  proof (cases "sz = 0")
    case True
    then have "vsnprintf m str sz fmt ap = Some (int (length bs), write_bytes m str bs)"
      using bs(1) r n le by (simp add: vsnprintf_def)
    then show ?thesis using inside res True by (intro exI [of _ "int (length bs)"] exI [of _ "write_bytes m str bs"]) simp
  next
    case False
    then have pos: "0 < ?S" by (simp add: unat_gt_0)
    let ?m = "(write_bytes m str bs)(str + of_nat ?k := 0)"
    note fits_terminator [OF bs(2) False S, of "write_bytes m str bs" str]
    then have v: "vsnprintf m str sz fmt ap = Some (int (length bs), ?m)" using bs(1) r by (simp add: vsnprintf_def)
    have kS: "?k < ?S" using pos by simp
    then have "str + of_nat ?k \<in> region str ?S" using S by (intro region_offset) simp_all
    then have out_same: "?m x = m x" if "x \<notin> region str ?S" for x using that inside by auto
    note fits_text [OF bs(2) pos S, of m str]
    then show ?thesis using v out_same res False
      by (intro exI [of _ "int (length bs)"] exI [of _ ?m]) (simp add: Let_def)
  qed
qed


text \<open>C31: for a format with its arguments, \<open>vsnprintf\<close> returns, writes nothing outside the \<open>size\<close> bytes of the
  destination, and leaves there the expanded text cut to \<open>size - 1\<close> bytes with a terminator.  The result is the
  length of the text when it fits; when it does not, it is \<open>size - 1\<close> or \<open>size\<close>, not the length the text would
  have.\<close>

theorem vsnprintf_correct:
  assumes "expand strs f ap = Some out" and "readable m str (unat sz) fmt f" and "unat sz < 2 ^ 31"
    and "\<And>a s. strs a = Some s \<Longrightarrow> readable m str (unat sz) a s"
  shows "\<exists>r m'. vsnprintf m str sz fmt ap = Some (r, m') \<and> (\<forall>x. x \<notin> region str (unat sz) \<longrightarrow> m' x = m x) \<and>
    (sz \<noteq> 0 \<longrightarrow> (let k = min (length out) (unat sz - 1)
      in read_bytes m' str k = take k out \<and> m' (str + of_nat k) = 0)) \<and>
    (if length out < unat sz then r = int (length out) else int (unat sz) - 1 \<le> r \<and> r \<le> int (unat sz))"
  using vsnprintf_ok [OF assms] .

theorem vsnprintf_correct_witness:
  "\<exists>r m'. vsnprintf (write_bytes (\<lambda>_. 0) 0 [0x61, 0x25, 0x64, 0]) 100 8 0 [7] = Some (r, m') \<and> r = 2 \<and>
     read_bytes m' 100 2 = [0x61, 0x37] \<and> m' 102 = 0"
proof -
  let ?m = "write_bytes (\<lambda>_. 0) 0 [0x61, 0x25, 0x64, 0]"
  have "c_string ?m 0 [0x61, 0x25, 0x64]" by (simp add: write_bytes_def)
  moreover have "(0 :: u64) + of_nat i \<notin> region 100 (unat (8 :: u64))" if "i \<le> length [0x61 :: u8, 0x25, 0x64]" for i
  proof -
    have "i \<in> {0, 1, 2, 3}" using that by auto
    then show ?thesis by (auto simp: region_def)
  qed
  ultimately have fmt: "readable ?m 100 (unat (8 :: u64)) 0 [0x61, 0x25, 0x64]" unfolding readable_def by simp
  have "number_text 10 7 = [0x37]" by (simp add: number_text_def radix.simps digit_char_def)
  then have "expand (\<lambda>_. None) [0x61, 0x25, 0x64] [7] = Some [0x61, 0x37]" by (simp add: c_int_def)
  moreover have "unat (8 :: u64) < 2 ^ 31" by simp
  ultimately obtain r m' where "vsnprintf ?m 100 8 0 [7] = Some (r, m')"
    "(8 :: u64) \<noteq> 0 \<longrightarrow> (let k = min (length [0x61 :: u8, 0x37]) (unat (8 :: u64) - 1)
      in read_bytes m' 100 k = take k [0x61, 0x37] \<and> m' (100 + of_nat k) = 0)"
    "if length [0x61 :: u8, 0x37] < unat (8 :: u64) then r = int (length [0x61 :: u8, 0x37])
     else int (unat (8 :: u64)) - 1 \<le> r \<and> r \<le> int (unat (8 :: u64))"
    using vsnprintf_correct [OF _ fmt, of "\<lambda>_. None"] by blast
  then show ?thesis by (simp add: Let_def read_bytes_numeral read_bytes_Suc)
qed

end
