(* ===== verification/Block_Device.thy ===== *)
theory Block_Device
  imports Lib
begin

text \<open>
  The block device layer of \<^verbatim>\<open>src/kern/drivers/block/block_device.c\<close>: the UFS and EMMC drivers and the
  dispatch between them.  The controllers are an argument: what a read of a device register returns
  and what a write to one does to the device and, by direct memory access, to the memory.  The
  loops that poll a register are partial functions.  The locale \<open>device\<close> relates a device to a simpler one
  and has what polling and writing its registers does; \<open>ufs_hardware\<close> extends it with what the driver relies
  on in a UFS controller, and what the driver does with one is proved in it.
\<close>

section \<open>Hardware\<close>

record 'h hw =
  hw_read :: "u64 \<Rightarrow> 'h \<Rightarrow> u32 \<times> 'h"
  hw_write :: "u64 \<Rightarrow> u32 \<Rightarrow> mem \<times> 'h \<Rightarrow> mem \<times> 'h"

datatype block_device_type = BLOCK_DEVICE_TYPE_NONE | BLOCK_DEVICE_TYPE_UFS | BLOCK_DEVICE_TYPE_EMMC

record 'h bdev =
  bd_mem :: mem
  hw_state :: 'h
  active_block_device_type :: block_device_type
  bd_log :: "kmsg list"

definition mmio_read :: "'h hw \<Rightarrow> u64 \<Rightarrow> 'h bdev \<Rightarrow> u32 \<times> 'h bdev" where
  "mmio_read hw a s = (let (v, h) = hw_read hw a (hw_state s) in (v, s\<lparr>hw_state := h\<rparr>))"

definition mmio_write :: "'h hw \<Rightarrow> u64 \<Rightarrow> u32 \<Rightarrow> 'h bdev \<Rightarrow> 'h bdev" where
  "mmio_write hw a v s = (let (m, h) = hw_write hw a v (bd_mem s, hw_state s) in s\<lparr>bd_mem := m, hw_state := h\<rparr>)"

text \<open>\<open>while (*reg & mask);\<close> and \<open>while (!(*reg & mask));\<close>\<close>

partial_function (option) poll_clear :: "'h hw \<Rightarrow> u64 \<Rightarrow> u32 \<Rightarrow> 'h bdev \<Rightarrow> 'h bdev option" where
  "poll_clear hw a bits s =
     (let (v, s') = mmio_read hw a s in if v AND bits \<noteq> 0 then poll_clear hw a bits s' else Some s')"

partial_function (option) poll_set :: "'h hw \<Rightarrow> u64 \<Rightarrow> u32 \<Rightarrow> 'h bdev \<Rightarrow> 'h bdev option" where
  "poll_set hw a bits s =
     (let (v, s') = mmio_read hw a s in if v AND bits = 0 then poll_set hw a bits s' else Some s')"

section \<open>UFS\<close>

abbreviation UFS_BLOCK_SIZE :: u32 where "UFS_BLOCK_SIZE \<equiv> 4096"
abbreviation UFS_HCI_CONTROLLER_STATUS_REG :: u64 where "UFS_HCI_CONTROLLER_STATUS_REG \<equiv> 0xDEAD0008"
abbreviation UFS_HCI_CONTROLLER_ENABLE_REG :: u64 where "UFS_HCI_CONTROLLER_ENABLE_REG \<equiv> 0xDEAD000C"
abbreviation UFS_HCI_CONTROLLER_RESET_REG :: u64 where "UFS_HCI_CONTROLLER_RESET_REG \<equiv> 0xDEAD0010"
abbreviation UFS_HCI_UTP_TRANSFER_REQ_INT_EN_REG :: u64 where "UFS_HCI_UTP_TRANSFER_REQ_INT_EN_REG \<equiv> 0xDEAD0028"
abbreviation UFS_HCI_UTP_TASK_REQ_INT_EN_REG :: u64 where "UFS_HCI_UTP_TASK_REQ_INT_EN_REG \<equiv> 0xDEAD002C"
abbreviation UFS_HCI_UTP_TRANSFER_REQ_DOORBELL_REG :: u64 where "UFS_HCI_UTP_TRANSFER_REQ_DOORBELL_REG \<equiv> 0xDEAD0050"
abbreviation UFS_HCI_UTP_TRANSFER_REQ_LIST_BASE_L_REG :: u64 where
  "UFS_HCI_UTP_TRANSFER_REQ_LIST_BASE_L_REG \<equiv> 0xDEAD0060"
abbreviation UFS_HCI_UTP_TRANSFER_REQ_LIST_BASE_H_REG :: u64 where
  "UFS_HCI_UTP_TRANSFER_REQ_LIST_BASE_H_REG \<equiv> 0xDEAD0064"
abbreviation UFS_TRL_BASE :: u64 where "UFS_TRL_BASE \<equiv> 0xDEAE0000"
abbreviation UFS_PRDT_BASE :: u64 where "UFS_PRDT_BASE \<equiv> 0xDEAF0000"
abbreviation UTP_TRD_DD_READ :: u32 where "UTP_TRD_DD_READ \<equiv> 0x01"
abbreviation UTP_TRD_DD_WRITE :: u32 where "UTP_TRD_DD_WRITE \<equiv> 0x02"

definition ufs_init :: "'h hw \<Rightarrow> 'h bdev \<Rightarrow> 'h bdev option" where
  "ufs_init hw s = do {
     s \<leftarrow> poll_clear hw UFS_HCI_CONTROLLER_RESET_REG 1 (mmio_write hw UFS_HCI_CONTROLLER_RESET_REG 1 s);
     s \<leftarrow> poll_set hw UFS_HCI_CONTROLLER_STATUS_REG 1 (mmio_write hw UFS_HCI_CONTROLLER_ENABLE_REG 1 s);
     let s = mmio_write hw UFS_HCI_UTP_TRANSFER_REQ_LIST_BASE_L_REG (ucast UFS_TRL_BASE) s;
     let s = mmio_write hw UFS_HCI_UTP_TRANSFER_REQ_LIST_BASE_H_REG (ucast (drop_bit 32 UFS_TRL_BASE)) s;
     let s = mmio_write hw UFS_HCI_UTP_TRANSFER_REQ_INT_EN_REG 0xFFFFFFFF s;
     let s = mmio_write hw UFS_HCI_UTP_TASK_REQ_INT_EN_REG 0xFFFFFFFF s;
     Some (s\<lparr>bd_log := bd_log s @ [(''ufs initialized'', [])]\<rparr>)
   }"

text \<open>The descriptors \<open>ufs_send_command\<close> writes to memory: offsets 0, 4, 8 of the region entry, offsets 0, 4,
  8 of the transfer descriptor, and the command bytes from its offset 16 on.\<close>

definition ufs_descriptors :: "mem \<Rightarrow> u64 \<Rightarrow> u32 \<Rightarrow> u64 \<Rightarrow> u32 \<Rightarrow> mem" where
  "ufs_descriptors m lba num_blocks buffer data_direction =
     (let trd = UFS_TRL_BASE; prdt = UFS_PRDT_BASE; cdb = trd + 16;
          m = memset m trd 0 32;
          m = memset m prdt 0 16;
          m = store32 m prdt (ucast buffer);
          m = store32 m (prdt + 4) (ucast (drop_bit 32 buffer));
          m = store32 m (prdt + 8) (num_blocks * UFS_BLOCK_SIZE - 1);
          m = store32 m trd (push_bit 29 0 OR push_bit 24 data_direction OR push_bit 16 1);
          m = store32 m (trd + 4) (ucast UFS_PRDT_BASE);
          m = store32 m (trd + 8) (ucast (drop_bit 32 UFS_PRDT_BASE));
          m = m(cdb := (if data_direction = UTP_TRD_DD_READ then 0x28 else 0x2A));
          m = m(cdb + 2 := ucast (drop_bit 24 lba AND 0xFF));
          m = m(cdb + 3 := ucast (drop_bit 16 lba AND 0xFF));
          m = m(cdb + 4 := ucast (drop_bit 8 lba AND 0xFF));
          m = m(cdb + 5 := ucast (lba AND 0xFF));
          m = m(cdb + 7 := ucast (drop_bit 8 num_blocks AND 0xFF))
      in m(cdb + 8 := ucast (num_blocks AND 0xFF)))"

definition ufs_send_command :: "'h hw \<Rightarrow> u64 \<Rightarrow> u32 \<Rightarrow> u64 \<Rightarrow> u32 \<Rightarrow> 'h bdev \<Rightarrow> (int \<times> 'h bdev) option" where
  "ufs_send_command hw lba num_blocks buffer data_direction s = do {
     let s = s\<lparr>bd_mem := ufs_descriptors (bd_mem s) lba num_blocks buffer data_direction\<rparr>;
     let s = mmio_write hw UFS_HCI_UTP_TRANSFER_REQ_DOORBELL_REG 1 s;
     s \<leftarrow> poll_clear hw UFS_HCI_UTP_TRANSFER_REQ_DOORBELL_REG 1 s;
     Some (0, s)
   }"

definition ufs_read_blocks :: "'h hw \<Rightarrow> u64 \<Rightarrow> u32 \<Rightarrow> u64 \<Rightarrow> 'h bdev \<Rightarrow> (int \<times> 'h bdev) option" where
  "ufs_read_blocks hw lba num_blocks buffer s = ufs_send_command hw lba num_blocks buffer UTP_TRD_DD_READ s"

definition ufs_write_blocks :: "'h hw \<Rightarrow> u64 \<Rightarrow> u32 \<Rightarrow> u64 \<Rightarrow> 'h bdev \<Rightarrow> (int \<times> 'h bdev) option" where
  "ufs_write_blocks hw lba num_blocks buffer s = ufs_send_command hw lba num_blocks buffer UTP_TRD_DD_WRITE s"

section \<open>EMMC\<close>

abbreviation EMMC_HCI_ARGUMENT_REG :: u64 where "EMMC_HCI_ARGUMENT_REG \<equiv> 0xBEEF0000"
abbreviation EMMC_HCI_COMMAND_REG :: u64 where "EMMC_HCI_COMMAND_REG \<equiv> 0xBEEF0004"
abbreviation EMMC_HCI_RESPONSE_REG :: u64 where "EMMC_HCI_RESPONSE_REG \<equiv> 0xBEEF0008"
abbreviation EMMC_HCI_DATA_REG :: u64 where "EMMC_HCI_DATA_REG \<equiv> 0xBEEF000C"
abbreviation EMMC_HCI_STATUS_REG :: u64 where "EMMC_HCI_STATUS_REG \<equiv> 0xBEEF0010"
abbreviation EMMC_HCI_INTERRUPT_STATUS_REG :: u64 where "EMMC_HCI_INTERRUPT_STATUS_REG \<equiv> 0xBEEF0014"
abbreviation EMMC_CMD_READ_MULTIPLE_BLOCK :: u32 where "EMMC_CMD_READ_MULTIPLE_BLOCK \<equiv> 0x12"
abbreviation EMMC_CMD_WRITE_MULTIPLE_BLOCK :: u32 where "EMMC_CMD_WRITE_MULTIPLE_BLOCK \<equiv> 0x19"
abbreviation EMMC_CMD_STOP_TRANSMISSION :: u32 where "EMMC_CMD_STOP_TRANSMISSION \<equiv> 0x0C"
abbreviation EMMC_STATUS_CMD_INHIBIT :: u32 where "EMMC_STATUS_CMD_INHIBIT \<equiv> 0x1"
abbreviation EMMC_STATUS_BUFFER_READ_READY :: u32 where "EMMC_STATUS_BUFFER_READ_READY \<equiv> 0x800"
abbreviation EMMC_STATUS_BUFFER_WRITE_READY :: u32 where "EMMC_STATUS_BUFFER_WRITE_READY \<equiv> 0x1000"
abbreviation EMMC_STATUS_TRANSFER_COMPLETE :: u32 where "EMMC_STATUS_TRANSFER_COMPLETE \<equiv> 0x2"
abbreviation EMMC_WORDS :: nat where "EMMC_WORDS \<equiv> 128"

definition emmc_init :: "'h bdev \<Rightarrow> 'h bdev" where
  "emmc_init s = s\<lparr>bd_log := bd_log s @ [(''emmc initialized'', [])]\<rparr>"

definition emmc_send_command :: "'h hw \<Rightarrow> u32 \<Rightarrow> u32 \<Rightarrow> u32 \<Rightarrow> 'h bdev \<Rightarrow> (u32 \<times> 'h bdev) option" where
  "emmc_send_command hw cmd arg response_type s = do {
     s \<leftarrow> poll_clear hw EMMC_HCI_STATUS_REG EMMC_STATUS_CMD_INHIBIT s;
     let s = mmio_write hw EMMC_HCI_ARGUMENT_REG arg s;
     let s = mmio_write hw EMMC_HCI_COMMAND_REG (cmd OR response_type) s;
     s \<leftarrow> poll_set hw EMMC_HCI_INTERRUPT_STATUS_REG EMMC_STATUS_TRANSFER_COMPLETE s;
     let s = mmio_write hw EMMC_HCI_INTERRUPT_STATUS_REG EMMC_STATUS_TRANSFER_COMPLETE s;
     Some (mmio_read hw EMMC_HCI_RESPONSE_REG s)
   }"

text \<open>The inner loops move \<open>k\<close> words between the data register and the buffer from word \<open>w\<close> on.\<close>

primrec emmc_read_words :: "'h hw \<Rightarrow> u64 \<Rightarrow> nat \<Rightarrow> nat \<Rightarrow> 'h bdev \<Rightarrow> 'h bdev" where
  "emmc_read_words hw buffer 0 w s = s"
| "emmc_read_words hw buffer (Suc k) w s =
     (let (v, s) = mmio_read hw EMMC_HCI_DATA_REG s
      in emmc_read_words hw buffer k (Suc w) (s\<lparr>bd_mem := store32 (bd_mem s) (buffer + 4 * of_nat w) v\<rparr>))"

primrec emmc_write_words :: "'h hw \<Rightarrow> u64 \<Rightarrow> nat \<Rightarrow> nat \<Rightarrow> 'h bdev \<Rightarrow> 'h bdev" where
  "emmc_write_words hw buffer 0 w s = s"
| "emmc_write_words hw buffer (Suc k) w s =
     emmc_write_words hw buffer k (Suc w)
       (mmio_write hw EMMC_HCI_DATA_REG (load32 (bd_mem s) (buffer + 4 * of_nat w)) s)"

primrec emmc_blocks ::
  "'h hw \<Rightarrow> u32 \<Rightarrow> (nat \<Rightarrow> 'h bdev \<Rightarrow> 'h bdev) \<Rightarrow> nat \<Rightarrow> nat \<Rightarrow> 'h bdev \<Rightarrow> 'h bdev option" where
  "emmc_blocks hw ready move 0 i s = Some s"
| "emmc_blocks hw ready move (Suc k) i s = do {
     s \<leftarrow> poll_set hw EMMC_HCI_STATUS_REG ready s;
     emmc_blocks hw ready move k (Suc i) (move (i * EMMC_WORDS) s)
   }"

definition emmc_read_blocks :: "'h hw \<Rightarrow> u32 \<Rightarrow> u32 \<Rightarrow> u64 \<Rightarrow> 'h bdev \<Rightarrow> (int \<times> 'h bdev) option" where
  "emmc_read_blocks hw lba num_blocks buffer s =
     (if num_blocks = 0 then Some (0, s)
      else do {
        (r, s) \<leftarrow> emmc_send_command hw EMMC_CMD_READ_MULTIPLE_BLOCK lba 0 s;
        s \<leftarrow> emmc_blocks hw EMMC_STATUS_BUFFER_READ_READY (emmc_read_words hw buffer EMMC_WORDS)
               (unat num_blocks) 0 s;
        (r, s) \<leftarrow> emmc_send_command hw EMMC_CMD_STOP_TRANSMISSION 0 0 s;
        Some (0, s)
      })"

definition emmc_write_blocks :: "'h hw \<Rightarrow> u32 \<Rightarrow> u32 \<Rightarrow> u64 \<Rightarrow> 'h bdev \<Rightarrow> (int \<times> 'h bdev) option" where
  "emmc_write_blocks hw lba num_blocks buffer s =
     (if num_blocks = 0 then Some (0, s)
      else do {
        (r, s) \<leftarrow> emmc_send_command hw EMMC_CMD_WRITE_MULTIPLE_BLOCK lba 0 s;
        s \<leftarrow> emmc_blocks hw EMMC_STATUS_BUFFER_WRITE_READY (emmc_write_words hw buffer EMMC_WORDS)
               (unat num_blocks) 0 s;
        (r, s) \<leftarrow> emmc_send_command hw EMMC_CMD_STOP_TRANSMISSION 0 0 s;
        Some (0, s)
      })"

section \<open>Dispatch\<close>

definition get_active_block_device_type :: "'h bdev \<Rightarrow> block_device_type" where
  "get_active_block_device_type s = active_block_device_type s"

definition set_active_block_device :: "block_device_type \<Rightarrow> 'h bdev \<Rightarrow> 'h bdev" where
  "set_active_block_device type s = s\<lparr>active_block_device_type := type\<rparr>"

definition block_device_read :: "'h hw \<Rightarrow> u64 \<Rightarrow> u32 \<Rightarrow> u64 \<Rightarrow> 'h bdev \<Rightarrow> (int \<times> 'h bdev) option" where
  "block_device_read hw lba num_blocks buffer s =
     (if active_block_device_type s = BLOCK_DEVICE_TYPE_UFS then ufs_read_blocks hw lba num_blocks buffer s
      else if active_block_device_type s = BLOCK_DEVICE_TYPE_EMMC
      then emmc_read_blocks hw (ucast lba) num_blocks buffer s
      else Some (-1, s))"

definition block_device_write :: "'h hw \<Rightarrow> u64 \<Rightarrow> u32 \<Rightarrow> u64 \<Rightarrow> 'h bdev \<Rightarrow> (int \<times> 'h bdev) option" where
  "block_device_write hw lba num_blocks buffer s =
     (if active_block_device_type s = BLOCK_DEVICE_TYPE_UFS then ufs_write_blocks hw lba num_blocks buffer s
      else if active_block_device_type s = BLOCK_DEVICE_TYPE_EMMC
      then emmc_write_blocks hw (ucast lba) num_blocks buffer s
      else Some (-1, s))"

section \<open>A UFS controller\<close>

text \<open>
  A controller that carries out the commands of the driver: it takes the address of the transfer
  descriptor from the list base registers, the direction of the data from its first word, the opcode, the
  first block and the number of blocks from the command bytes, and the buffer and its length from the region table; it
  moves whole blocks, and only when opcode and direction agree.  The layout of the descriptor is that of
  \<open>utp_trd_t\<close> in \<^verbatim>\<open>block_device.h\<close>.  The transfer is complete with the write to the doorbell register; the
  register may show it as pending for any number of reads.
\<close>

record ufs_ctrl =
  u_blocks :: "u32 \<Rightarrow> u8 list"
  u_list_base :: u64
  u_enabled :: bool

definition load_pair :: "mem \<Rightarrow> u64 \<Rightarrow> u64" where
  "load_pair m a = ucast (load32 m a) OR push_bit 32 (ucast (load32 m (a + 4)))"

definition be_bytes :: "mem \<Rightarrow> u64 \<Rightarrow> nat \<Rightarrow> u32" where
  "be_bytes m a n = le_word (rev (read_bytes m a n))"

definition ufs_blocks :: "ufs_ctrl \<Rightarrow> u32 \<Rightarrow> nat \<Rightarrow> u8 list" where
  "ufs_blocks u lba n = concat (map (\<lambda>k. u_blocks u (lba + of_nat k)) [0..<n])"

definition ufs_execute :: "mem \<times> ufs_ctrl \<Rightarrow> mem \<times> ufs_ctrl" where
  "ufs_execute s =
     (let (m, u) = s; trd = u_list_base u; cdb = trd + 16; prdt = load_pair m (trd + 4);
          dir = drop_bit 24 (load32 m trd) AND 3; opcode = m cdb; lba = be_bytes m (cdb + 2) 4; n = unat (be_bytes m (cdb + 7) 2);
          buffer = load_pair m prdt; count = Suc (unat (load32 m (prdt + 8)))
      in if opcode = 0x28 \<and> dir = UTP_TRD_DD_READ then (write_bytes m buffer (take count (ufs_blocks u lba n)), u)
         else if opcode = 0x2A \<and> dir = UTP_TRD_DD_WRITE
         then (m, u\<lparr>u_blocks := (\<lambda>b. if unat (b - lba) < n \<and> 4096 * Suc (unat (b - lba)) \<le> count
                   then read_bytes m (buffer + 4096 * ucast (b - lba)) 4096 else u_blocks u b)\<rparr>)
         else (m, u))"

definition ufs_controller :: "ufs_ctrl hw" where
  "ufs_controller =
     \<lparr>hw_read = (\<lambda>a u. (if a = UFS_HCI_CONTROLLER_STATUS_REG \<and> u_enabled u then 1 else 0, u)),
      hw_write = (\<lambda>a v (m, u).
        if a = UFS_HCI_CONTROLLER_RESET_REG \<and> v AND 1 \<noteq> 0 then (m, u\<lparr>u_list_base := 0, u_enabled := False\<rparr>)
        else if a = UFS_HCI_CONTROLLER_ENABLE_REG then (m, u\<lparr>u_enabled := (v AND 1 \<noteq> 0)\<rparr>)
        else if a = UFS_HCI_UTP_TRANSFER_REQ_LIST_BASE_L_REG
        then (m, u\<lparr>u_list_base := (u_list_base u AND NOT (mask 32)) OR ucast v\<rparr>)
        else if a = UFS_HCI_UTP_TRANSFER_REQ_LIST_BASE_H_REG
        then (m, u\<lparr>u_list_base := (u_list_base u AND mask 32) OR push_bit 32 (ucast v)\<rparr>)
        else if a = UFS_HCI_UTP_TRANSFER_REQ_DOORBELL_REG \<and> v AND 1 \<noteq> 0 \<and> u_enabled u then ufs_execute (m, u)
        else (m, u))\<rparr>"

text \<open>What the \<open>n\<close>-th of successive reads of a register returns.\<close>

primrec nth_read :: "'h hw \<Rightarrow> u64 \<Rightarrow> 'h \<Rightarrow> nat \<Rightarrow> u32" where
  "nth_read hw a h 0 = fst (hw_read hw a h)"
| "nth_read hw a h (Suc n) = nth_read hw a (snd (hw_read hw a h)) n"

text \<open>A device \<open>hw\<close> seen as a simpler one: a write acts on the view of the state as the simpler device does.\<close>

locale device =
  fixes hw :: "'h hw"
    and ctrl :: "'c hw"
    and view :: "'h \<Rightarrow> 'c"
  assumes write_view: "hw_write hw a v (m, h) = (m', h') \<Longrightarrow> hw_write ctrl a v (m, view h) = (m', view h')"
begin

lemma poll_clear_returns:
  assumes read_view: "\<And>h. view (snd (hw_read hw a h)) = view h" and "nth_read hw a (hw_state s) n AND bits = 0"
  shows "\<exists>h. poll_clear hw a bits s = Some (s\<lparr>hw_state := h\<rparr>) \<and> view h = view (hw_state s)"
  using assms(2)
proof (induction n arbitrary: s)
  case 0
  then show ?case using read_view [of "hw_state s"]
    by (subst poll_clear.simps) (auto simp: mmio_read_def split: prod.splits)
next
  case (Suc n)
  let ?s = "s\<lparr>hw_state := snd (hw_read hw a (hw_state s))\<rparr>"
  have "nth_read hw a (hw_state ?s) n AND bits = 0" using Suc.prems by simp
  from Suc.IH [OF this] show ?case using read_view [of "hw_state s"]
    by (subst poll_clear.simps) (auto simp: mmio_read_def split: prod.splits)
qed

lemma poll_set_returns:
  assumes read_view: "\<And>h. view (snd (hw_read hw a h)) = view h" and "nth_read hw a (hw_state s) n AND bits \<noteq> 0"
  shows "\<exists>h. poll_set hw a bits s = Some (s\<lparr>hw_state := h\<rparr>) \<and> view h = view (hw_state s)"
  using assms(2)
proof (induction n arbitrary: s)
  case 0
  then show ?case using read_view [of "hw_state s"]
    by (subst poll_set.simps) (auto simp: mmio_read_def split: prod.splits)
next
  case (Suc n)
  let ?s = "s\<lparr>hw_state := snd (hw_read hw a (hw_state s))\<rparr>"
  have "nth_read hw a (hw_state ?s) n AND bits \<noteq> 0" using Suc.prems by simp
  from Suc.IH [OF this] show ?case using read_view [of "hw_state s"]
    by (subst poll_set.simps) (auto simp: mmio_read_def split: prod.splits)
qed

lemma write_effect:
  assumes "hw_write ctrl a v (bd_mem s, view (hw_state s)) = (m, u)"
  obtains h where "mmio_write hw a v s = s\<lparr>bd_mem := m, hw_state := h\<rparr>" and "view h = u"
proof -
  obtain m' h where h: "hw_write hw a v (bd_mem s, hw_state s) = (m', h)" by (cases "hw_write hw a v (bd_mem s, hw_state s)")
  with write_view [OF h] assms show thesis by (intro that [of h]) (simp_all add: mmio_write_def)
qed

text \<open>A write that only changes the state of the controller.\<close>

lemma register_effect:
  assumes "hw_write ctrl a v (bd_mem s, view (hw_state s)) = (bd_mem s, u)"
  obtains h where "mmio_write hw a v s = s\<lparr>hw_state := h\<rparr>" and "view h = u"
proof -
  from assms obtain h where h: "mmio_write hw a v s = s\<lparr>bd_mem := bd_mem s, hw_state := h\<rparr>" "view h = u"
    by (rule write_effect)
  moreover have "s\<lparr>bd_mem := bd_mem s, hw_state := h\<rparr> = s\<lparr>hw_state := h\<rparr>" by (cases s) simp
  ultimately show thesis by (intro that [of h]) simp_all
qed

end

text \<open>A UFS controller and the view of its state: reads of registers do not change what it holds, writes act as
  described, and the bits the driver waits for change after some number of reads.\<close>

locale ufs_hardware = device hw ufs_controller view for hw :: "'h hw" and view :: "'h \<Rightarrow> ufs_ctrl" +
  assumes read_view: "view (snd (hw_read hw a h)) = view h"
    and reset_done: "\<exists>n. nth_read hw UFS_HCI_CONTROLLER_RESET_REG h n AND 1 = 0"
    and enable_done: "u_enabled (view h) \<Longrightarrow> \<exists>n. nth_read hw UFS_HCI_CONTROLLER_STATUS_REG h n AND 1 \<noteq> 0"
    and doorbell_done: "\<exists>n. nth_read hw UFS_HCI_UTP_TRANSFER_REQ_DOORBELL_REG h n AND 1 = 0"

interpretation ufs_reference: ufs_hardware ufs_controller "\<lambda>u. u"
  by unfold_locales (auto simp: ufs_controller_def intro: exI [of _ 0])

definition ufs_ready :: "('h \<Rightarrow> ufs_ctrl) \<Rightarrow> 'h bdev \<Rightarrow> bool" where
  "ufs_ready view s \<longleftrightarrow> active_block_device_type s = BLOCK_DEVICE_TYPE_UFS \<and>
     u_enabled (view (hw_state s)) \<and> u_list_base (view (hw_state s)) = UFS_TRL_BASE"

section \<open>What the driver does\<close>

lemma load32_store32_far:
  assumes "4 \<le> unat (b - a)" and "4 \<le> unat (a - b)"
  shows "load32 (store32 m a v) b = load32 m b"
  using region_apart [OF assms, of 0] by (simp add: load32_def store32_def read_write_other)

lemma load32_upd_far: "4 \<le> unat (a - b) \<Longrightarrow> load32 (m(a := x)) b = load32 m b"
  by (rule load32_cong) (auto simp: region_def)

lemma store32_at_far: "4 \<le> unat (b - a) \<Longrightarrow> store32 m a v b = m b"
  by (rule store32_frame) (simp add: region_def)

lemma byte_of: "ucast (drop_bit k (x :: 'a::len word) AND 0xFF) = (ucast (drop_bit k x) :: u8)"
proof -
  have ff: "(0xFF :: 'a word) = mask 8" by (simp add: mask_eq_exp_minus_1)
  show ?thesis
    unfolding ff by (rule bit_word_eqI) (auto simp: bit_simps dest: bit_imp_le_length)
qed

lemma le_word_le_bytes_cast:
  fixes w :: "'a::len word"
  shows "(le_word (le_bytes n w) :: 'b::len word) = ucast (take_bit (8 * n) w)"
proof (rule bit_word_eqI)
  fix k assume k: "k < LENGTH('b)"
  have *: "k div 8 < n \<longleftrightarrow> k < 8 * n" by (simp add: div_less_iff_less_mult mult.commute)
  show "bit (le_word (le_bytes n w) :: 'b word) k = bit (ucast (take_bit (8 * n) w) :: 'b word) k"
    using k by (auto simp: bit_le_word nth_le_bytes bit_simps * dest: bit_imp_le_length)
qed

lemma ufs_descriptors_read:
  "load32 (ufs_descriptors m lba n buffer dir) UFS_PRDT_BASE = ucast buffer"
  "load32 (ufs_descriptors m lba n buffer dir) (UFS_PRDT_BASE + 4) = ucast (drop_bit 32 buffer)"
  "load32 (ufs_descriptors m lba n buffer dir) (UFS_PRDT_BASE + 8) = n * UFS_BLOCK_SIZE - 1"
  "load32 (ufs_descriptors m lba n buffer dir) (UFS_TRL_BASE + 4) = ucast UFS_PRDT_BASE"
  "load32 (ufs_descriptors m lba n buffer dir) (UFS_TRL_BASE + 8) = 0"
  "ufs_descriptors m lba n buffer dir (UFS_TRL_BASE + 16) = (if dir = UTP_TRD_DD_READ then 0x28 else 0x2A)"
  "read_bytes (ufs_descriptors m lba n buffer dir) (UFS_TRL_BASE + 18) 4 =
     [ucast (drop_bit 24 lba AND 0xFF), ucast (drop_bit 16 lba AND 0xFF), ucast (drop_bit 8 lba AND 0xFF),
      ucast (lba AND 0xFF)]"
  "read_bytes (ufs_descriptors m lba n buffer dir) (UFS_TRL_BASE + 23) 2 =
     [ucast (drop_bit 8 n AND 0xFF), ucast (n AND 0xFF)]"
  "load32 (ufs_descriptors m lba n buffer dir) UFS_TRL_BASE = push_bit 24 dir OR push_bit 16 1"
  unfolding ufs_descriptors_def Let_def
  by (simp_all add: load32_upd_far load32_store32_far load32_store32_same read_bytes_numeral read_bytes_Suc)


lemma le_bytes_2: "le_bytes 2 w = [ucast w, ucast (drop_bit 8 w)]"
  by (simp add: numeral_2_eq_2)

lemma le_bytes_4:
  "le_bytes 4 w = [ucast w, ucast (drop_bit 8 w), ucast (drop_bit 16 w), ucast (drop_bit 24 w)]"
proof -
  have 4: "(4 :: nat) = Suc (Suc (Suc (Suc 0)))" by simp
  show ?thesis unfolding 4 le_bytes.simps drop_bit_drop_bit by simp
qed

lemma ufs_command_fields:
  shows "load_pair (ufs_descriptors m lba n buffer dir) (UFS_TRL_BASE + 4) = UFS_PRDT_BASE"
    and "load_pair (ufs_descriptors m lba n buffer dir) UFS_PRDT_BASE = buffer"
    and "be_bytes (ufs_descriptors m lba n buffer dir) (UFS_TRL_BASE + 18) 4 = ucast lba"
    and "be_bytes (ufs_descriptors m lba n buffer dir) (UFS_TRL_BASE + 23) 2 = take_bit 16 n"
proof -
  let ?d = "ufs_descriptors m lba n buffer dir"
  show "load_pair ?d (UFS_TRL_BASE + 4) = UFS_PRDT_BASE"
    using ufs_descriptors_read(4,5) [of m lba n buffer dir] by (simp add: load_pair_def)
  show "load_pair ?d UFS_PRDT_BASE = buffer"
    using ufs_descriptors_read(1,2) [of m lba n buffer dir] unfolding load_pair_def
    by (simp only:) (rule bit_word_eqI, auto simp: bit_simps)
  have "rev (read_bytes ?d (UFS_TRL_BASE + 18) 4) = le_bytes 4 lba"
    unfolding ufs_descriptors_read
    unfolding le_bytes_4 byte_of byte_of [where k = 0, unfolded drop_bit_0 id_apply] by simp
  then show "be_bytes ?d (UFS_TRL_BASE + 18) 4 = ucast lba"
    unfolding be_bytes_def by (simp only: le_word_le_bytes_cast) (rule bit_word_eqI, auto simp: bit_simps)
  have "rev (read_bytes ?d (UFS_TRL_BASE + 23) 2) = le_bytes 2 n"
    unfolding ufs_descriptors_read
    unfolding le_bytes_2 byte_of byte_of [where k = 0, unfolded drop_bit_0 id_apply] by simp
  then show "be_bytes ?d (UFS_TRL_BASE + 23) 2 = take_bit 16 n"
    unfolding be_bytes_def by (simp only: le_word_le_bytes_cast) simp
qed

lemma ufs_count:
  assumes "0 < unat n" and "unat n < 2 ^ 16"
  shows "Suc (unat (n * UFS_BLOCK_SIZE - 1)) = 4096 * unat n" and "take_bit 16 n = n"
proof -
  have "unat (n * UFS_BLOCK_SIZE) = 4096 * unat n"
    using assms by (simp add: unat_word_ariths)
  moreover from this have "n * UFS_BLOCK_SIZE \<noteq> 0" using assms(1) by (metis mult_is_0 not_gr0 unat_0 zero_neq_numeral)
  ultimately show "Suc (unat (n * UFS_BLOCK_SIZE - 1)) = 4096 * unat n"
    using assms(1) by (simp add: unat_minus_one)
  show "take_bit 16 n = n"
    using assms(2) by (intro word_unat_eq_iff [THEN iffD2]) (simp add: unsigned_take_bit_eq take_bit_nat_eq_self)
qed

context ufs_hardware begin

lemmas poll_returns = poll_clear_returns [OF read_view] poll_set_returns [OF read_view]

lemma ufs_command_effect:
  assumes "ufs_ready view s" and "ufs_execute (ufs_descriptors (bd_mem s) lba n buffer dir, view (hw_state s)) = (m, u)"
  obtains h where "ufs_send_command hw lba n buffer dir s = Some (0, s\<lparr>bd_mem := m, hw_state := h\<rparr>)" and "view h = u"
proof -
  let ?s = "s\<lparr>bd_mem := ufs_descriptors (bd_mem s) lba n buffer dir\<rparr>"
  have "hw_write ufs_controller UFS_HCI_UTP_TRANSFER_REQ_DOORBELL_REG 1 (bd_mem ?s, view (hw_state ?s)) = (m, u)"
    using assms by (simp add: ufs_controller_def ufs_ready_def)
  then obtain h where h: "mmio_write hw UFS_HCI_UTP_TRANSFER_REQ_DOORBELL_REG 1 ?s = ?s\<lparr>bd_mem := m, hw_state := h\<rparr>" "view h = u"
    by (rule write_effect)
  let ?t = "?s\<lparr>bd_mem := m, hw_state := h\<rparr>"
  from doorbell_done [of "hw_state ?t"] poll_returns(1) [of UFS_HCI_UTP_TRANSFER_REQ_DOORBELL_REG ?t]
  obtain h' where "poll_clear hw UFS_HCI_UTP_TRANSFER_REQ_DOORBELL_REG 1 ?t = Some (?t\<lparr>hw_state := h'\<rparr>)" "view h' = u"
    using h(2) by auto
  with h(1) show thesis by (intro that [of h']) (simp_all add: ufs_send_command_def)
qed

lemma ufs_read_effect:
  assumes "ufs_ready view s" and "0 < unat n" and "unat n < 2 ^ 16"
    and "length (ufs_blocks (view (hw_state s)) (ucast lba) (unat n)) = 4096 * unat n"
  obtains h where "block_device_read hw lba n buffer s =
    Some (0, s\<lparr>bd_mem := write_bytes (ufs_descriptors (bd_mem s) lba n buffer UTP_TRD_DD_READ) buffer
                (ufs_blocks (view (hw_state s)) (ucast lba) (unat n)), hw_state := h\<rparr>)"
    and "view h = view (hw_state s)"
proof -
  let ?d = "ufs_descriptors (bd_mem s) lba n buffer UTP_TRD_DD_READ" and ?u = "view (hw_state s)"
  have base: "u_list_base ?u = UFS_TRL_BASE" and act: "active_block_device_type s = BLOCK_DEVICE_TYPE_UFS"
    using assms(1) by (simp_all add: ufs_ready_def)
  have "ufs_execute (?d, ?u) = (write_bytes ?d buffer (ufs_blocks ?u (ucast lba) (unat n)), ?u)"
    using ufs_command_fields [of "bd_mem s" lba n buffer UTP_TRD_DD_READ] assms(4)
      ufs_descriptors_read(3,6,9) [of "bd_mem s" lba n buffer UTP_TRD_DD_READ] ufs_count [OF assms(2,3)]
    by (simp add: ufs_execute_def base Let_def)
  from ufs_command_effect [OF assms(1) this] obtain h where
    "ufs_send_command hw lba n buffer UTP_TRD_DD_READ s =
       Some (0, s\<lparr>bd_mem := write_bytes ?d buffer (ufs_blocks ?u (ucast lba) (unat n)), hw_state := h\<rparr>)" "view h = ?u"
    by metis
  then show thesis using act by (intro that [of h]) (simp_all add: block_device_read_def ufs_read_blocks_def)
qed

lemma ufs_write_effect:
  assumes "ufs_ready view s" and "0 < unat n" and "unat n < 2 ^ 16"
  obtains h where "block_device_write hw lba n buffer s =
      Some (0, s\<lparr>bd_mem := ufs_descriptors (bd_mem s) lba n buffer UTP_TRD_DD_WRITE, hw_state := h\<rparr>)"
    and "view h = (view (hw_state s))\<lparr>u_blocks := (\<lambda>b. if unat (b - ucast lba) < unat n
        then read_bytes (ufs_descriptors (bd_mem s) lba n buffer UTP_TRD_DD_WRITE)
               (buffer + 4096 * ucast (b - ucast lba)) 4096 else u_blocks (view (hw_state s)) b)\<rparr>"
proof -
  let ?d = "ufs_descriptors (bd_mem s) lba n buffer UTP_TRD_DD_WRITE" and ?u = "view (hw_state s)"
  have base: "u_list_base ?u = UFS_TRL_BASE" and act: "active_block_device_type s = BLOCK_DEVICE_TYPE_UFS"
    using assms(1) by (simp_all add: ufs_ready_def)
  have le: "4095 + 4096 * k \<le> unat (n * UFS_BLOCK_SIZE - 1) \<longleftrightarrow> k < unat n" for k
    using ufs_count(1) [OF assms(2,3)] by arith
  have "ufs_execute (?d, ?u) = (?d, ?u\<lparr>u_blocks := (\<lambda>b. if unat (b - ucast lba) < unat n
        then read_bytes ?d (buffer + 4096 * ucast (b - ucast lba)) 4096 else u_blocks ?u b)\<rparr>)"
    using ufs_command_fields [of "bd_mem s" lba n buffer UTP_TRD_DD_WRITE]
      ufs_descriptors_read(3,6,9) [of "bd_mem s" lba n buffer UTP_TRD_DD_WRITE] ufs_count [OF assms(2,3)]
    by (simp add: ufs_execute_def base Let_def le cong: if_cong)
  from ufs_command_effect [OF assms(1) this] show thesis
    using act that by (auto simp: block_device_write_def ufs_write_blocks_def)
qed

end

lemma ufs_descriptors_frame:
  assumes "x \<notin> region UFS_TRL_BASE 32" and "x \<notin> region UFS_PRDT_BASE 16"
  shows "ufs_descriptors m lba n buffer dir x = m x"
proof -
  have sub: "region (UFS_PRDT_BASE + of_nat k) 4 \<subseteq> region UFS_PRDT_BASE 16" if "k + 4 \<le> 16" for k
    using that by (auto elim!: regionE simp: region_offset [of "k + _", simplified of_nat_add add.assoc [symmetric]])
  have sub2: "region (UFS_TRL_BASE + of_nat k) 4 \<subseteq> region UFS_TRL_BASE 32" if "k + 4 \<le> 32" for k
    using that by (auto elim!: regionE simp: region_offset [of "k + _", simplified of_nat_add add.assoc [symmetric]])
  have "x \<notin> region UFS_PRDT_BASE 4" "x \<notin> region (UFS_PRDT_BASE + 4) 4" "x \<notin> region (UFS_PRDT_BASE + 8) 4"
    "x \<notin> region UFS_TRL_BASE 4" "x \<notin> region (UFS_TRL_BASE + 4) 4" "x \<notin> region (UFS_TRL_BASE + 8) 4"
    using sub [of 0] sub [of 4] sub [of 8] sub2 [of 0] sub2 [of 4] sub2 [of 8] assms by auto
  moreover have "x \<noteq> UFS_TRL_BASE + 16" "x \<noteq> UFS_TRL_BASE + 18" "x \<noteq> UFS_TRL_BASE + 19" "x \<noteq> UFS_TRL_BASE + 20"
    "x \<noteq> UFS_TRL_BASE + 21" "x \<noteq> UFS_TRL_BASE + 23" "x \<noteq> UFS_TRL_BASE + 24"
    using assms(1) by (auto simp: region_def)
  ultimately show ?thesis
    using assms by (simp add: ufs_descriptors_def Let_def store32_frame memset_eq write_bytes_frame)
qed

text \<open>A buffer the descriptors do not overlap.\<close>

definition buffer_ok :: "u64 \<Rightarrow> nat \<Rightarrow> bool" where
  "buffer_ok a n \<longleftrightarrow> region a n \<inter> region UFS_TRL_BASE 32 = {} \<and> region a n \<inter> region UFS_PRDT_BASE 16 = {}"

lemma buffer_descriptors:
  assumes "buffer_ok a n" and "n \<le> 2 ^ 64"
  shows "read_bytes (ufs_descriptors m lba k buffer dir) a n = read_bytes m a n"
  using assms by (intro read_bytes_cong ufs_descriptors_frame) (auto simp: buffer_ok_def)

lemma read_bytes_blocks:
  "concat (map (\<lambda>k. read_bytes m (a + 4096 * of_nat k) 4096) [0..<n]) = read_bytes m a (4096 * n)"
proof (induction n)
  case (Suc n)
  have "read_bytes m a (4096 * Suc n) = read_bytes m a (4096 * n) @ read_bytes m (a + of_nat (4096 * n)) 4096"
    using read_bytes_append [of m a "4096 * n" 4096] by (simp add: add.commute)
  with Suc show ?case by simp
qed simp

context ufs_hardware begin

text \<open>Blocks written from one buffer are read back into another.\<close>

lemma write_then_read:
  assumes "ufs_ready view s" and "0 < unat n" and "unat n < 2 ^ 16" and "buffer_ok a (4096 * unat n)"
  shows "\<exists>s1 s2. block_device_write hw lba n a s = Some (0, s1) \<and>
    block_device_read hw lba n b s1 = Some (0, s2) \<and>
    read_bytes (bd_mem s2) b (4096 * unat n) = read_bytes (bd_mem s) a (4096 * unat n)"
proof -
  let ?N = "4096 * unat n" and ?d = "ufs_descriptors (bd_mem s) lba n a UTP_TRD_DD_WRITE"
  from assms(1-3) obtain h where h: "block_device_write hw lba n a s = Some (0, s\<lparr>bd_mem := ?d, hw_state := h\<rparr>)"
    "view h = (view (hw_state s))\<lparr>u_blocks := (\<lambda>b. if unat (b - ucast lba) < unat n
        then read_bytes ?d (a + 4096 * ucast (b - ucast lba)) 4096 else u_blocks (view (hw_state s)) b)\<rparr>"
    by (rule ufs_write_effect)
  let ?s = "s\<lparr>bd_mem := ?d, hw_state := h\<rparr>"
  have ready: "ufs_ready view ?s" using assms(1) h(2) by (simp add: ufs_ready_def)
  have N: "?N \<le> 2 ^ 64" using assms(3) by simp
  have "u_blocks (view h) (ucast lba + of_nat k) = read_bytes ?d (a + 4096 * of_nat k) 4096" if "k < unat n" for k
  proof -
    have "k < 2 ^ 32" using that assms(3) by simp
    then have "unat (of_nat k :: u32) = k" by (simp add: unat_of_nat)
    moreover from this have "(ucast (of_nat k :: u32) :: u64) = of_nat k" by (metis of_nat_unat)
    ultimately show ?thesis using that h(2) by simp
  qed
  then have "ufs_blocks (view h) (ucast lba) (unat n) =
      concat (map (\<lambda>k. read_bytes ?d (a + 4096 * of_nat k) 4096) [0..<unat n])"
    unfolding ufs_blocks_def by (intro arg_cong [where f = concat] map_cong) simp_all
  also have "\<dots> = read_bytes (bd_mem s) a ?N"
    unfolding read_bytes_blocks by (rule buffer_descriptors [OF assms(4) N])
  finally have blocks: "ufs_blocks (view h) (ucast lba) (unat n) = read_bytes (bd_mem s) a ?N" .
  from ready assms(2,3) obtain h' where "block_device_read hw lba n b ?s =
      Some (0, ?s\<lparr>bd_mem := write_bytes (ufs_descriptors ?d lba n b UTP_TRD_DD_READ) b (read_bytes (bd_mem s) a ?N), hw_state := h'\<rparr>)"
    by (rule ufs_read_effect [where lba = lba and buffer = b]) (use blocks in auto)
  then show ?thesis using h(1) N by (auto simp: read_write_same)
qed

lemma init_ready:
  assumes "active_block_device_type s = BLOCK_DEVICE_TYPE_UFS"
  shows "\<exists>s'. ufs_init hw s = Some s' \<and> ufs_ready view s' \<and> u_blocks (view (hw_state s')) = u_blocks (view (hw_state s))"
proof -
  let ?u = "view (hw_state s)"
  obtain h1 where h1: "mmio_write hw UFS_HCI_CONTROLLER_RESET_REG 1 s = s\<lparr>hw_state := h1\<rparr>"
    "view h1 = ?u\<lparr>u_list_base := 0, u_enabled := False\<rparr>"
    using register_effect [of UFS_HCI_CONTROLLER_RESET_REG "1" s] by (auto simp: ufs_controller_def)
  from reset_done poll_returns(1) [of UFS_HCI_CONTROLLER_RESET_REG "s\<lparr>hw_state := h1\<rparr>" _ 1] obtain h2 where
    h2: "poll_clear hw UFS_HCI_CONTROLLER_RESET_REG 1 (s\<lparr>hw_state := h1\<rparr>) = Some (s\<lparr>hw_state := h2\<rparr>)" "view h2 = view h1"
    by fastforce
  obtain h3 where h3: "mmio_write hw UFS_HCI_CONTROLLER_ENABLE_REG 1 (s\<lparr>hw_state := h2\<rparr>) = s\<lparr>hw_state := h3\<rparr>"
    "view h3 = (view h2)\<lparr>u_enabled := True\<rparr>"
    using register_effect [of UFS_HCI_CONTROLLER_ENABLE_REG "1" "s\<lparr>hw_state := h2\<rparr>"] by (auto simp: ufs_controller_def)
  then have "u_enabled (view h3)" by simp
  from enable_done [OF this] poll_returns(2) [of UFS_HCI_CONTROLLER_STATUS_REG "s\<lparr>hw_state := h3\<rparr>" _ 1] obtain h4 where
    h4: "poll_set hw UFS_HCI_CONTROLLER_STATUS_REG 1 (s\<lparr>hw_state := h3\<rparr>) = Some (s\<lparr>hw_state := h4\<rparr>)" "view h4 = view h3"
    by fastforce
  obtain h5 where h5: "mmio_write hw UFS_HCI_UTP_TRANSFER_REQ_LIST_BASE_L_REG (ucast UFS_TRL_BASE) (s\<lparr>hw_state := h4\<rparr>) = s\<lparr>hw_state := h5\<rparr>"
    "view h5 = (view h4)\<lparr>u_list_base := (u_list_base (view h4) AND NOT (mask 32)) OR UFS_TRL_BASE\<rparr>"
    using register_effect [of UFS_HCI_UTP_TRANSFER_REQ_LIST_BASE_L_REG "ucast UFS_TRL_BASE" "s\<lparr>hw_state := h4\<rparr>"] by (auto simp: ufs_controller_def)
  have low: "(0xDEAE0000 :: u64) AND mask 32 = 0xDEAE0000" by (simp add: mask_eq_exp_minus_1)
  obtain h6 where h6: "mmio_write hw UFS_HCI_UTP_TRANSFER_REQ_LIST_BASE_H_REG (ucast (drop_bit 32 UFS_TRL_BASE)) (s\<lparr>hw_state := h5\<rparr>) = s\<lparr>hw_state := h6\<rparr>"
    "view h6 = (view h5)\<lparr>u_list_base := u_list_base (view h5) AND mask 32\<rparr>"
    using register_effect [of UFS_HCI_UTP_TRANSFER_REQ_LIST_BASE_H_REG "ucast (drop_bit 32 UFS_TRL_BASE)" "s\<lparr>hw_state := h5\<rparr>"] by (auto simp: ufs_controller_def)
  obtain h7 where h7: "mmio_write hw UFS_HCI_UTP_TRANSFER_REQ_INT_EN_REG 0xFFFFFFFF (s\<lparr>hw_state := h6\<rparr>) = s\<lparr>hw_state := h7\<rparr>" "view h7 = view h6"
    using register_effect [of UFS_HCI_UTP_TRANSFER_REQ_INT_EN_REG "0xFFFFFFFF" "s\<lparr>hw_state := h6\<rparr>"] by (auto simp: ufs_controller_def)
  obtain h8 where h8: "mmio_write hw UFS_HCI_UTP_TASK_REQ_INT_EN_REG 0xFFFFFFFF (s\<lparr>hw_state := h7\<rparr>) = s\<lparr>hw_state := h8\<rparr>" "view h8 = view h7"
    using register_effect [of UFS_HCI_UTP_TASK_REQ_INT_EN_REG "0xFFFFFFFF" "s\<lparr>hw_state := h7\<rparr>"] by (auto simp: ufs_controller_def)
  have "view h8 = ?u\<lparr>u_list_base := UFS_TRL_BASE, u_enabled := True\<rparr>"
    unfolding h8(2) h7(2) h6(2) h5(2) h4(2) h3(2) h2(2) h1(2) using low by simp
  then show ?thesis
    using h1(1) h2(1) h3(1) h4(1) h5(1) h6(1) h7(1) h8(1) assms
    by (simp add: ufs_init_def ufs_ready_def)
qed

lemma disabled_read:
  assumes "active_block_device_type s = BLOCK_DEVICE_TYPE_UFS" and "\<not> u_enabled (view (hw_state s))"
    and "buffer_ok a k" and "k \<le> 2 ^ 64"
  shows "\<exists>s'. block_device_read hw lba n a s = Some (0, s') \<and> read_bytes (bd_mem s') a k = read_bytes (bd_mem s) a k"
proof -
  let ?d = "ufs_descriptors (bd_mem s) lba n a UTP_TRD_DD_READ"
  let ?s = "s\<lparr>bd_mem := ?d\<rparr>"
  obtain h where h: "mmio_write hw UFS_HCI_UTP_TRANSFER_REQ_DOORBELL_REG 1 ?s = s\<lparr>bd_mem := ?d, hw_state := h\<rparr>"
    using assms(2) register_effect [of UFS_HCI_UTP_TRANSFER_REQ_DOORBELL_REG 1 ?s] by (auto simp: ufs_controller_def)
  from doorbell_done [of h] poll_returns(1) [of UFS_HCI_UTP_TRANSFER_REQ_DOORBELL_REG "s\<lparr>bd_mem := ?d, hw_state := h\<rparr>" _ 1]
  obtain h' where "poll_clear hw UFS_HCI_UTP_TRANSFER_REQ_DOORBELL_REG 1 (s\<lparr>bd_mem := ?d, hw_state := h\<rparr>) =
      Some (s\<lparr>bd_mem := ?d, hw_state := h'\<rparr>)" by fastforce
  with h show ?thesis
    using assms(1) buffer_descriptors [OF assms(3,4)]
    by (simp add: block_device_read_def ufs_read_blocks_def ufs_send_command_def)
qed

end

section \<open>Properties\<close>

text \<open>C18: for every controller that keeps the contract \<open>ufs_hardware\<close> and is set up, the UFS path of
  \<open>block_device_write\<close> and \<open>block_device_read\<close> returns 0, and what was written from one buffer is read
  back into another.\<close>

theorem block_device_round_trip:
  assumes "ufs_hardware hw view" and "ufs_ready view s" and "0 < unat n" and "unat n < 2 ^ 16"
    and "buffer_ok a (4096 * unat n)"
  shows "\<exists>s1 s2. block_device_write hw lba n a s = Some (0, s1) \<and>
    block_device_read hw lba n b s1 = Some (0, s2) \<and>
    read_bytes (bd_mem s2) b (4096 * unat n) = read_bytes (bd_mem s) a (4096 * unat n)"
  using ufs_hardware.write_then_read [OF assms] .

definition sample_bdev :: "bool \<Rightarrow> ufs_ctrl bdev" where
  "sample_bdev on = \<lparr>bd_mem = (\<lambda>_. 7), hw_state = \<lparr>u_blocks = (\<lambda>_. replicate 4096 0),
     u_list_base = UFS_TRL_BASE, u_enabled = on\<rparr>, active_block_device_type = BLOCK_DEVICE_TYPE_UFS, bd_log = []\<rparr>"

theorem block_device_round_trip_witness:
  "\<exists>s1 s2. block_device_write ufs_controller 5 2 0x1000 (sample_bdev True) = Some (0, s1) \<and>
    block_device_read ufs_controller 5 2 0x8000 s1 = Some (0, s2) \<and>
    read_bytes (bd_mem s2) 0x8000 8192 = read_bytes (\<lambda>_. 7) 0x1000 8192"
proof -
  have "buffer_ok 0x1000 8192"
    using region_apart [of 8192 "0xDEAE0000" "0x1000" 32 0] region_apart [of 8192 "0xDEAF0000" "0x1000" 16 0]
    by (simp add: buffer_ok_def)
  moreover have "ufs_ready (\<lambda>u. u) (sample_bdev True)" by (simp add: ufs_ready_def sample_bdev_def)
  moreover have "0 < unat (2 :: u32)" "unat (2 :: u32) < 2 ^ 16" by simp_all
  ultimately show ?thesis
    using block_device_round_trip [OF ufs_reference.ufs_hardware_axioms, of "sample_bdev True" 2 "0x1000" 5 "0x8000"]
    by (simp add: sample_bdev_def)
qed

text \<open>C39: \<open>ufs_init\<close> returns and sets the controller up.  Without it, as in \<open>kernel_main\<close>, a read returns 0 for
  success although nothing is transferred: the buffer keeps its contents.\<close>

theorem ufs_init_needed:
  assumes "ufs_hardware hw view" and "active_block_device_type s = BLOCK_DEVICE_TYPE_UFS"
  shows "(\<exists>s'. ufs_init hw s = Some s' \<and> ufs_ready view s' \<and>
      u_blocks (view (hw_state s')) = u_blocks (view (hw_state s))) \<and>
    (\<not> u_enabled (view (hw_state s)) \<and> buffer_ok a k \<and> k \<le> 2 ^ 64 \<longrightarrow>
       (\<exists>s'. block_device_read hw lba n a s = Some (0, s') \<and>
         read_bytes (bd_mem s') a k = read_bytes (bd_mem s) a k))"
  using ufs_hardware.init_ready [OF assms] ufs_hardware.disabled_read [OF assms] by blast

theorem ufs_init_needed_witness:
  "\<exists>s'. block_device_read ufs_controller 0 1 0x1000 (sample_bdev False) = Some (0, s') \<and>
     read_bytes (bd_mem s') 0x1000 4096 = read_bytes (\<lambda>_. 7) 0x1000 4096"
proof -
  have "buffer_ok 0x1000 4096"
    using region_apart [of 4096 "0xDEAE0000" "0x1000" 32 0] region_apart [of 4096 "0xDEAF0000" "0x1000" 16 0]
    by (simp add: buffer_ok_def)
  then show ?thesis
    using ufs_init_needed [OF ufs_reference.ufs_hardware_axioms, of "sample_bdev False" "0x1000" 4096 0 1]
    by (simp add: sample_bdev_def)
qed

end
