(* ===== verification/Console.thy ===== *)
theory Console
  imports Printf Block_Device
begin

text \<open>
  The console: the font of \<^verbatim>\<open>src/kern/lib/font_data.c\<close>, the UART of \<^verbatim>\<open>src/kern/lib/lib.c\<close> and the text
  output of \<^verbatim>\<open>src/kern/debug/kprintf.c\<close>, which draws on a framebuffer in memory once one is set and goes
  to the UART before.  The UART is an argument, as in \<^verbatim>\<open>Block_Device.thy\<close>; the 256-byte buffer of
  \<open>kprintf_varg\<close> lies in memory at an address that is an argument too.
\<close>

section \<open>Font\<close>

abbreviation FONT_WIDTH :: u32 where "FONT_WIDTH \<equiv> 8"
abbreviation FONT_HEIGHT :: u32 where "FONT_HEIGHT \<equiv> 8"

definition proggy_clean :: "u8 list list" where
  "proggy_clean =
     [[0x00, 0x00, 0x00, 0x00, 0x00, 0x00, 0x00, 0x00],
      [0x18, 0x3C, 0x3C, 0x18, 0x18, 0x00, 0x18, 0x00],
      [0x66, 0x66, 0x24, 0x00, 0x00, 0x00, 0x00, 0x00],
      [0x6C, 0x6C, 0xFE, 0x6C, 0xFE, 0x6C, 0x6C, 0x00],
      [0x18, 0x3E, 0x60, 0x3C, 0x06, 0x7C, 0x18, 0x00],
      [0x00, 0xC6, 0xC6, 0x08, 0x10, 0x66, 0x66, 0x00],
      [0x3C, 0x66, 0x3C, 0x76, 0x66, 0x7C, 0x66, 0x00],
      [0x18, 0x18, 0x30, 0x00, 0x00, 0x00, 0x00, 0x00],
      [0x0C, 0x18, 0x30, 0x60, 0x60, 0x30, 0x18, 0x0C],
      [0x30, 0x18, 0x0C, 0x06, 0x06, 0x0C, 0x18, 0x30],
      [0x00, 0x66, 0x3C, 0xFF, 0x3C, 0x66, 0x00, 0x00],
      [0x00, 0x18, 0x18, 0x7E, 0x18, 0x18, 0x00, 0x00],
      [0x00, 0x00, 0x00, 0x00, 0x00, 0x18, 0x18, 0x30],
      [0x00, 0x00, 0x00, 0x7E, 0x00, 0x00, 0x00, 0x00],
      [0x00, 0x00, 0x00, 0x00, 0x00, 0x18, 0x18, 0x00],
      [0x06, 0x0C, 0x18, 0x30, 0x60, 0xC0, 0x80, 0x00],
      [0x3C, 0x66, 0x6E, 0x76, 0x66, 0x66, 0x3C, 0x00],
      [0x18, 0x38, 0x18, 0x18, 0x18, 0x18, 0x7E, 0x00],
      [0x3C, 0x66, 0x06, 0x0C, 0x18, 0x30, 0x7E, 0x00],
      [0x3C, 0x66, 0x06, 0x1C, 0x06, 0x66, 0x3C, 0x00],
      [0x0C, 0x1C, 0x3C, 0x6C, 0xFE, 0x0C, 0x0C, 0x00],
      [0x7E, 0x60, 0x7C, 0x06, 0x06, 0x66, 0x3C, 0x00],
      [0x3C, 0x60, 0x60, 0x7C, 0x66, 0x66, 0x3C, 0x00],
      [0x7E, 0x06, 0x0C, 0x18, 0x30, 0x30, 0x30, 0x00],
      [0x3C, 0x66, 0x66, 0x3C, 0x66, 0x66, 0x3C, 0x00],
      [0x3C, 0x66, 0x66, 0x3E, 0x06, 0x06, 0x3C, 0x00],
      [0x00, 0x18, 0x18, 0x00, 0x00, 0x18, 0x18, 0x00],
      [0x00, 0x18, 0x18, 0x00, 0x00, 0x18, 0x18, 0x30],
      [0x0C, 0x18, 0x30, 0x60, 0x30, 0x18, 0x0C, 0x00],
      [0x00, 0x00, 0x7E, 0x00, 0x7E, 0x00, 0x00, 0x00],
      [0x30, 0x18, 0x0C, 0x06, 0x0C, 0x18, 0x30, 0x00],
      [0x3C, 0x66, 0x06, 0x0C, 0x18, 0x00, 0x18, 0x00],
      [0x3C, 0x66, 0x60, 0x7C, 0x66, 0x66, 0x3C, 0x00],
      [0x7C, 0x66, 0x66, 0x7C, 0x66, 0x66, 0x66, 0x00],
      [0x7C, 0x66, 0x66, 0x7C, 0x66, 0x66, 0x7C, 0x00],
      [0x3C, 0x66, 0x60, 0x60, 0x60, 0x66, 0x3C, 0x00],
      [0x78, 0x6C, 0x66, 0x66, 0x66, 0x6C, 0x78, 0x00],
      [0x7E, 0x60, 0x60, 0x7C, 0x60, 0x60, 0x7E, 0x00],
      [0x7E, 0x60, 0x60, 0x7C, 0x60, 0x60, 0x60, 0x00],
      [0x3C, 0x66, 0x60, 0x60, 0x6E, 0x66, 0x3C, 0x00],
      [0x66, 0x66, 0x66, 0x7E, 0x66, 0x66, 0x66, 0x00],
      [0x7E, 0x18, 0x18, 0x18, 0x18, 0x18, 0x7E, 0x00],
      [0x0E, 0x06, 0x06, 0x06, 0x06, 0x66, 0x3C, 0x00],
      [0x66, 0x6C, 0x78, 0x70, 0x78, 0x6C, 0x66, 0x00],
      [0x60, 0x60, 0x60, 0x60, 0x60, 0x60, 0x7E, 0x00],
      [0xC6, 0xEE, 0xFE, 0xD6, 0xC6, 0xC6, 0xC6, 0x00],
      [0xC6, 0xE6, 0xF6, 0xDE, 0xCE, 0xC6, 0xC6, 0x00],
      [0x3C, 0x66, 0x66, 0x66, 0x66, 0x66, 0x3C, 0x00],
      [0x7C, 0x66, 0x66, 0x7C, 0x60, 0x60, 0x60, 0x00],
      [0x3C, 0x66, 0x66, 0x66, 0x6E, 0x3C, 0x0E, 0x00],
      [0x7C, 0x66, 0x66, 0x7C, 0x78, 0x6C, 0x66, 0x00],
      [0x3C, 0x66, 0x60, 0x3C, 0x06, 0x66, 0x3C, 0x00],
      [0x7E, 0x18, 0x18, 0x18, 0x18, 0x18, 0x18, 0x00],
      [0x66, 0x66, 0x66, 0x66, 0x66, 0x66, 0x3E, 0x00],
      [0x66, 0x66, 0x66, 0x66, 0x66, 0x3C, 0x18, 0x00],
      [0xC6, 0xC6, 0xC6, 0xD6, 0xFE, 0xEE, 0xC6, 0x00],
      [0x66, 0x66, 0x3C, 0x18, 0x3C, 0x66, 0x66, 0x00],
      [0x66, 0x66, 0x66, 0x3C, 0x18, 0x18, 0x18, 0x00],
      [0x7E, 0x06, 0x0C, 0x18, 0x30, 0x60, 0x7E, 0x00],
      [0x7E, 0x60, 0x60, 0x60, 0x60, 0x60, 0x7E, 0x00],
      [0x80, 0xC0, 0x60, 0x30, 0x18, 0x0C, 0x06, 0x00],
      [0x7E, 0x06, 0x06, 0x06, 0x06, 0x06, 0x7E, 0x00],
      [0x18, 0x3C, 0x66, 0x00, 0x00, 0x00, 0x00, 0x00],
      [0x00, 0x00, 0x00, 0x00, 0x00, 0x00, 0x00, 0xFF],
      [0x18, 0x0C, 0x06, 0x00, 0x00, 0x00, 0x00, 0x00],
      [0x00, 0x00, 0x3C, 0x06, 0x3E, 0x66, 0x3E, 0x00],
      [0x60, 0x60, 0x7C, 0x66, 0x66, 0x66, 0x7C, 0x00],
      [0x00, 0x00, 0x3C, 0x60, 0x60, 0x60, 0x3C, 0x00],
      [0x06, 0x06, 0x3E, 0x66, 0x66, 0x66, 0x3E, 0x00],
      [0x00, 0x00, 0x3C, 0x66, 0x7E, 0x60, 0x3C, 0x00],
      [0x1C, 0x36, 0x30, 0x7C, 0x30, 0x30, 0x30, 0x00],
      [0x00, 0x00, 0x3E, 0x66, 0x66, 0x3E, 0x06, 0x3C],
      [0x60, 0x60, 0x7C, 0x66, 0x66, 0x66, 0x66, 0x00],
      [0x18, 0x00, 0x38, 0x18, 0x18, 0x18, 0x3C, 0x00],
      [0x06, 0x00, 0x0E, 0x06, 0x06, 0x66, 0x3C, 0x00],
      [0x60, 0x60, 0x6C, 0x78, 0x70, 0x78, 0x6C, 0x00],
      [0x38, 0x18, 0x18, 0x18, 0x18, 0x18, 0x3C, 0x00],
      [0x00, 0x00, 0xCC, 0xFE, 0xD6, 0xC6, 0xC6, 0x00],
      [0x00, 0x00, 0x7C, 0x66, 0x66, 0x66, 0x66, 0x00],
      [0x00, 0x00, 0x3C, 0x66, 0x66, 0x66, 0x3C, 0x00],
      [0x00, 0x00, 0x7C, 0x66, 0x66, 0x7C, 0x60, 0x60],
      [0x00, 0x00, 0x3E, 0x66, 0x66, 0x3E, 0x06, 0x06],
      [0x00, 0x00, 0x6C, 0x76, 0x60, 0x60, 0x60, 0x00],
      [0x00, 0x00, 0x3E, 0x60, 0x3C, 0x06, 0x7C, 0x00],
      [0x30, 0x30, 0x7E, 0x30, 0x30, 0x36, 0x1C, 0x00],
      [0x00, 0x00, 0x66, 0x66, 0x66, 0x66, 0x3E, 0x00],
      [0x00, 0x00, 0x66, 0x66, 0x66, 0x3C, 0x18, 0x00],
      [0x00, 0x00, 0xC6, 0xD6, 0xFE, 0xEE, 0xC6, 0x00],
      [0x00, 0x00, 0x66, 0x3C, 0x18, 0x3C, 0x66, 0x00],
      [0x00, 0x00, 0x66, 0x66, 0x66, 0x3C, 0x18, 0x00],
      [0x00, 0x00, 0x7E, 0x0C, 0x18, 0x30, 0x7E, 0x00],
      [0x0E, 0x18, 0x18, 0x60, 0x18, 0x18, 0x0E, 0x00],
      [0x18, 0x18, 0x18, 0x18, 0x18, 0x18, 0x18, 0x18],
      [0x70, 0x18, 0x18, 0x06, 0x18, 0x18, 0x70, 0x00],
      [0x76, 0xDC, 0x00, 0x00, 0x00, 0x00, 0x00, 0x00]]"

section \<open>UART\<close>

record 'h console =
  con_mem :: mem
  con_hw :: 'h
  kprintf_framebuffer :: u64
  kprintf_fb_width :: u32
  kprintf_fb_height :: u32
  kprintf_fb_pitch :: u32
  cursor_x :: u32
  cursor_y :: u32

abbreviation UART_DR :: u64 where "UART_DR \<equiv> 0x09000000"
abbreviation UART_FR :: u64 where "UART_FR \<equiv> 0x09000018"
abbreviation UART_IBRD :: u64 where "UART_IBRD \<equiv> 0x09000024"
abbreviation UART_FBRD :: u64 where "UART_FBRD \<equiv> 0x09000028"
abbreviation UART_LCRH :: u64 where "UART_LCRH \<equiv> 0x0900002C"
abbreviation UART_CR :: u64 where "UART_CR \<equiv> 0x09000030"
abbreviation UART_FR_TXFF :: u32 where "UART_FR_TXFF \<equiv> 0x20"

definition uart_write :: "'h hw \<Rightarrow> u64 \<Rightarrow> u32 \<Rightarrow> 'h console \<Rightarrow> 'h console" where
  "uart_write hw a v st =
     (let (m, h) = hw_write hw a v (con_mem st, con_hw st) in st\<lparr>con_mem := m, con_hw := h\<rparr>)"

definition uart_init :: "'h hw \<Rightarrow> 'h console \<Rightarrow> 'h console" where
  "uart_init hw st =
     (let st = uart_write hw UART_CR 0 st;
          st = uart_write hw UART_IBRD 13 st;
          st = uart_write hw UART_FBRD 1 st;
          st = uart_write hw UART_LCRH (push_bit 4 1 OR push_bit 5 0x3) st
      in uart_write hw UART_CR (push_bit 0 1 OR push_bit 8 1 OR push_bit 9 1) st)"

text \<open>\<open>while (*UART_FR & UART_FR_TXFF);\<close>\<close>

partial_function (option) uart_wait :: "'h hw \<Rightarrow> 'h \<Rightarrow> 'h option" where
  "uart_wait hw h =
     (if fst (hw_read hw UART_FR h) AND UART_FR_TXFF \<noteq> 0 then uart_wait hw (snd (hw_read hw UART_FR h))
      else Some (snd (hw_read hw UART_FR h)))"

definition uart_putc :: "'h hw \<Rightarrow> u8 \<Rightarrow> 'h console \<Rightarrow> 'h console option" where
  "uart_putc hw c st = do {
     h \<leftarrow> uart_wait hw (con_hw st);
     Some (uart_write hw UART_DR (ucast c) (st\<lparr>con_hw := h\<rparr>))
   }"

section \<open>Text output\<close>

text \<open>The body of the inner loop of \<open>kprintf_draw_char\<close>.\<close>

definition draw_pixel :: "u8 list \<Rightarrow> u32 \<Rightarrow> u32 \<Rightarrow> u32 \<Rightarrow> nat \<times> nat \<Rightarrow> 'h console \<Rightarrow> 'h console" where
  "draw_pixel glyph x y color rc st =
     (let (row, col) = rc; px = x + of_nat col; py = y + of_nat row
      in if glyph ! row AND drop_bit col 0x80 \<noteq> 0 \<and> px < kprintf_fb_width st \<and> py < kprintf_fb_height st
         then st\<lparr>con_mem := store32 (con_mem st)
                (kprintf_framebuffer st + 4 * ucast (py * (kprintf_fb_pitch st div 4) + px)) color\<rparr>
         else st)"

definition kprintf_draw_char :: "'h hw \<Rightarrow> u32 \<Rightarrow> u32 \<Rightarrow> u8 \<Rightarrow> u32 \<Rightarrow> 'h console \<Rightarrow> 'h console option" where
  "kprintf_draw_char hw x y c color st =
     (if kprintf_framebuffer st = 0 then uart_putc hw c st
      else if c < 32 \<or> c > 126 then Some st
      else Some (fold (draw_pixel (proggy_clean ! (unat c - 32)) x y color)
                   (List.product [0..<8] [0..<8]) st))"

definition kprintf_scroll :: "'h console \<Rightarrow> 'h console" where
  "kprintf_scroll st =
     (if kprintf_framebuffer st = 0 then st
      else (let fb = kprintf_framebuffer st; words = kprintf_fb_pitch st div 4;
                scroll_amount = FONT_HEIGHT * words;
                rest = (kprintf_fb_height st - FONT_HEIGHT) * words;
                m = memcpy (con_mem st) fb (fb + 4 * ucast scroll_amount) (ucast (rest * 4));
                m = memset m (fb + 4 * ucast rest) 0 (ucast (FONT_HEIGHT * words * 4))
            in st\<lparr>con_mem := m\<rparr>))"

definition kprintf_init :: "u64 \<Rightarrow> u32 \<Rightarrow> u32 \<Rightarrow> u32 \<Rightarrow> 'h console \<Rightarrow> 'h console" where
  "kprintf_init fb width height pitch st =
     st\<lparr>kprintf_framebuffer := fb, kprintf_fb_width := width, kprintf_fb_height := height,
        kprintf_fb_pitch := pitch, cursor_x := 0, cursor_y := 0\<rparr>"

text \<open>The two tests at the end of the loop body.\<close>

definition advance :: "'h console \<Rightarrow> 'h console" where
  "advance st =
     (let st = (if cursor_x st + FONT_WIDTH > kprintf_fb_width st
                then st\<lparr>cursor_x := 0, cursor_y := cursor_y st + FONT_HEIGHT\<rparr> else st)
      in if cursor_y st + FONT_HEIGHT > kprintf_fb_height st
         then (let st = kprintf_scroll st in st\<lparr>cursor_y := cursor_y st - FONT_HEIGHT\<rparr>) else st)"

text \<open>The body of the loop of \<open>kprintf_varg\<close>.\<close>

definition put_char :: "'h hw \<Rightarrow> u8 \<Rightarrow> 'h console \<Rightarrow> 'h console option" where
  "put_char hw c st =
     (if kprintf_framebuffer st = 0
      then do {
        st \<leftarrow> uart_putc hw c st;
        if c = 10 then uart_putc hw 13 st else Some st
      }
      else do {
        st \<leftarrow> (if c = 10 then Some (st\<lparr>cursor_x := 0, cursor_y := cursor_y st + FONT_HEIGHT\<rparr>)
               else do {
                 st \<leftarrow> kprintf_draw_char hw (cursor_x st) (cursor_y st) c 0xFFFFFFFF st;
                 Some (st\<lparr>cursor_x := cursor_x st + FONT_WIDTH\<rparr>)
               });
        Some (advance st)
      })"

partial_function (option) print_loop :: "'h hw \<Rightarrow> u64 \<Rightarrow> 'h console \<Rightarrow> 'h console option" where
  "print_loop hw p st =
     (if con_mem st p \<noteq> 0 then do { st \<leftarrow> put_char hw (con_mem st p) st; print_loop hw (p + 1) st } else Some st)"

definition kprintf_varg :: "'h hw \<Rightarrow> u64 \<Rightarrow> u64 \<Rightarrow> u64 list \<Rightarrow> 'h console \<Rightarrow> 'h console option" where
  "kprintf_varg hw buffer fmt args st = do {
     (r, m) \<leftarrow> vsnprintf (con_mem st) buffer 256 fmt args;
     print_loop hw buffer (st\<lparr>con_mem := m\<rparr>)
   }"

definition kprintf :: "'h hw \<Rightarrow> u64 \<Rightarrow> u64 \<Rightarrow> u64 list \<Rightarrow> 'h console \<Rightarrow> 'h console option" where
  "kprintf hw buffer fmt args st = kprintf_varg hw buffer fmt args st"

section \<open>The framebuffer\<close>

text \<open>A framebuffer of at least one character whose rows are as long as the pitch says.\<close>

definition console_ok :: "'h console \<Rightarrow> bool" where
  "console_ok st \<longleftrightarrow> kprintf_framebuffer st \<noteq> 0 \<and> 8 \<le> unat (kprintf_fb_width st) \<and> 8 \<le> unat (kprintf_fb_height st) \<and>
     4 * unat (kprintf_fb_width st) \<le> unat (kprintf_fb_pitch st) \<and>
     unat (kprintf_fb_height st) * unat (kprintf_fb_pitch st) < 2 ^ 32 \<and>
     unat (cursor_x st) + 8 \<le> unat (kprintf_fb_width st) \<and> unat (cursor_y st) + 8 \<le> unat (kprintf_fb_height st)"

definition fb_bytes :: "'h console \<Rightarrow> nat" where
  "fb_bytes st = unat (kprintf_fb_height st) * unat (kprintf_fb_pitch st)"

text \<open>Only bytes of the framebuffer change, and not its geometry.\<close>

definition draws :: "'h console \<Rightarrow> 'h console \<Rightarrow> bool" where
  "draws st st' \<longleftrightarrow> (\<exists>m. st' = st\<lparr>con_mem := m\<rparr> \<and>
     (\<forall>x. x \<notin> region (kprintf_framebuffer st) (fb_bytes st) \<longrightarrow> m x = con_mem st x))"

lemma draws_refl: "draws st st"
proof -
  have "st\<lparr>con_mem := con_mem st\<rparr> = st" by (cases st) simp
  then show ?thesis unfolding draws_def by (intro exI [of _ "con_mem st"]) simp
qed

lemma draws_trans: "draws st st1 \<Longrightarrow> draws st1 st2 \<Longrightarrow> draws st st2"
  by (auto simp: draws_def fb_bytes_def)

lemma draws_ok: "draws st st' \<Longrightarrow> console_ok st' = console_ok st"
  by (auto simp: draws_def console_ok_def)

lemma region_sub: "k + n \<le> N \<Longrightarrow> N \<le> 2 ^ 64 \<Longrightarrow> region (a + of_nat k) n \<subseteq> region a N"
proof
  fix x assume h: "k + n \<le> N" "N \<le> 2 ^ 64" "x \<in> region (a + of_nat k) n"
  then obtain i where i: "i < n" "x = a + of_nat k + of_nat i" by (elim regionE)
  then have "x = a + of_nat (k + i)" by (simp add: add.assoc)
  then show "x \<in> region a N" using h i(1) region_offset [of "k + i" N a] by simp
qed

lemma draws_write:
  assumes "fb_bytes st \<le> 2 ^ 64" and "k + length bs \<le> fb_bytes st"
    and "m = write_bytes (con_mem st) (kprintf_framebuffer st + of_nat k) bs"
  shows "draws st (st\<lparr>con_mem := m\<rparr>)"
  using region_sub [OF assms(2,1), of "kprintf_framebuffer st"] assms(3)
  by (auto simp: draws_def intro!: write_bytes_frame)

text \<open>The arithmetic of the positions does not wrap.\<close>

lemma pitch_words:
  fixes pitch :: u32
  shows "unat (pitch div 4) = unat pitch div 4" "4 * (unat pitch div 4) \<le> unat pitch"
  by (simp_all add: unat_div_distrib)

lemma row_bytes: "4 * (h * (p div 4)) \<le> h * (p :: nat)"
  using mult_le_mono2 [of "4 * (p div 4)" p h] by (simp add: algebra_simps)

lemma unat_mult32: "unat a * unat b < 2 ^ 32 \<Longrightarrow> unat (a * b :: u32) = unat a * unat b"
  by (simp add: unat_word_ariths)

lemma unat_ucast64: "unat (ucast (w :: u32) :: u64) = unat w"
proof -
  have "unat w < 2 ^ LENGTH(32)" by (rule unsigned_less)
  then have "unat w < 2 ^ 64" by simp
  then show ?thesis by (simp add: unsigned_ucast_eq take_bit_nat_eq_self)
qed

lemma ucast_offset: "4 * ucast (w :: u32) = (of_nat (4 * unat w) :: u64)"
  by simp

lemma draw_pixel_draws:
  assumes "console_ok st"
  shows "draws st (draw_pixel glyph x y color rc st)"
proof -
  obtain row col where rc: "rc = (row, col)" by (cases rc)
  let ?px = "x + of_nat col" and ?py = "y + of_nat row" and ?P = "kprintf_fb_pitch st div 4"
  show ?thesis
  proof (cases "glyph ! row AND drop_bit col 0x80 \<noteq> 0 \<and> ?px < kprintf_fb_width st \<and> ?py < kprintf_fb_height st")
    case False
    then show ?thesis using draws_refl by (auto simp: draw_pixel_def rc Let_def)
  next
    case True
    let ?H = "unat (kprintf_fb_height st)" and ?p = "unat (kprintf_fb_pitch st) div 4"
    have lt: "unat ?px < unat (kprintf_fb_width st)" "unat ?py < ?H" using True by (simp_all add: word_less_nat_alt)
    have g: "4 * unat (kprintf_fb_width st) \<le> unat (kprintf_fb_pitch st)" "fb_bytes st < 2 ^ 32"
      using assms by (simp_all add: console_ok_def fb_bytes_def)
    then have px: "unat ?px < ?p" using lt(1) by simp
    have "Suc (unat ?py) * ?p \<le> ?H * ?p" using lt(2) by (intro mult_le_mono1) simp
    then have idx: "unat ?py * ?p + unat ?px < ?H * ?p" using px by simp
    have fb: "4 * (?H * ?p) \<le> fb_bytes st" unfolding fb_bytes_def by (rule row_bytes)
    have small: "unat ?py * ?p + unat ?px < 2 ^ 32" using idx fb g(2) by linarith
    then have "unat (?py * ?P) = unat ?py * ?p" using pitch_words(1) by (subst unat_mult32) simp_all
    then have i: "unat (?py * ?P + ?px) = unat ?py * ?p + unat ?px" using small by (simp add: unat_word_ariths)
    have "i < n \<Longrightarrow> 4 * n \<le> N \<Longrightarrow> 4 * i + 4 \<le> N" for i n N :: nat by linarith
    from this [OF idx fb] have "4 * unat (?py * ?P + ?px) + 4 \<le> fb_bytes st" unfolding i .
    then have "draws st (st\<lparr>con_mem := store32 (con_mem st) (kprintf_framebuffer st + of_nat (4 * unat (?py * ?P + ?px))) color\<rparr>)"
      using g(2) by (intro draws_write [of st "4 * unat (?py * ?P + ?px)" "le_bytes 4 color"]) (simp_all add: store32_def)
    then show ?thesis using True by (simp add: draw_pixel_def rc Let_def)
  qed
qed

lemma draw_fold_draws:
  assumes "console_ok st"
  shows "draws st (fold (draw_pixel glyph x y color) ps st)"
  using assms
proof (induction ps arbitrary: st)
  case Nil
  then show ?case by (simp add: draws_refl)
next
  case (Cons p ps)
  have d: "draws st (draw_pixel glyph x y color p st)" using Cons.prems by (rule draw_pixel_draws)
  then have "console_ok (draw_pixel glyph x y color p st)" using draws_ok Cons.prems by metis
  from draws_trans [OF d Cons.IH [OF this]] show ?case by simp
qed

lemma scroll_draws:
  assumes "console_ok st"
  shows "draws st (kprintf_scroll st)"
proof -
  let ?fb = "kprintf_framebuffer st" and ?P = "kprintf_fb_pitch st div 4" and ?H = "unat (kprintf_fb_height st)"
  let ?p = "unat (kprintf_fb_pitch st) div 4" and ?rest = "(kprintf_fb_height st - FONT_HEIGHT) * ?P"
  have g: "8 \<le> ?H" "fb_bytes st < 2 ^ 32" "?fb \<noteq> 0" using assms by (simp_all add: console_ok_def fb_bytes_def)
  have fb: "4 * (?H * ?p) \<le> fb_bytes st" unfolding fb_bytes_def by (rule row_bytes)
  have split: "?H * ?p = (?H - 8) * ?p + 8 * ?p" using g(1) by (metis add_mult_distrib le_add_diff_inverse2)
  have h8: "unat (kprintf_fb_height st - 8) = ?H - 8" using g(1) by (simp add: unat_sub word_le_nat_alt)
  have b: "4 * ((?H - 8) * ?p) < 2 ^ 32" "4 * (8 * ?p) < 2 ^ 32" using fb split g(2) by linarith+
  have b': "(?H - 8) * ?p < 2 ^ 32" "8 * ?p < 2 ^ 32" using b by linarith+
  have rest: "unat ?rest = (?H - 8) * ?p"
    using b'(1) unat_mult32 [of "kprintf_fb_height st - 8" ?P] unfolding h8 pitch_words(1) by simp
  have am: "unat (FONT_HEIGHT * ?P) = 8 * ?p" using b(2) pitch_words(1) by (subst unat_mult32) simp_all
  have rest4: "unat (?rest * 4) = 4 * ((?H - 8) * ?p)" using b(1) rest by (subst unat_mult32) simp_all
  have am4: "unat (FONT_HEIGHT * ?P * 4) = 4 * (8 * ?p)" using b(2) am by (subst unat_mult32) simp_all
  let ?n = "ucast (?rest * 4) :: u64" and ?src = "?fb + 4 * ucast (FONT_HEIGHT * ?P)"
  have n: "unat ?n = 4 * ((?H - 8) * ?p)" unfolding unat_ucast64 by (rule rest4)
  have d: "?fb - ?src = - of_nat (4 * (8 * ?p))" unfolding ucast_offset am by simp
  have "?fb = ?src \<or> unat ?n \<le> unat (?fb - ?src)"
  proof (cases "?p = 0")
    case True
    then show ?thesis using n by simp
  next
    case False
    have "unat (of_nat (4 * (8 * ?p)) :: u64) = 4 * (8 * ?p)" using b(2) by (intro unat_of_nat64) simp
    moreover from this False have "(of_nat (4 * (8 * ?p)) :: u64) \<noteq> 0" by auto
    ultimately have "unat (?fb - ?src) = 2 ^ 64 - 4 * (8 * ?p)"
      unfolding d using unat_sub_if' [of 0 "of_nat (4 * (8 * ?p)) :: u64"] False by simp
    moreover have "4 * a < 2 ^ 32 \<Longrightarrow> 4 * c < 2 ^ 32 \<Longrightarrow> 4 * a \<le> 2 ^ 64 - 4 * c" for a c :: nat by simp
    ultimately show ?thesis using b unfolding n by metis
  qed
  then have mc: "memcpy (con_mem st) ?fb ?src ?n = write_bytes (con_mem st) (?fb + of_nat 0) (read_bytes (con_mem st) ?src (unat ?n))"
    using memcpy_eq by simp
  let ?st1 = "st\<lparr>con_mem := memcpy (con_mem st) ?fb ?src ?n\<rparr>"
  have d1: "draws st ?st1"
    using g(2) fb split n by (intro draws_write [OF _ _ mc]) simp_all
  let ?k = "ucast (FONT_HEIGHT * ?P * 4) :: u64"
  have k: "unat ?k = 4 * (8 * ?p)" unfolding unat_ucast64 by (rule am4)
  have ms: "memset (con_mem ?st1) (?fb + 4 * ucast ?rest) 0 ?k =
      write_bytes (con_mem ?st1) (kprintf_framebuffer ?st1 + of_nat (4 * ((?H - 8) * ?p))) (replicate (unat ?k) 0)"
    unfolding memset_eq ucast_offset rest by simp
  have "draws ?st1 (?st1\<lparr>con_mem := memset (con_mem ?st1) (?fb + 4 * ucast ?rest) 0 ?k\<rparr>)"
    using g(2) fb split k by (intro draws_write [OF _ _ ms]) (simp_all add: fb_bytes_def)
  from draws_trans [OF d1 this] show ?thesis using g(3) by (simp add: kprintf_scroll_def Let_def)
qed


lemma draw_char_draws:
  assumes "console_ok st"
  obtains st' where "kprintf_draw_char hw x y c color st = Some st'" and "draws st st'"
proof -
  have "kprintf_framebuffer st \<noteq> 0" using assms by (simp add: console_ok_def)
  then show thesis using draw_fold_draws [OF assms] draws_refl
    by (cases "c < 32 \<or> c > 126") (auto intro!: that simp: kprintf_draw_char_def)
qed

text \<open>What a character may change: pixels and the cursor.\<close>

definition prints :: "'h console \<Rightarrow> 'h console \<Rightarrow> bool" where
  "prints st st' \<longleftrightarrow> (\<exists>m cx cy. st' = st\<lparr>con_mem := m, cursor_x := cx, cursor_y := cy\<rparr> \<and>
     (\<forall>x. x \<notin> region (kprintf_framebuffer st) (fb_bytes st) \<longrightarrow> m x = con_mem st x))"

lemma prints_trans: "prints st st1 \<Longrightarrow> prints st1 st2 \<Longrightarrow> prints st st2"
proof -
  assume "prints st st1" "prints st1 st2"
  then obtain m cx cy m' cx' cy' where e: "st1 = st\<lparr>con_mem := m, cursor_x := cx, cursor_y := cy\<rparr>"
    "\<forall>x. x \<notin> region (kprintf_framebuffer st) (fb_bytes st) \<longrightarrow> m x = con_mem st x"
    "st2 = st1\<lparr>con_mem := m', cursor_x := cx', cursor_y := cy'\<rparr>"
    "\<forall>x. x \<notin> region (kprintf_framebuffer st1) (fb_bytes st1) \<longrightarrow> m' x = con_mem st1 x"
    by (auto simp: prints_def)
  then show "prints st st2" unfolding prints_def
    by (intro exI [of _ m'] exI [of _ cx'] exI [of _ cy']) (simp add: fb_bytes_def)
qed

lemma prints_refl: "prints st st"
proof -
  have "st\<lparr>con_mem := con_mem st, cursor_x := cursor_x st, cursor_y := cursor_y st\<rparr> = st" by (cases st) simp
  then show ?thesis unfolding prints_def
    by (intro exI [of _ "con_mem st"] exI [of _ "cursor_x st"] exI [of _ "cursor_y st"]) simp
qed

lemma draws_prints:
  assumes "draws st st'"
  shows "prints st (st'\<lparr>cursor_x := cx, cursor_y := cy\<rparr>)"
proof -
  from assms obtain m where m: "st' = st\<lparr>con_mem := m\<rparr>" "\<forall>x. x \<notin> region (kprintf_framebuffer st) (fb_bytes st) \<longrightarrow> m x = con_mem st x"
    by (auto simp: draws_def)
  then show ?thesis unfolding prints_def by (intro exI [of _ m] exI [of _ cx] exI [of _ cy]) simp
qed

lemma draws_imp_prints: "draws st st' \<Longrightarrow> prints st st'"
proof -
  assume d: "draws st st'"
  have "st'\<lparr>cursor_x := cursor_x st', cursor_y := cursor_y st'\<rparr> = st'" by (cases st') simp
  with draws_prints [OF d] show ?thesis by metis
qed

lemma cursor_add: "unat (c :: u32) + 8 \<le> unat (w :: u32) \<Longrightarrow> unat (c + 8) = unat c + 8"
proof -
  assume a: "unat c + 8 \<le> unat w"
  have "unat w < 2 ^ LENGTH(32)" by (rule unsigned_less)
  then have "unat c + 8 < 2 ^ 32" using a by simp
  then show ?thesis by (simp add: unat_word_ariths)
qed

lemma put_char_framebuffer:
  "kprintf_framebuffer st \<noteq> 0 \<Longrightarrow> put_char hw c st =
     (if c = 10 then Some (advance (st\<lparr>cursor_x := 0, cursor_y := cursor_y st + FONT_HEIGHT\<rparr>))
      else do { st \<leftarrow> kprintf_draw_char hw (cursor_x st) (cursor_y st) c 0xFFFFFFFF st;
                Some (advance (st\<lparr>cursor_x := cursor_x st + FONT_WIDTH\<rparr>)) })"
  by (simp add: put_char_def)

text \<open>The cursor, as numbers: either it stays on the line or it is at the start of the next one.\<close>

text \<open>The sizes of the screen stay clear of the end of the 32-bit range.\<close>

lemma console_bounds:
  assumes "console_ok st"
  shows "unat (kprintf_fb_width st) + 8 < 2 ^ 32" and "unat (kprintf_fb_height st) + 8 < 2 ^ 32"
proof -
  have w8: "8 \<le> unat (kprintf_fb_width st)" and h8: "8 \<le> unat (kprintf_fb_height st)"
    and wp: "4 * unat (kprintf_fb_width st) \<le> unat (kprintf_fb_pitch st)"
    and hp: "unat (kprintf_fb_height st) * unat (kprintf_fb_pitch st) < 2 ^ 32"
    using assms by (simp_all add: console_ok_def)
  have small: "32 * a \<le> x \<Longrightarrow> x < 2 ^ 32 \<Longrightarrow> a + 8 < 2 ^ 32" for a x :: nat by simp
  have "8 * (4 * unat (kprintf_fb_width st)) \<le> unat (kprintf_fb_height st) * unat (kprintf_fb_pitch st)"
    using h8 wp by (intro mult_le_mono)
  then show "unat (kprintf_fb_width st) + 8 < 2 ^ 32" using hp by (intro small) simp_all
  have "unat (kprintf_fb_height st) * 32 \<le> unat (kprintf_fb_height st) * unat (kprintf_fb_pitch st)"
    using w8 wp by (intro mult_le_mono2) linarith
  then show "unat (kprintf_fb_height st) + 8 < 2 ^ 32" using hp by (intro small) simp_all
qed

text \<open>The test for the end of the line leaves the cursor on line \<open>y\<close> or the one below.\<close>

lemma wrap_line:
  assumes pos: "cursor_y st = y \<and> unat (cursor_x st) \<le> unat (kprintf_fb_width st) \<or> cursor_y st = y + 8 \<and> cursor_x st = 0"
    and w: "8 \<le> unat (kprintf_fb_width st)" "unat (kprintf_fb_width st) + 8 < 2 ^ 32"
  obtains cx' cy' where "(if cursor_x st + 8 > kprintf_fb_width st then st\<lparr>cursor_x := 0, cursor_y := cursor_y st + 8\<rparr> else st) =
      st\<lparr>cursor_x := cx', cursor_y := cy'\<rparr>"
    and "unat cx' + 8 \<le> unat (kprintf_fb_width st)" and "cy' = y \<or> cy' = y + 8"
proof (cases "cursor_x st + 8 > kprintf_fb_width st")
  case True
  have "unat (cursor_x st + 8) = unat (cursor_x st) + 8" using pos w(2) by (auto simp: unat_word_ariths)
  then have "cursor_x st \<noteq> 0" using True w(1) by (auto simp: word_less_nat_alt)
  then have "cursor_y st = y" using pos by simp
  then show thesis using True w(1) by (intro that [where cx' = 0 and cy' = "y + 8"]) simp_all
next
  case False
  have "unat (cursor_x st + 8) = unat (cursor_x st) + 8" using pos w(2) by (auto simp: unat_word_ariths)
  moreover have "st\<lparr>cursor_x := cursor_x st, cursor_y := cursor_y st\<rparr> = st" by (cases st) simp
  ultimately show thesis
    using False pos by (intro that [where cx' = "cursor_x st" and cy' = "cursor_y st"]) (auto simp: word_less_nat_alt)
qed

lemma advance_ok:
  assumes ok: "console_ok (st\<lparr>cursor_x := 0, cursor_y := y\<rparr>)"
    and pos: "cursor_y st = y \<and> unat (cursor_x st) \<le> unat (kprintf_fb_width st) \<or> cursor_y st = y + 8 \<and> cursor_x st = 0"
  shows "console_ok (advance st) \<and> prints st (advance st)"
proof -
  have h: "unat y + 8 \<le> unat (kprintf_fb_height st)" and w8: "8 \<le> unat (kprintf_fb_width st)"
    using ok by (simp_all add: console_ok_def)
  have y8: "unat (y + 8) = unat y + 8" using cursor_add [OF h] .
  have wb: "unat (kprintf_fb_width st) + 8 < 2 ^ 32" and hb: "unat (kprintf_fb_height st) + 8 < 2 ^ 32"
    using console_bounds [OF ok] by simp_all
  have base: "console_ok (st\<lparr>cursor_x := cx, cursor_y := cy\<rparr>)"
    if "unat cx + 8 \<le> unat (kprintf_fb_width st)" "unat cy + 8 \<le> unat (kprintf_fb_height st)" for cx cy
    using ok that by (simp add: console_ok_def)
  text \<open>Below the first test the line is \<open>y\<close> or \<open>y + 8\<close>.\<close>
  let ?t = "if cursor_x st + 8 > kprintf_fb_width st then st\<lparr>cursor_x := 0, cursor_y := cursor_y st + 8\<rparr> else st"
  obtain cx' cy' where t: "?t = st\<lparr>cursor_x := cx', cursor_y := cy'\<rparr>" "unat cx' + 8 \<le> unat (kprintf_fb_width st)" "cy' = y \<or> cy' = y + 8"
    by (rule wrap_line [OF pos w8 wb])
  have adv: "advance st = (if cursor_y ?t + 8 > kprintf_fb_height ?t
      then (kprintf_scroll ?t)\<lparr>cursor_y := cursor_y (kprintf_scroll ?t) - 8\<rparr> else ?t)"
    unfolding advance_def Let_def by simp
  let ?s = "st\<lparr>cursor_x := cx', cursor_y := cy'\<rparr>"
  have pr: "prints st ?s" using draws_prints [OF draws_refl] .
  have cy8: "unat (cy' + 8) = unat cy' + 8" using t(3) y8 h hb by (auto simp: unat_word_ariths)
  show ?thesis
  proof (cases "cy' + 8 > kprintf_fb_height st")
    case False
    then have "unat cy' + 8 \<le> unat (kprintf_fb_height st)" using cy8 by (simp add: word_less_nat_alt)
    then have "console_ok ?s" using base t(2) by blast
    then show ?thesis unfolding adv t(1) using False pr by simp
  next
    case True
    then have cy: "cy' = y + 8" using t(3) h y8 by (auto simp: word_less_nat_alt)
    have oks: "console_ok (st\<lparr>cursor_x := cx', cursor_y := y\<rparr>)" using base t(2) h by blast
    have sc: "kprintf_scroll ?s = (kprintf_scroll (st\<lparr>cursor_x := cx', cursor_y := y\<rparr>))\<lparr>cursor_y := cy'\<rparr>"
      by (simp add: kprintf_scroll_def Let_def)
    have d: "draws (st\<lparr>cursor_x := cx', cursor_y := y\<rparr>) (kprintf_scroll (st\<lparr>cursor_x := cx', cursor_y := y\<rparr>))"
      using scroll_draws [OF oks] .
    then obtain m where m: "kprintf_scroll (st\<lparr>cursor_x := cx', cursor_y := y\<rparr>) = st\<lparr>cursor_x := cx', cursor_y := y, con_mem := m\<rparr>"
      by (auto simp: draws_def)
    have "advance st = kprintf_scroll (st\<lparr>cursor_x := cx', cursor_y := y\<rparr>)"
      unfolding adv t(1) using True by (simp add: sc m) (simp add: cy)
    moreover have "prints st (kprintf_scroll (st\<lparr>cursor_x := cx', cursor_y := y\<rparr>))"
      by (rule prints_trans [OF draws_prints [OF draws_refl] draws_imp_prints [OF d]])
    ultimately show ?thesis using draws_ok [OF d] oks by simp
  qed
qed


lemma put_char_ok:
  assumes "console_ok st"
  obtains st' where "put_char hw c st = Some st'" and "console_ok st'" and "prints st st'"
proof -
  have fb: "kprintf_framebuffer st \<noteq> 0" and cx: "unat (cursor_x st) + 8 \<le> unat (kprintf_fb_width st)"
    using assms by (simp_all add: console_ok_def)
  have home: "console_ok (t\<lparr>cursor_x := 0, cursor_y := cursor_y t\<rparr>)" if "console_ok t" for t
    using that by (simp add: console_ok_def)
  show thesis
  proof (cases "c = 10")
    case True
    let ?s = "st\<lparr>cursor_x := 0, cursor_y := cursor_y st + 8\<rparr>"
    have "console_ok (?s\<lparr>cursor_x := 0, cursor_y := cursor_y st\<rparr>)" using home [OF assms] by simp
    then have "console_ok (advance ?s) \<and> prints ?s (advance ?s)" by (rule advance_ok) simp
    moreover have "prints st ?s" using draws_prints [OF draws_refl] .
    ultimately show thesis using True fb prints_trans
      by (intro that [of "advance ?s"]) (auto simp: put_char_framebuffer)
  next
    case False
    from draw_char_draws [OF assms] obtain t where t: "kprintf_draw_char hw (cursor_x st) (cursor_y st) c 0xFFFFFFFF st = Some t" "draws st t"
      by metis
    then obtain m where m: "t = st\<lparr>con_mem := m\<rparr>" by (auto simp: draws_def)
    let ?s = "t\<lparr>cursor_x := cursor_x t + 8\<rparr>"
    have okt: "console_ok t" using draws_ok [OF t(2)] assms by simp
    have "unat (cursor_x t + 8) = unat (cursor_x t) + 8" using cursor_add [OF cx] m by simp
    then have "console_ok (advance ?s) \<and> prints ?s (advance ?s)"
      using home [OF okt] cx m by (intro advance_ok [where y = "cursor_y t"]) simp_all
    moreover have e: "?s = t\<lparr>cursor_x := cursor_x t + 8, cursor_y := cursor_y t\<rparr>" by (cases t) simp
    have "prints st ?s" by (subst e) (rule draws_prints [OF t(2)])
    ultimately show thesis using False fb t(1) prints_trans
      by (intro that [of "advance ?s"]) (auto simp: put_char_framebuffer)
  qed
qed

lemma print_loop_ok:
  assumes "console_ok st" and "region buf 256 \<inter> region (kprintf_framebuffer st) (fb_bytes st) = {}"
    and "con_mem st (buf + of_nat k) = 0" and "i \<le> k" and "k < 256"
  shows "\<exists>st'. print_loop hw (buf + of_nat i) st = Some st' \<and> console_ok st' \<and> prints st st'"
  using assms
proof (induction "k - i" arbitrary: i st rule: less_induct)
  case less
  let ?p = "buf + of_nat i"
  show ?case
  proof (cases "con_mem st ?p = 0")
    case True
    then show ?thesis using less.prems(1) prints_refl by (subst print_loop.simps) simp
  next
    case False
    then have lt: "i < k" using less.prems(3,4) by (cases "i = k") auto
    from less.prems(1) obtain t where t: "put_char hw (con_mem st ?p) st = Some t" "console_ok t" "prints st t"
      by (rule put_char_ok)
    have geo: "kprintf_framebuffer t = kprintf_framebuffer st" "fb_bytes t = fb_bytes st"
      using t(3) by (auto simp: prints_def fb_bytes_def)
    have "buf + of_nat k \<in> region buf 256" using less.prems(5) by (intro region_offset) simp_all
    then have "con_mem t (buf + of_nat k) = 0" using t(3) less.prems(2,3) by (auto simp: prints_def)
    then have "\<exists>st'. print_loop hw (buf + of_nat (Suc i)) t = Some st' \<and> console_ok st' \<and> prints t st'"
      using t(2) geo lt less.prems(2,5) by (intro less.hyps) simp_all
    then show ?thesis using False t prints_trans by (subst print_loop.simps) (auto simp: add_ac)
  qed
qed

section \<open>Properties\<close>

text \<open>C32: \<open>kprintf\<close> on a framebuffer returns, sends nothing to the UART, writes nothing outside the framebuffer and its
  own 256-byte buffer, keeps the geometry, and leaves the cursor where a whole character fits on the screen,
  so that text of any length and any number of lines is safe.\<close>

theorem kprintf_stays_in_framebuffer:
  assumes "console_ok st" and "expand strs f args = Some out" and "readable (con_mem st) buffer 256 fmt f"
    and "\<And>a s. strs a = Some s \<Longrightarrow> readable (con_mem st) buffer 256 a s"
    and "region buffer 256 \<inter> region (kprintf_framebuffer st) (fb_bytes st) = {}"
  shows "\<exists>st'. kprintf hw buffer fmt args st = Some st' \<and> console_ok st' \<and> con_hw st' = con_hw st \<and>
    kprintf_framebuffer st' = kprintf_framebuffer st \<and> fb_bytes st' = fb_bytes st \<and>
    (\<forall>x. x \<notin> region (kprintf_framebuffer st) (fb_bytes st) \<union> region buffer 256 \<longrightarrow> con_mem st' x = con_mem st x)"
proof -
  have u: "unat (256 :: u64) = 256" by simp
  have sz: "unat (256 :: u64) < 2 ^ 31" "(256 :: u64) \<noteq> 0" by simp_all
  from vsnprintf_ok [OF assms(2), of "con_mem st" buffer 256 fmt, unfolded u, OF assms(3)] assms(4) sz
  obtain r m where v: "vsnprintf (con_mem st) buffer 256 fmt args = Some (r, m)"
    "\<forall>x. x \<notin> region buffer 256 \<longrightarrow> m x = con_mem st x"
    "m (buffer + of_nat (min (length out) (256 - 1))) = 0"
    by (fastforce simp: Let_def u)
  let ?st = "st\<lparr>con_mem := m\<rparr>"
  have "\<exists>st'. print_loop hw (buffer + of_nat 0) ?st = Some st' \<and> console_ok st' \<and> prints ?st st'"
    using assms(1,5) v(3)
    by (intro print_loop_ok [where k = "min (length out) (256 - 1)"]) (simp_all add: console_ok_def fb_bytes_def)
  then obtain st' where p: "print_loop hw buffer ?st = Some st'" "console_ok st'" "prints ?st st'" by auto
  then have "con_mem st' x = con_mem st x"
    if "x \<notin> region (kprintf_framebuffer st) (fb_bytes st) \<union> region buffer 256" for x
    using that v(2) by (auto simp: prints_def fb_bytes_def)
  moreover have "con_hw st' = con_hw st" "kprintf_framebuffer st' = kprintf_framebuffer st" "fb_bytes st' = fb_bytes st"
    using p(3) by (auto simp: prints_def fb_bytes_def)
  ultimately show ?thesis using p v(1) by (simp add: kprintf_def kprintf_varg_def)
qed

theorem kprintf_stays_in_framebuffer_witness:
  "\<exists>st'. kprintf ufs_controller 0 0x1000 [] \<lparr>con_mem = (\<lambda>_. 0), con_hw = hw_state (sample_bdev True), kprintf_framebuffer = 0x40000000,
     kprintf_fb_width = 640, kprintf_fb_height = 480, kprintf_fb_pitch = 2560, cursor_x = 0, cursor_y = 0\<rparr> = Some st' \<and> console_ok st'"
proof -
  let ?st = "\<lparr>con_mem = (\<lambda>_. 0), con_hw = hw_state (sample_bdev True), kprintf_framebuffer = 0x40000000,
     kprintf_fb_width = 640, kprintf_fb_height = 480, kprintf_fb_pitch = 2560, cursor_x = 0, cursor_y = 0\<rparr>"
  have "console_ok ?st" by (simp add: console_ok_def)
  moreover have "expand (\<lambda>_. None) [] [] = Some []" by simp
  moreover have "readable (con_mem ?st) 0 256 0x1000 []" by (simp add: readable_def region_def)
  moreover have "region 0 256 \<inter> region (kprintf_framebuffer ?st) (fb_bytes ?st) = {}"
    using region_apart [of 256 "0x40000000" 0 1228800 0] by (simp add: fb_bytes_def)
  ultimately show ?thesis using kprintf_stays_in_framebuffer [of ?st "\<lambda>_. None" "[]" "[]" "[]" 0 "0x1000" ufs_controller] by auto
qed

end
