(* ===== verification/Serial.thy ===== *)
theory Serial
  imports Console
begin

text \<open>
  Text output before there is a framebuffer: the console of \<^verbatim>\<open>src/kern/debug/kprintf.c\<close> on the UART of
  \<^verbatim>\<open>src/kern/lib/lib.c\<close>.  The locale \<open>uart_hardware\<close> states what the code relies on in the PL011: it transmits
  once the control register has \<open>UARTEN\<close> (bit 0) and \<open>TXE\<close> (bit 8); while it transmits the transmitter is full
  only for some number of reads and a byte written to the data register is sent, while it does not
  nothing is sent; and no register access touches the memory.
\<close>

section \<open>The UART\<close>

locale uart_hardware =
  fixes hw :: "'h hw"
    and enabled :: "'h \<Rightarrow> bool"
    and sent :: "'h \<Rightarrow> u8 list"
    and backlog :: "'h \<Rightarrow> nat"
  assumes status_read: "hw_read hw UART_FR h = (v, h') \<Longrightarrow>
      sent h' = sent h \<and> enabled h' = enabled h \<and> (enabled h \<longrightarrow> v AND UART_FR_TXFF \<noteq> 0 \<longrightarrow> backlog h' < backlog h)"
    and data_write: "hw_write hw UART_DR v (m, h) = (m', h') \<Longrightarrow>
      m' = m \<and> enabled h' = enabled h \<and> sent h' = (if enabled h then sent h @ [ucast v] else sent h)"
    and line_write: "a \<in> {UART_IBRD, UART_FBRD, UART_LCRH} \<Longrightarrow> hw_write hw a v (m, h) = (m', h') \<Longrightarrow>
      m' = m \<and> enabled h' = enabled h \<and> sent h' = sent h"
    and control_write: "hw_write hw UART_CR v (m, h) = (m', h') \<Longrightarrow>
      m' = m \<and> enabled h' = (bit v 0 \<and> bit v 8) \<and> sent h' = sent h"

text \<open>A UART with a control register that sends at once when it is enabled.\<close>

definition uart_on :: "u32 \<times> u8 list \<Rightarrow> bool" where
  "uart_on h = (bit (fst h) 0 \<and> bit (fst h) 8)"

definition simple_uart :: "(u32 \<times> u8 list) hw" where
  "simple_uart = \<lparr>hw_read = (\<lambda>a h. (0, h)),
     hw_write = (\<lambda>a v (m, h). (m, if a = UART_DR \<and> uart_on h then (fst h, snd h @ [ucast v])
       else if a = UART_CR then (v, snd h) else h))\<rparr>"

interpretation simple_uart: uart_hardware simple_uart uart_on snd "\<lambda>_. 0"
  by unfold_locales (auto simp: simple_uart_def uart_on_def)

text \<open>Every line feed is followed by a carriage return.\<close>

definition crlf :: "u8 list \<Rightarrow> u8 list" where
  "crlf xs = concat (map (\<lambda>c. if c = 10 then [10, 13] else [c]) xs)"

lemma console_eta: "st\<lparr>con_mem := con_mem st, con_hw := h\<rparr> = st\<lparr>con_hw := h\<rparr>"
  by (cases st) simp

context uart_hardware
begin

lemma uart_wait_ok: "enabled h \<Longrightarrow> \<exists>h'. uart_wait hw h = Some h' \<and> enabled h' \<and> sent h' = sent h"
proof (induction "backlog h" arbitrary: h rule: less_induct)
  case less
  obtain v h' where r: "hw_read hw UART_FR h = (v, h')" by (cases "hw_read hw UART_FR h")
  show ?case
  proof (cases "v AND UART_FR_TXFF = 0")
    case True
    then show ?thesis using status_read [OF r] r less.prems by (subst uart_wait.simps) simp
  next
    case False
    with status_read [OF r] less.prems less.hyps [of h'] obtain h2
      where "uart_wait hw h' = Some h2" "enabled h2" "sent h2 = sent h" by auto
    then show ?thesis using False r by (subst uart_wait.simps) simp
  qed
qed

lemma uart_putc_ok:
  assumes "enabled (con_hw st)"
  shows "\<exists>h'. uart_putc hw c st = Some (st\<lparr>con_hw := h'\<rparr>) \<and> enabled h' \<and> sent h' = sent (con_hw st) @ [c]"
proof -
  from uart_wait_ok [OF assms] obtain h where
    h: "uart_wait hw (con_hw st) = Some h" "enabled h" "sent h = sent (con_hw st)" by blast
  obtain m' h' where w: "hw_write hw UART_DR (ucast c) (con_mem st, h) = (m', h')"
    by (cases "hw_write hw UART_DR (ucast c) (con_mem st, h)")
  have "(ucast (ucast c :: u32) :: u8) = c" by (rule bit_word_eqI) (simp add: bit_simps)
  then show ?thesis using h w data_write [OF w] by (auto simp: uart_putc_def uart_write_def console_eta)
qed

text \<open>The UART transmits after \<open>uart_init\<close>, whatever it did before.\<close>

lemma uart_init_ok: "\<exists>h'. uart_init hw st = st\<lparr>con_hw := h'\<rparr> \<and> enabled h' \<and> sent h' = sent (con_hw st)"
proof -
  have w: "\<exists>h'. uart_write hw a v s = s\<lparr>con_hw := h'\<rparr> \<and> sent h' = sent (con_hw s) \<and>
      (a = UART_CR \<longrightarrow> enabled h' = (bit v 0 \<and> bit v 8))"
    if "a \<in> {UART_CR, UART_IBRD, UART_FBRD, UART_LCRH}" for a v s
  proof -
    obtain m' h' where x: "hw_write hw a v (con_mem s, con_hw s) = (m', h')"
      by (cases "hw_write hw a v (con_mem s, con_hw s)")
    have "m' = con_mem s \<and> sent h' = sent (con_hw s) \<and> (a = UART_CR \<longrightarrow> enabled h' = (bit v 0 \<and> bit v 8))"
      using that x line_write [OF _ x] control_write [of v "con_mem s" "con_hw s" m' h'] by auto
    then show ?thesis using x by (auto simp: uart_write_def console_eta)
  qed
  obtain h1 where 1: "uart_write hw UART_CR 0 st = st\<lparr>con_hw := h1\<rparr>" "sent h1 = sent (con_hw st)"
    using w [of UART_CR 0 st] by auto
  obtain h2 where 2: "uart_write hw UART_IBRD 13 (st\<lparr>con_hw := h1\<rparr>) = st\<lparr>con_hw := h2\<rparr>" "sent h2 = sent h1"
    using w [of UART_IBRD 13 "st\<lparr>con_hw := h1\<rparr>"] by auto
  obtain h3 where 3: "uart_write hw UART_FBRD 1 (st\<lparr>con_hw := h2\<rparr>) = st\<lparr>con_hw := h3\<rparr>" "sent h3 = sent h2"
    using w [of UART_FBRD 1 "st\<lparr>con_hw := h2\<rparr>"] by auto
  obtain h4 where 4: "uart_write hw UART_LCRH (push_bit 4 1 OR push_bit 5 0x3) (st\<lparr>con_hw := h3\<rparr>) = st\<lparr>con_hw := h4\<rparr>"
    "sent h4 = sent h3"
    using w [of UART_LCRH "push_bit 4 1 OR push_bit 5 0x3" "st\<lparr>con_hw := h3\<rparr>"] by auto
  have "bit (push_bit 0 1 OR push_bit 8 1 OR push_bit 9 1 :: u32) 0 \<and> bit (push_bit 0 1 OR push_bit 8 1 OR push_bit 9 1 :: u32) 8"
    by (simp add: bit_simps)
  then obtain h5 where 5: "uart_write hw UART_CR (push_bit 0 1 OR push_bit 8 1 OR push_bit 9 1) (st\<lparr>con_hw := h4\<rparr>) =
      st\<lparr>con_hw := h5\<rparr>" "enabled h5" "sent h5 = sent h4"
    using w [of UART_CR "push_bit 0 1 OR push_bit 8 1 OR push_bit 9 1" "st\<lparr>con_hw := h4\<rparr>"] by auto
  show ?thesis unfolding uart_init_def Let_def 1(1) 2(1) 3(1) 4(1) 5(1)
    using 1(2) 2(2) 3(2) 4(2) 5(2,3) by auto
qed

lemma put_char_uart:
  assumes "kprintf_framebuffer st = 0" and "enabled (con_hw st)"
  shows "\<exists>h'. put_char hw c st = Some (st\<lparr>con_hw := h'\<rparr>) \<and> enabled h' \<and> sent h' = sent (con_hw st) @ crlf [c]"
proof -
  from uart_putc_ok [OF assms(2)] obtain h where h: "uart_putc hw c st = Some (st\<lparr>con_hw := h\<rparr>)"
    "enabled h" "sent h = sent (con_hw st) @ [c]" by blast
  show ?thesis using assms h uart_putc_ok [of "st\<lparr>con_hw := h\<rparr>" 13] by (auto simp: put_char_def crlf_def)
qed

lemma print_loop_uart:
  "c_string (con_mem st) p xs \<Longrightarrow> kprintf_framebuffer st = 0 \<Longrightarrow> enabled (con_hw st) \<Longrightarrow>
     \<exists>h'. print_loop hw p st = Some (st\<lparr>con_hw := h'\<rparr>) \<and> enabled h' \<and> sent h' = sent (con_hw st) @ crlf xs"
proof (induction xs arbitrary: p st)
  case Nil
  then have "print_loop hw p st = Some st" by (subst print_loop.simps) simp
  then show ?case by (intro exI [of _ "con_hw st"]) (simp add: crlf_def Nil.prems)
next
  case (Cons x xs)
  from put_char_uart [OF Cons.prems(2,3), of x] obtain h where h: "put_char hw x st = Some (st\<lparr>con_hw := h\<rparr>)"
    "enabled h" "sent h = sent (con_hw st) @ crlf [x]" by blast
  have "\<exists>h'. print_loop hw (p + 1) (st\<lparr>con_hw := h\<rparr>) = Some (st\<lparr>con_hw := h\<rparr>\<lparr>con_hw := h'\<rparr>) \<and>
      enabled h' \<and> sent h' = sent (con_hw (st\<lparr>con_hw := h\<rparr>)) @ crlf xs"
    using Cons.prems h by (intro Cons.IH) simp_all
  then show ?case using Cons.prems h by (subst print_loop.simps) (auto simp: crlf_def)
qed

lemma kprintf_uart:
  assumes "kprintf_framebuffer st = 0" and "expand strs f args = Some out" and "readable (con_mem st) buffer 256 fmt f"
    and "\<And>a s. strs a = Some s \<Longrightarrow> readable (con_mem st) buffer 256 a s" and "0 \<notin> set out" and "enabled (con_hw st)"
  shows "\<exists>m' h'. kprintf hw buffer fmt args st = Some (st\<lparr>con_mem := m', con_hw := h'\<rparr>) \<and> enabled h' \<and>
    sent h' = sent (con_hw st) @ crlf (take 255 out) \<and> (\<forall>x. x \<notin> region buffer 256 \<longrightarrow> m' x = con_mem st x)"
proof -
  have u: "unat (256 :: u64) = 256" by simp
  have sz: "unat (256 :: u64) < 2 ^ 31" "(256 :: u64) \<noteq> 0" by simp_all
  let ?k = "min (length out) (256 - 1)"
  from vsnprintf_ok [OF assms(2), of "con_mem st" buffer 256 fmt, unfolded u, OF assms(3)] assms(4) sz
  obtain r m where v: "vsnprintf (con_mem st) buffer 256 fmt args = Some (r, m)"
    "\<forall>x. x \<notin> region buffer 256 \<longrightarrow> m x = con_mem st x"
    "read_bytes m buffer ?k = take ?k out" "m (buffer + of_nat ?k) = 0"
    by (fastforce simp: Let_def u)
  have "c_string m buffer (take ?k out)"
    using v(3,4) assms(5) by (intro c_string_bytes) (auto dest: in_set_takeD)
  moreover have "take ?k out = take 255 out" by (simp add: min_def)
  ultimately have "c_string (con_mem (st\<lparr>con_mem := m\<rparr>)) buffer (take 255 out)" by simp
  from print_loop_uart [OF this] assms(1,6) v(1,2) show ?thesis
    by (fastforce simp: kprintf_def kprintf_varg_def)
qed

end

end
