(* ===== verification/Dtb.thy ===== *)
theory Dtb
  imports Lib
begin

text \<open>
  The device tree reader of \<^verbatim>\<open>src/kern/boot/dtb.c\<close>.  A flattened device tree is a header of big-endian
  32-bit words, a block of tokens and a table of property names.  The module keeps the address of the
  tree and of the name table; it reads the memory and writes only the results its callers ask for,
  which are results of the definitions here.  The loops over the token block are partial functions,
  since only an end token stops them.  The counters of depth are C \<open>int\<close>s; a tree whose size fits the
  32-bit size in its header is too small to make them overflow.
\<close>

section \<open>Definitions\<close>

record dtb_state =
  dtb_base_address :: u64
  dt_strings_ptr :: u64

abbreviation FDT_MAGIC :: u32 where "FDT_MAGIC \<equiv> 0xd00dfeed"
abbreviation FDT_BEGIN_NODE :: u32 where "FDT_BEGIN_NODE \<equiv> 1"
abbreviation FDT_END_NODE :: u32 where "FDT_END_NODE \<equiv> 2"
abbreviation FDT_PROP :: u32 where "FDT_PROP \<equiv> 3"
abbreviation FDT_NOP :: u32 where "FDT_NOP \<equiv> 4"
abbreviation FDT_END :: u32 where "FDT_END \<equiv> 9"

text \<open>The offsets in \<open>fdt_header_t\<close> of the fields the code reads.\<close>

abbreviation off_dt_struct :: u64 where "off_dt_struct \<equiv> 8"
abbreviation off_dt_strings :: u64 where "off_dt_strings \<equiv> 12"

definition bswap32 :: "u32 \<Rightarrow> u32" where
  "bswap32 val =
     (push_bit 24 val AND 0xFF000000) OR
     (push_bit 8 val AND 0x00FF0000) OR
     (drop_bit 8 val AND 0x0000FF00) OR
     (drop_bit 24 val AND 0x000000FF)"

definition bswap64 :: "u64 \<Rightarrow> u64" where
  "bswap64 val =
     (push_bit 56 val AND 0xFF00000000000000) OR
     (push_bit 40 val AND 0x00FF000000000000) OR
     (push_bit 24 val AND 0x0000FF0000000000) OR
     (push_bit 8 val AND 0x000000FF00000000) OR
     (drop_bit 8 val AND 0x00000000FF000000) OR
     (drop_bit 24 val AND 0x0000000000FF0000) OR
     (drop_bit 40 val AND 0x000000000000FF00) OR
     (drop_bit 56 val AND 0x00000000000000FF)"

text \<open>\<open>bswap32(*(uint32_t* )a)\<close>\<close>

definition be32 :: "mem \<Rightarrow> u64 \<Rightarrow> u32" where
  "be32 m a = bswap32 (load32 m a)"

definition dtb_init :: "mem \<Rightarrow> u64 \<Rightarrow> dtb_state \<Rightarrow> dtb_state" where
  "dtb_init m dtb_addr st =
     (let st = st\<lparr>dtb_base_address := dtb_addr\<rparr>
      in if be32 m (dtb_base_address st) \<noteq> FDT_MAGIC then st\<lparr>dtb_base_address := 0\<rparr>
         else st\<lparr>dt_strings_ptr := dtb_base_address st + ucast (be32 m (dtb_base_address st + off_dt_strings))\<rparr>)"

text \<open>The start of the token block, and the address after a node name and after a property value.\<close>

definition struct_start :: "mem \<Rightarrow> dtb_state \<Rightarrow> u64" where
  "struct_start m st = dtb_base_address st + ucast (be32 m (dtb_base_address st + off_dt_struct))"

definition skip_name :: "mem \<Rightarrow> u64 \<Rightarrow> u64 option" where
  "skip_name m node_name = do {
     n \<leftarrow> strlen m node_name;
     Some (ALIGN_UP (node_name + (n + 1)) 4)
   }"

definition skip_prop :: "mem \<Rightarrow> u64 \<Rightarrow> u64" where
  "skip_prop m p = ALIGN_UP (p + 4 + 4 + ucast (be32 m p)) 4"

text \<open>\<open>name_end\<close> and \<open>name_len\<close>: the name of a node without its unit address.\<close>

definition unit_name :: "mem \<Rightarrow> u64 \<Rightarrow> (u64 \<times> u64) option" where
  "unit_name m node_name = do {
     name_end \<leftarrow> strchr m node_name 0x40;
     if name_end \<noteq> 0 then Some (name_end, name_end - node_name)
     else do { n \<leftarrow> strlen m node_name; Some (name_end, n) }
   }"

text \<open>The test of a node against a segment of the path that ends in a slash, and against the last one.\<close>

definition inner_match :: "mem \<Rightarrow> u64 \<Rightarrow> u64 \<Rightarrow> u64 \<Rightarrow> u64 \<Rightarrow> bool" where
  "inner_match m node_name segment next_slash name_len \<longleftrightarrow>
     strncmp m node_name segment (next_slash - segment) = 0 \<and> next_slash - segment = name_len"

definition last_match :: "mem \<Rightarrow> u64 \<Rightarrow> u64 \<Rightarrow> u64 \<Rightarrow> u64 \<Rightarrow> bool option" where
  "last_match m node_name segment name_end name_len = do {
     c \<leftarrow> strcmp m node_name segment;
     if c = 0 then Some True
     else if name_end \<noteq> 0 \<and> strncmp m node_name segment name_len = 0
     then do { n \<leftarrow> strlen m segment; Some (n = name_len) }
     else Some False
   }"

text \<open>The local variables the two walks over the tokens share.\<close>

record walk =
  struct_ptr :: u64
  next_slash :: u64
  depth :: int

subsection \<open>Finding a node\<close>

record find_walk = walk +
  current_path_segment :: u64
  path_match_depth :: int

definition find_begin :: "mem \<Rightarrow> find_walk \<Rightarrow> (u64 + find_walk) option" where
  "find_begin m w = do {
     let node_name = struct_ptr w;
     p \<leftarrow> skip_name m node_name;
     let w = w\<lparr>struct_ptr := p\<rparr>;
     if depth w = path_match_depth w then do {
       (name_end, name_len) \<leftarrow> unit_name m node_name;
       if next_slash w \<noteq> 0 then
         if inner_match m node_name (current_path_segment w) (next_slash w) name_len then do {
           let w = w\<lparr>path_match_depth := path_match_depth w + 1, current_path_segment := next_slash w + 1\<rparr>;
           next \<leftarrow> strchr m (current_path_segment w) 0x2F;
           Some (Inr (w\<lparr>next_slash := next, depth := depth w + 1\<rparr>))
         }
         else Some (Inr (w\<lparr>depth := depth w + 1\<rparr>))
       else do {
         found \<leftarrow> last_match m node_name (current_path_segment w) name_end name_len;
         Some (if found then Inl (struct_ptr w - 4) else Inr (w\<lparr>depth := depth w + 1\<rparr>))
       }
     }
     else Some (Inr (w\<lparr>depth := depth w + 1\<rparr>))
   }"

text \<open>\<open>while (last_slash > path && *last_slash != '/') last_slash--;\<close>\<close>

function slash_before :: "mem \<Rightarrow> u64 \<Rightarrow> u64 \<Rightarrow> u64" where
  "slash_before m path last_slash =
     (if last_slash > path \<and> m last_slash \<noteq> 0x2F then slash_before m path (last_slash - 1) else last_slash)"
  by pat_completeness auto
termination
proof (relation "measure (\<lambda>(m, path, last_slash). unat last_slash)", simp)
  fix m path and last_slash :: u64
  assume "last_slash > path \<and> m last_slash \<noteq> (0x2F :: u8)"
  then have "last_slash \<noteq> 0" by auto
  then have "unat (last_slash - 1) < unat last_slash" by (simp add: unat_minus_one unat_gt_0)
  then show "((m, path, last_slash - 1), (m, path, last_slash)) \<in> measure (\<lambda>(m, path, last_slash). unat last_slash)"
    by simp
qed

declare slash_before.simps [simp del]

definition find_end :: "mem \<Rightarrow> u64 \<Rightarrow> find_walk \<Rightarrow> find_walk option" where
  "find_end m path w =
     (let w = w\<lparr>depth := depth w - 1\<rparr>
      in if depth w < path_match_depth w then
           let w = w\<lparr>path_match_depth := depth w\<rparr>
           in if current_path_segment w \<noteq> path then do {
                let last_slash = slash_before m path (current_path_segment w - 2);
                let segment = (if last_slash = path then path else last_slash + 1);
                next \<leftarrow> strchr m segment 0x2F;
                Some (w\<lparr>current_path_segment := segment, next_slash := next\<rparr>)
              }
              else Some w
         else Some w)"

definition find_step :: "mem \<Rightarrow> u64 \<Rightarrow> find_walk \<Rightarrow> (u64 + find_walk) option" where
  "find_step m path w = do {
     let tag = be32 m (struct_ptr w);
     let w = w\<lparr>struct_ptr := struct_ptr w + 4\<rparr>;
     if tag = FDT_BEGIN_NODE then find_begin m w
     else if tag = FDT_END_NODE then do { w \<leftarrow> find_end m path w; Some (Inr w) }
     else if tag = FDT_PROP then Some (Inr (w\<lparr>struct_ptr := skip_prop m (struct_ptr w)\<rparr>))
     else Some (Inr w)
   }"

partial_function (option) find_loop :: "mem \<Rightarrow> u64 \<Rightarrow> find_walk \<Rightarrow> u64 option" where
  "find_loop m path w =
     (if be32 m (struct_ptr w) = FDT_END then Some 0
      else do {
        r \<leftarrow> find_step m path w;
        if isl r then Some (projl r) else find_loop m path (projr r)
      })"

definition dtb_find_node :: "mem \<Rightarrow> u64 \<Rightarrow> dtb_state \<Rightarrow> u64 option" where
  "dtb_find_node m path st =
     (if dtb_base_address st = 0 then Some 0
      else do {
        next \<leftarrow> strchr m path 0x2F;
        find_loop m path \<lparr>struct_ptr = struct_start m st, next_slash = next, depth = 0,
          current_path_segment = path, path_match_depth = 0\<rparr>
      })"

subsection \<open>Finding a property\<close>

record prop_walk = walk +
  current_node_path :: u64
  node_found :: bool

text \<open>The number of slashes in the path, and the depth it names.\<close>

partial_function (option) count_slashes :: "mem \<Rightarrow> u64 \<Rightarrow> int \<Rightarrow> int option" where
  "count_slashes m p n =
     (if m p = 0 then Some n else count_slashes m (p + 1) (if m p = 0x2F then n + 1 else n))"

definition path_depth :: "mem \<Rightarrow> u64 \<Rightarrow> int option" where
  "path_depth m node_path = do {
     n \<leftarrow> count_slashes m node_path 0;
     Some (if m node_path = 0x2F then n - 1 else n)
   }"

definition prop_begin :: "mem \<Rightarrow> int \<Rightarrow> prop_walk \<Rightarrow> prop_walk option" where
  "prop_begin m target_depth w = do {
     let node_name = struct_ptr w;
     p \<leftarrow> skip_name m node_name;
     let w = w\<lparr>struct_ptr := p, depth := depth w + 1\<rparr>;
     if \<not> node_found w \<and> depth w = target_depth + 1 then do {
       (name_end, name_len) \<leftarrow> unit_name m node_name;
       if next_slash w \<noteq> 0 then
         if inner_match m node_name (current_node_path w) (next_slash w) name_len then do {
           let w = w\<lparr>current_node_path := next_slash w + 1\<rparr>;
           next \<leftarrow> strchr m (current_node_path w) 0x2F;
           let w = w\<lparr>next_slash := next\<rparr>;
           Some (if m (current_node_path w) = 0 then w\<lparr>node_found := True\<rparr> else w)
         }
         else Some w
       else do {
         found \<leftarrow> last_match m node_name (current_node_path w) name_end name_len;
         Some (if found then w\<lparr>node_found := True\<rparr> else w)
       }
     }
     else Some w
   }"

text \<open>A step returns, with the value and what is stored in \<open>*len\<close>, or goes on.\<close>

definition prop_step ::
  "mem \<Rightarrow> u64 \<Rightarrow> u64 \<Rightarrow> int \<Rightarrow> prop_walk \<Rightarrow> (u64 \<times> u32 option + prop_walk) option" where
  "prop_step m strings prop_name target_depth w = do {
     let tag = be32 m (struct_ptr w);
     let w = w\<lparr>struct_ptr := struct_ptr w + 4\<rparr>;
     if tag = FDT_BEGIN_NODE then do { w \<leftarrow> prop_begin m target_depth w; Some (Inr w) }
     else if tag = FDT_END_NODE then
       Some (if node_found w then Inl (0, None) else Inr (w\<lparr>depth := depth w - 1\<rparr>))
     else if tag = FDT_PROP then do {
       let len_prop = be32 m (struct_ptr w);
       let prop_string = strings + ucast (be32 m (struct_ptr w + 4));
       let prop_value = struct_ptr w + 4 + 4;
       let w = w\<lparr>struct_ptr := skip_prop m (struct_ptr w)\<rparr>;
       if node_found w then do {
         c \<leftarrow> strcmp m prop_string prop_name;
         Some (if c = 0 then Inl (prop_value, Some len_prop) else Inr w)
       }
       else Some (Inr w)
     }
     else Some (Inr w)
   }"

partial_function (option) prop_loop ::
  "mem \<Rightarrow> u64 \<Rightarrow> u64 \<Rightarrow> int \<Rightarrow> prop_walk \<Rightarrow> (u64 \<times> u32 option) option" where
  "prop_loop m strings prop_name target_depth w =
     (if be32 m (struct_ptr w) = FDT_END then Some (0, None)
      else do {
        r \<leftarrow> prop_step m strings prop_name target_depth w;
        if isl r then Some (projl r) else prop_loop m strings prop_name target_depth (projr r)
      })"

definition dtb_get_property :: "mem \<Rightarrow> u64 \<Rightarrow> u64 \<Rightarrow> dtb_state \<Rightarrow> (u64 \<times> u32 option) option" where
  "dtb_get_property m node_path prop_name st =
     (if dtb_base_address st = 0 \<or> dt_strings_ptr st = 0 then Some (0, None)
      else do {
        next \<leftarrow> strchr m node_path 0x2F;
        target_depth \<leftarrow> path_depth m node_path;
        prop_loop m (dt_strings_ptr st) prop_name target_depth
          \<lparr>struct_ptr = struct_start m st, next_slash = next, depth = 0, current_node_path = node_path,
           node_found = False\<rparr>
      })"

text \<open>The results of the two queries: 0 and the values stored through the arguments, or -1.  The
  addresses of the string literals are parameters.\<close>

definition dtb_get_framebuffer_info ::
  "mem \<Rightarrow> u64 \<Rightarrow> u64 \<Rightarrow> dtb_state \<Rightarrow> (int \<times> (u64 \<times> u32 \<times> u32 \<times> u32) option) option" where
  "dtb_get_framebuffer_info m fb_node_path fb_prop_name st =
     (if dtb_base_address st = 0 then Some (-1, None)
      else do {
        (prop_val, len) \<leftarrow> dtb_get_property m fb_node_path fb_prop_name st;
        Some (case len of
            Some n \<Rightarrow> if prop_val \<noteq> 0 \<and> n \<ge> 16
              then (0, Some (ucast (be32 m prop_val), be32 m (prop_val + 4), be32 m (prop_val + 8), be32 m (prop_val + 12)))
              else (-1, None)
          | None \<Rightarrow> (-1, None))
      })"

definition dtb_get_memory_info ::
  "mem \<Rightarrow> u64 \<Rightarrow> u64 \<Rightarrow> dtb_state \<Rightarrow> (int \<times> (u64 \<times> u64) option) option" where
  "dtb_get_memory_info m mem_node_path mem_prop_name st =
     (if dtb_base_address st = 0 then Some (-1, None)
      else do {
        (prop_val, len) \<leftarrow> dtb_get_property m mem_node_path mem_prop_name st;
        Some (case len of
            Some n \<Rightarrow> if prop_val \<noteq> 0 \<and> n \<ge> 16
              then (0, Some (bswap64 (load64 m prop_val), bswap64 (load64 m (prop_val + 8))))
              else (-1, None)
          | None \<Rightarrow> (-1, None))
      })"

section \<open>Byte order\<close>

section \<open>Byte order\<close>

lemma byte_masks32:
  "(0xFF000000 :: u32) = push_bit 24 (mask 8)" "(0x00FF0000 :: u32) = push_bit 16 (mask 8)"
  "(0x0000FF00 :: u32) = push_bit 8 (mask 8)" "(0x000000FF :: u32) = mask 8"
  by (simp_all add: mask_eq_exp_minus_1 push_bit_eq_mult)

lemma byte_masks64:
  "(0xFF00000000000000 :: u64) = push_bit 56 (mask 8)" "(0x00FF000000000000 :: u64) = push_bit 48 (mask 8)"
  "(0x0000FF0000000000 :: u64) = push_bit 40 (mask 8)" "(0x000000FF00000000 :: u64) = push_bit 32 (mask 8)"
  "(0x00000000FF000000 :: u64) = push_bit 24 (mask 8)" "(0x0000000000FF0000 :: u64) = push_bit 16 (mask 8)"
  "(0x000000000000FF00 :: u64) = push_bit 8 (mask 8)" "(0x00000000000000FF :: u64) = mask 8"
  by (simp_all add: mask_eq_exp_minus_1 push_bit_eq_mult)

lemma rev_word_bit:
  fixes w :: "'a::len word"
  assumes "8 * n = LENGTH('a)" and "i < n" and "j < 8"
  shows "bit (le_word (rev (le_bytes n w)) :: 'a word) (8 * i + j) \<longleftrightarrow> bit w (8 * (n - 1 - i) + j)"
proof -
  have "8 * i + j < LENGTH('a)" using assms by linarith
  moreover have "(8 * i + j) div 8 = i" "(8 * i + j) mod 8 = j" using assms(3) by auto
  ultimately show ?thesis using assms
    by (auto simp: bit_le_word rev_nth nth_le_bytes bit_simps)
qed

lemma byte_index:
  assumes "k < 8 * (n :: nat)"
  obtains i j where "k = 8 * i + j" and "i < n" and "j < 8"
  by (rule that [of "k div 8" "k mod 8"]) (use assms in \<open>simp_all add: less_mult_imp_div_less mult.commute\<close>)

lemma bswap32_bytes: "bswap32 w = le_word (rev (le_bytes 4 w))"
proof (rule bit_word_eqI)
  fix k assume "k < LENGTH(32)"
  then have "k < 8 * 4" by simp
  then obtain i j where k: "k = 8 * i + j" "i < 4" and j: "j < 8"
    by (rule byte_index)
  from k(2) have "i = 0 \<or> i = 1 \<or> i = 2 \<or> i = 3" by auto
  then show "bit (bswap32 w) k = bit (le_word (rev (le_bytes 4 w)) :: u32) k"
    unfolding bswap32_def byte_masks32 k(1) using rev_word_bit [of 4 i j w] j
    by (elim disjE) (simp_all add: bit_simps)
qed

lemma bswap64_bytes: "bswap64 w = le_word (rev (le_bytes 8 w))"
proof (rule bit_word_eqI)
  fix k assume "k < LENGTH(64)"
  then have "k < 8 * 8" by simp
  then obtain i j where k: "k = 8 * i + j" "i < 8" and j: "j < 8"
    by (rule byte_index)
  from k(2) have "i = 0 \<or> i = 1 \<or> i = 2 \<or> i = 3 \<or> i = 4 \<or> i = 5 \<or> i = 6 \<or> i = 7" by auto
  then show "bit (bswap64 w) k = bit (le_word (rev (le_bytes 8 w)) :: u64) k"
    unfolding bswap64_def byte_masks64 k(1) using rev_word_bit [of 8 i j w] j
    by (elim disjE) (simp_all add: bit_simps)
qed

lemma bswap_load: "bswap32 (load32 m a) = le_word (rev (read_bytes m a 4))"
  "bswap64 (load64 m a) = le_word (rev (read_bytes m a 8))"
  by (simp_all add: bswap32_bytes bswap64_bytes load32_def load64_def byte_simps)

lemma bswap_involution: "bswap32 (bswap32 w) = w" "bswap64 (bswap64 v) = v"
  by (simp_all add: bswap32_bytes bswap64_bytes byte_simps)
section \<open>Trees in memory\<close>

text \<open>A device tree, and the tokens it is flattened to: a node is its name, its properties and then its
  children.\<close>

datatype dtree = Node (dname: "u8 list") (dprops: "(u8 list \<times> u8 list) list") (dchildren: "dtree list")

datatype token = Begin "u8 list" | EndNode | Prop "u8 list" "u8 list" | Nop

fun flatten :: "dtree \<Rightarrow> token list" where
  "flatten (Node n ps cs) = Begin n # map (\<lambda>(k, v). Prop k v) ps @ concat (map flatten cs) @ [EndNode]"

text \<open>A string that does not wrap around the address space and is not at the null address.\<close>

definition c_text :: "mem \<Rightarrow> u64 \<Rightarrow> u8 list \<Rightarrow> bool" where
  "c_text m a xs \<longleftrightarrow> c_string m a xs \<and> a \<noteq> 0 \<and> unat a + length xs < 2 ^ 64"

fun token_end :: "u64 \<Rightarrow> token \<Rightarrow> u64" where
  "token_end a (Begin n) = ALIGN_UP (a + 4 + (of_nat (length n) + 1)) 4"
| "token_end a EndNode = a + 4"
| "token_end a (Prop k v) = ALIGN_UP (a + 4 + 4 + 4 + of_nat (length v)) 4"
| "token_end a Nop = a + 4"

fun token_at :: "mem \<Rightarrow> u64 \<Rightarrow> u64 \<Rightarrow> token \<Rightarrow> bool" where
  "token_at m s a (Begin n) \<longleftrightarrow> be32 m a = FDT_BEGIN_NODE \<and> c_text m (a + 4) n"
| "token_at m s a EndNode \<longleftrightarrow> be32 m a = FDT_END_NODE"
| "token_at m s a (Prop k v) \<longleftrightarrow> be32 m a = FDT_PROP \<and> be32 m (a + 4) = of_nat (length v) \<and> length v < 2 ^ 32 \<and>
     c_string m (s + ucast (be32 m (a + 4 + 4))) k \<and> read_bytes m (a + 4 + 4 + 4) (length v) = v"
| "token_at m s a Nop \<longleftrightarrow> be32 m a = FDT_NOP"

fun tokens_at :: "mem \<Rightarrow> u64 \<Rightarrow> u64 \<Rightarrow> token list \<Rightarrow> bool" where
  "tokens_at m s a [] \<longleftrightarrow> True"
| "tokens_at m s a (t # ts) \<longleftrightarrow> token_at m s a t \<and> tokens_at m s (token_end a t) ts"

definition block_at :: "mem \<Rightarrow> u64 \<Rightarrow> u64 \<Rightarrow> token list \<Rightarrow> bool" where
  "block_at m s a ts \<longleftrightarrow> tokens_at m s a ts \<and> be32 m (foldl token_end a ts) = FDT_END"

text \<open>A flattened tree at an address: the magic number, then the token block and the name table the header
  points to.  The root has the empty name, every other node a name with at least one character before
  its unit address.\<close>

fun names_ok :: "(u8 list \<Rightarrow> bool) \<Rightarrow> dtree \<Rightarrow> bool" where
  "names_ok ok (Node n ps cs) \<longleftrightarrow> ok n \<and> (\<forall>c \<in> set cs. names_ok ok c)"

definition proper_name :: "u8 list \<Rightarrow> bool" where
  "proper_name n \<longleftrightarrow> n \<noteq> [] \<and> hd n \<noteq> 0x40"

abbreviation proper :: "dtree \<Rightarrow> bool" where
  "proper \<equiv> names_ok proper_name"

definition tree_at :: "mem \<Rightarrow> u64 \<Rightarrow> dtree \<Rightarrow> bool" where
  "tree_at m a t \<longleftrightarrow> a \<noteq> 0 \<and> be32 m a = FDT_MAGIC \<and>
     a + ucast (be32 m (a + off_dt_strings)) \<noteq> 0 \<and>
     block_at m (a + ucast (be32 m (a + off_dt_strings))) (a + ucast (be32 m (a + off_dt_struct))) (flatten t) \<and>
     dname t = [] \<and> (\<forall>c \<in> set (dchildren t). proper c)"

text \<open>The properties in front of the first end of a node: those of the root, of its first child, of the
  first child of that, and so on.\<close>

fun leftmost_props :: "dtree \<Rightarrow> (u8 list \<times> u8 list) list" where
  "leftmost_props (Node n ps cs) = ps @ (case cs of [] \<Rightarrow> [] | c # _ \<Rightarrow> leftmost_props c)"

lemma tokens_at_append:
  "tokens_at m s a (ts @ us) \<longleftrightarrow> tokens_at m s a ts \<and> tokens_at m s (foldl token_end a ts) us"
  by (induction ts arbitrary: a) auto

lemma ucast_len32: "n < 2 ^ 32 \<Longrightarrow> (ucast (of_nat n :: u32) :: u64) = of_nat n"
proof -
  assume "n < 2 ^ 32"
  then have "unat (of_nat n :: u32) = n" by (simp add: unat_of_nat)
  then show ?thesis by (metis of_nat_unat)
qed

lemma c_text_string: "c_text m a n \<Longrightarrow> c_string m a n"
  by (simp add: c_text_def)

lemmas strlen_text = strlen_c_string [OF c_text_string]

lemma skip_name_text: "c_text m a n \<Longrightarrow> skip_name m a = Some (ALIGN_UP (a + (of_nat (length n) + 1)) 4)"
  by (simp add: skip_name_def strlen_text)

lemma skip_prop_token:
  "token_at m s a (Prop k v) \<Longrightarrow> skip_prop m (a + 4) = token_end a (Prop k v)"
  by (simp add: skip_prop_def ucast_len32)

text \<open>The name of a node without its unit address.\<close>

abbreviation base_name :: "u8 list \<Rightarrow> u8 list" where
  "base_name n \<equiv> takeWhile (\<lambda>c. c \<noteq> 0x40) n"

lemma base_name_nonempty: "proper_name n \<Longrightarrow> base_name n \<noteq> []"
  by (cases n) (auto simp: proper_name_def)

lemma c_text_char: "c_text m a n \<Longrightarrow> i \<le> length n \<Longrightarrow> a + of_nat i \<noteq> 0"
proof
  assume n: "c_text m a n" "i \<le> length n" and "a + of_nat i = 0"
  then have "unat (a + of_nat i) = 0" by simp
  moreover have "unat a + i < 2 ^ 64" using n by (simp add: c_text_def)
  moreover from this have "unat (a + of_nat i) = unat a + i"
    by (simp add: unat_word_ariths unat_of_nat64 unat_of_nat)
  ultimately have "unat a = 0" by simp
  then show False using n by (simp add: c_text_def unat_eq_zero)
qed

lemma unit_name_text:
  assumes "c_text m a n"
  shows "\<exists>e. unit_name m a = Some (e, of_nat (length (base_name n))) \<and> (e \<noteq> 0 \<longleftrightarrow> 0x40 \<in> set n)"
proof (cases "0x40 \<in> set n")
  case True
  then obtain vs where n: "n = base_name n @ 0x40 # vs"
    by (metis (mono_tags, lifting) split_list takeWhile_eq_all_conv takeWhile_dropWhile_id hd_dropWhile list.collapse dropWhile_eq_Nil_conv)
  have "strchr m a 0x40 = Some (a + of_nat (length (base_name n)))"
    using assms n strchr_loop_found [of m a "base_name n" "0x40" vs] unfolding strchr_def c_text_def
    by (auto dest: set_takeWhileD)
  moreover have "a + of_nat (length (base_name n)) \<noteq> 0" using assms length_takeWhile_le by (rule c_text_char)
  ultimately show ?thesis using True by (simp add: unit_name_def)
next
  case False
  then have "strchr m a 0x40 = Some 0"
    using assms strchr_loop_missing [of m a n "0x40"] unfolding strchr_def c_text_def by simp
  moreover have "length (base_name n) = length n" using False by (metis (mono_tags, lifting) takeWhile_eq_all_conv)
  ultimately show ?thesis using False strlen_text [OF assms] by (simp add: unit_name_def)
qed


lemma inner_match_empty: "inner_match m a p p k \<longleftrightarrow> k = 0"
  by (auto simp: inner_match_def strncmp_def)

lemma of_nat_text_eq:
  "length xs < 2 ^ 64 \<Longrightarrow> length ys < 2 ^ 64 \<Longrightarrow> (of_nat (length xs) :: u64) = of_nat (length ys) \<longleftrightarrow> length xs = length ys"
  by (metis unat_of_nat64)

definition named_by :: "u8 list \<Rightarrow> u8 list \<Rightarrow> bool" where
  "named_by n x \<longleftrightarrow> n = x \<or> 0x40 \<in> set n \<and> base_name n = x"

lemma last_match_text:
  assumes n: "c_text m a n" and x: "c_text m b x" and e: "e \<noteq> 0 \<longleftrightarrow> 0x40 \<in> set n"
  shows "last_match m a b e (of_nat (length (base_name n))) = Some (named_by n x)"
proof -
  let ?u = "base_name n"
  have len: "length n < 2 ^ 64" "length x < 2 ^ 64" using n x by (simp_all add: c_text_def)
  have u: "length ?u < 2 ^ 64" using len(1) length_takeWhile_le [of "\<lambda>c. c \<noteq> 0x40" n] by linarith
  have nz: "0 \<notin> set n" "0 \<notin> set x" using n x by (auto simp: c_text_def dest: c_string_nonzero)
  have eq: "strcmp m a b = Some (cmp_bytes n x)" "cmp_bytes n x = 0 \<longleftrightarrow> n = x"
    using strcmp_c_string [OF c_text_string [OF n] c_text_string [OF x]] cmp_bytes_zero [OF nz] by auto
  have tu: "take (length ?u) n = ?u" by (metis takeWhile_eq_take)
  have nu: "0 \<notin> set ?u" "0 \<notin> set (take (length ?u) x)" using nz by (auto dest: set_takeWhileD in_set_takeD)
  have "strncmp m a b (of_nat (length ?u)) = cmp_bytes ?u (take (length ?u) x)"
    using strncmp_c_string [OF c_text_string [OF n] c_text_string [OF x], of "of_nat (length ?u)"]
    by (simp only: unat_of_nat64 [OF u] tu)
  then have c: "strncmp m a b (of_nat (length ?u)) = 0 \<longleftrightarrow> ?u = take (length ?u) x"
    using cmp_bytes_zero [OF nu] by simp
  show ?thesis
    using of_nat_text_eq [OF len(2) u] strlen_text [OF x] by (auto simp: last_match_def eq c e named_by_def)
qed

lemma count_slashes_string:
  "c_string m p xs \<Longrightarrow> count_slashes m p n = Some (n + int (count_list xs 0x2F))"
proof (induction xs arbitrary: p n)
  case Nil
  then show ?case by (simp add: count_slashes.simps)
next
  case (Cons x xs)
  then show ?case by (subst count_slashes.simps) auto
qed

lemma path_depth_string: "c_string m p (0x2F # x) \<Longrightarrow> path_depth m p = Some (int (count_list x 0x2F))"
  using count_slashes_string [of m p "0x2F # x" 0] by (simp add: path_depth_def)


section \<open>Walks over the tokens\<close>

lemma walk_eta: "struct_ptr w = a \<Longrightarrow> w\<lparr>struct_ptr := a\<rparr> = w"
  by (cases w) simp

lemma walk_order: "w\<lparr>struct_ptr := a, depth := d\<rparr> = w\<lparr>depth := d, struct_ptr := a\<rparr>"
  by (cases w) simp

abbreviation prop_tokens :: "(u8 list \<times> u8 list) list \<Rightarrow> token list" where
  "prop_tokens ps \<equiv> map (\<lambda>(k, v). Prop k v) ps"

lemma walk_eta_depth: "depth w = d \<Longrightarrow> w\<lparr>depth := d\<rparr> = w"
  by (cases w) simp

text \<open>
  A walk over the token block, as the two loops of the code: in the states that satisfy \<open>pass\<close> it takes no
  notice of properties.
\<close>

locale prop_pass =
  fixes m :: mem and s :: u64 and walk :: "'a walk_scheme \<Rightarrow> 'r option" and pass :: "'a walk_scheme \<Rightarrow> bool"
  assumes pass_moved: "pass w \<Longrightarrow> pass (w\<lparr>struct_ptr := p\<rparr>)"
    and pass_prop: "pass w \<Longrightarrow> struct_ptr w = a \<Longrightarrow> token_at m s a (Prop k v) \<Longrightarrow>
      walk w = walk (w\<lparr>struct_ptr := token_end a (Prop k v)\<rparr>)"
begin

lemma pass_props:
  assumes "tokens_at m s a (prop_tokens ps)" and "struct_ptr w = a" and "pass w"
  shows "walk w = walk (w\<lparr>struct_ptr := foldl token_end a (prop_tokens ps)\<rparr>)"
  using assms
proof (induction ps arbitrary: a w)
  case Nil
  then show ?case by (simp add: walk_eta)
next
  case (Cons p ps)
  obtain k v where p: "p = (k, v)" by (cases p)
  let ?w = "w\<lparr>struct_ptr := token_end a (Prop k v)\<rparr>"
  have "walk w = walk ?w" using Cons.prems p by (intro pass_prop) simp_all
  also have "\<dots> = walk (?w\<lparr>struct_ptr := foldl token_end (token_end a (Prop k v)) (prop_tokens ps)\<rparr>)"
    using Cons.prems p by (intro Cons.IH) (simp_all add: pass_moved)
  finally show ?case using p by simp
qed

end

text \<open>A walk that also only counts the depth at nodes whose names satisfy \<open>ok\<close>: it passes whole subtrees.\<close>

locale token_walk = prop_pass m s walk pass
  for m :: mem and s :: u64 and walk :: "'a walk_scheme \<Rightarrow> 'r option" and pass :: "'a walk_scheme \<Rightarrow> bool" +
  fixes ok :: "u8 list \<Rightarrow> bool"
  assumes pass_deeper: "pass w \<Longrightarrow> pass (w\<lparr>depth := depth w + 1\<rparr>)"
    and pass_begin: "pass w \<Longrightarrow> struct_ptr w = a \<Longrightarrow> token_at m s a (Begin n) \<Longrightarrow> ok n \<Longrightarrow>
      walk w = walk (w\<lparr>depth := depth w + 1, struct_ptr := token_end a (Begin n)\<rparr>)"
    and pass_end: "pass w \<Longrightarrow> token_at m s a EndNode \<Longrightarrow>
      walk (w\<lparr>depth := depth w + 1, struct_ptr := a\<rparr>) = walk (w\<lparr>struct_ptr := a + 4\<rparr>)"
begin

lemma pass_forest_if:
  assumes "\<And>d b v. d \<in> set ds \<Longrightarrow> tokens_at m s b (flatten d) \<Longrightarrow> struct_ptr v = b \<Longrightarrow> pass v \<Longrightarrow>
      walk v = walk (v\<lparr>struct_ptr := foldl token_end b (flatten d)\<rparr>)"
    and "tokens_at m s a (concat (map flatten ds))" and "struct_ptr w = a" and "pass w"
  shows "walk w = walk (w\<lparr>struct_ptr := foldl token_end a (concat (map flatten ds))\<rparr>)"
  using assms
proof (induction ds arbitrary: a w)
  case Nil
  then show ?case by (simp add: walk_eta)
next
  case (Cons d ds)
  let ?v = "w\<lparr>struct_ptr := foldl token_end a (flatten d)\<rparr>"
  have "walk w = walk ?v"
    using Cons.prems(2-4) by (intro Cons.prems(1)) (simp_all add: tokens_at_append)
  moreover have "walk ?v =
      walk (?v\<lparr>struct_ptr := foldl token_end (struct_ptr ?v) (concat (map flatten ds))\<rparr>)"
    using Cons.prems by (intro Cons.IH) (simp_all add: tokens_at_append pass_moved)
  ultimately show ?case by simp
qed

lemma pass_body:
  assumes "tokens_at m s a (prop_tokens ps @ concat (map flatten ds))" and "struct_ptr w = a" and "pass w"
    and "\<And>d b v. d \<in> set ds \<Longrightarrow> tokens_at m s b (flatten d) \<Longrightarrow> struct_ptr v = b \<Longrightarrow> pass v \<Longrightarrow>
      walk v = walk (v\<lparr>struct_ptr := foldl token_end b (flatten d)\<rparr>)"
  shows "walk w = walk (w\<lparr>struct_ptr := foldl token_end a (prop_tokens ps @ concat (map flatten ds))\<rparr>)"
proof -
  let ?q = "foldl token_end a (prop_tokens ps)"
  have "walk w = walk (w\<lparr>struct_ptr := ?q\<rparr>)"
    using assms(1-3) by (intro pass_props) (simp_all add: tokens_at_append)
  also have "\<dots> = walk (w\<lparr>struct_ptr := ?q, struct_ptr := foldl token_end ?q (concat (map flatten ds))\<rparr>)"
    by (rule pass_forest_if [OF assms(4)]) (use assms(1,3) in \<open>simp_all add: tokens_at_append pass_moved\<close>)
  finally show ?thesis by simp
qed

lemma pass_tree:
  "names_ok ok t \<Longrightarrow> tokens_at m s a (flatten t) \<Longrightarrow> struct_ptr w = a \<Longrightarrow> pass w \<Longrightarrow>
     walk w = walk (w\<lparr>struct_ptr := foldl token_end a (flatten t)\<rparr>)"
proof (induction t arbitrary: a w)
  case (Node n ps cs)
  let ?b = "prop_tokens ps @ concat (map flatten cs)" and ?p = "token_end a (Begin n)"
  let ?w = "w\<lparr>depth := depth w + 1, struct_ptr := ?p\<rparr>"
  have t: "token_at m s a (Begin n)" "tokens_at m s ?p ?b" "token_at m s (foldl token_end ?p ?b) EndNode"
    using Node.prems(2) by (simp_all add: tokens_at_append)
  have "walk w = walk ?w" using Node.prems t(1) by (intro pass_begin) simp_all
  also have "\<dots> = walk (?w\<lparr>struct_ptr := foldl token_end ?p ?b\<rparr>)"
  proof (rule pass_body [OF t(2)])
    show "walk v = walk (v\<lparr>struct_ptr := foldl token_end b (flatten d)\<rparr>)"
      if "d \<in> set cs" "tokens_at m s b (flatten d)" "struct_ptr v = b" "pass v" for d b v
      using that Node.prems(1) by (intro Node.IH) auto
  qed (use Node.prems(4) in \<open>simp_all add: pass_moved pass_deeper\<close>)
  also have "\<dots> = walk (w\<lparr>struct_ptr := foldl token_end ?p ?b + 4\<rparr>)"
    using pass_end [OF Node.prems(4) t(3)] by simp
  finally show ?case by simp
qed

lemma pass_rest:
  assumes "tokens_at m s a (prop_tokens ps @ concat (map flatten ds))" and "struct_ptr w = a" and "pass w"
    and "\<forall>d \<in> set ds. names_ok ok d"
  shows "walk w = walk (w\<lparr>struct_ptr := foldl token_end a (prop_tokens ps @ concat (map flatten ds))\<rparr>)"
  using assms by (intro pass_body pass_tree) auto

end

section \<open>Looking up a property\<close>

lemma prop_loop_end: "be32 m (struct_ptr w) = FDT_END \<Longrightarrow> prop_loop m s pn td w = Some (0, None)"
  by (simp add: prop_loop.simps)

lemma prop_loop_next:
  "prop_step m s pn td w = Some (Inr w') \<Longrightarrow> be32 m (struct_ptr w) \<noteq> FDT_END \<Longrightarrow>
     prop_loop m s pn td w = prop_loop m s pn td w'"
  by (subst prop_loop.simps) simp

lemma prop_loop_return:
  "prop_step m s pn td w = Some (Inl r) \<Longrightarrow> be32 m (struct_ptr w) \<noteq> FDT_END \<Longrightarrow> prop_loop m s pn td w = Some r"
  by (subst prop_loop.simps) simp

text \<open>A node that is not the one looked for: the walk is too deep, or compares the empty segment before the
  first slash with a name that is not empty.\<close>

definition passes :: "int \<Rightarrow> prop_walk \<Rightarrow> bool" where
  "passes td w \<longleftrightarrow> \<not> node_found w \<and>
     (td + 1 \<le> depth w \<or> next_slash w \<noteq> 0 \<and> next_slash w = current_node_path w)"

lemma passes_updates [simp]:
  "passes td (w\<lparr>struct_ptr := p\<rparr>) \<longleftrightarrow> passes td w"
  "passes td w \<Longrightarrow> passes td (w\<lparr>depth := depth w + 1\<rparr>)"
  by (auto simp: passes_def)

lemma prop_begin_passes:
  assumes "token_at m s a (Begin n)" and "struct_ptr w = a" and "passes td w \<and> proper_name n \<or> \<not> node_found w \<and> depth w \<noteq> td \<or> node_found w"
  shows "prop_loop m s pn td w = prop_loop m s pn td (w\<lparr>struct_ptr := token_end a (Begin n), depth := depth w + 1\<rparr>)"
proof (rule prop_loop_next)
  have t: "be32 m a = FDT_BEGIN_NODE" "c_text m (a + 4) n" using assms(1) by simp_all
  then show "be32 m (struct_ptr w) \<noteq> FDT_END" using assms(2) by simp
  from unit_name_text [OF t(2)] obtain e where
    e: "unit_name m (a + 4) = Some (e, of_nat (length (base_name n)))" by blast
  have len: "length (base_name n) < 2 ^ 64"
    using t(2) length_takeWhile_le [of "\<lambda>c. c \<noteq> 0x40" n] unfolding c_text_def by linarith
  have "of_nat (length (base_name n)) \<noteq> (0 :: u64)" if "proper_name n"
    using base_name_nonempty [OF that] unat_of_nat64 [OF len] by auto
  then show "prop_step m s pn td w = Some (Inr (w\<lparr>struct_ptr := token_end a (Begin n), depth := depth w + 1\<rparr>))"
    using assms(2,3) t
    by (auto simp: prop_step_def prop_begin_def skip_name_text e inner_match_empty passes_def Let_def)
qed

interpretation pw: token_walk m s "prop_loop m s pn td" "passes td" proper_name for m s pn td
proof
  fix w :: prop_walk and a p k v n
  show "passes td w \<Longrightarrow> passes td (w\<lparr>struct_ptr := p\<rparr>)" by simp
  show "passes td w \<Longrightarrow> passes td (w\<lparr>depth := depth w + 1\<rparr>)" by simp
  show "prop_loop m s pn td w = prop_loop m s pn td (w\<lparr>struct_ptr := token_end a (Prop k v)\<rparr>)"
    if "passes td w" "struct_ptr w = a" "token_at m s a (Prop k v)"
    using that skip_prop_token [OF that(3)] by (intro prop_loop_next) (simp_all add: prop_step_def passes_def)
  show "prop_loop m s pn td w = prop_loop m s pn td (w\<lparr>depth := depth w + 1, struct_ptr := token_end a (Begin n)\<rparr>)"
    if "passes td w" "struct_ptr w = a" "token_at m s a (Begin n)" "proper_name n"
    using prop_begin_passes [OF that(3,2), of td pn] that(1,4) by (simp add: walk_order)
  show "prop_loop m s pn td (w\<lparr>depth := depth w + 1, struct_ptr := a\<rparr>) = prop_loop m s pn td (w\<lparr>struct_ptr := a + 4\<rparr>)"
    if "passes td w" "token_at m s a EndNode"
    using that by (intro prop_loop_next) (simp_all add: prop_step_def passes_def)
qed

text \<open>Once the node is found, the walk returns the first property of the given name before the next end of a
  node, of whatever node it is.\<close>

fun first_props :: "token list \<Rightarrow> (u8 list \<times> u8 list) list" where
  "first_props [] = []"
| "first_props (EndNode # ts) = []"
| "first_props (Prop k v # ts) = (k, v) # first_props ts"
| "first_props (Begin n # ts) = first_props ts"
| "first_props (Nop # ts) = first_props ts"

definition returns_prop :: "mem \<Rightarrow> u8 list \<Rightarrow> (u8 list \<times> u8 list) list \<Rightarrow> (u64 \<times> u32 option) option \<Rightarrow> bool" where
  "returns_prop m pn ps r \<longleftrightarrow>
     (case find (\<lambda>(k, v). k = pn) ps of
        None \<Rightarrow> r = Some (0, None)
      | Some (k, v) \<Rightarrow> \<exists>a. r = Some (a, Some (of_nat (length v))) \<and> read_bytes m a (length v) = v)"

lemma prop_loop_found:
  assumes "block_at m s a ts" and "struct_ptr w = a" and "node_found w" and "c_string m pa pn"
  shows "returns_prop m pn (first_props ts) (prop_loop m s pa td w)"
  using assms(1-3)
proof (induction ts arbitrary: a w rule: first_props.induct)
  case 1
  then show ?case by (simp add: block_at_def prop_loop_end returns_prop_def)
next
  case (2 ts)
  then have "prop_loop m s pa td w = Some (0, None)"
    by (intro prop_loop_return) (simp_all add: block_at_def prop_step_def)
  then show ?case by (simp add: returns_prop_def)
next
  case (3 k v ts)
  then have t: "token_at m s a (Prop k v)" "c_string m (s + ucast (be32 m (a + 4 + 4))) k" by (simp_all add: block_at_def)
  let ?w = "w\<lparr>struct_ptr := token_end a (Prop k v)\<rparr>"
  have "0 \<notin> set k" "0 \<notin> set pn" using t(2) assms(4) by (auto dest: c_string_nonzero)
  then have st: "prop_step m s pa td w =
      Some (if k = pn then Inl (a + 4 + 4 + 4, Some (of_nat (length v))) else Inr ?w)"
    using t(1) skip_prop_token [OF t(1)] strcmp_c_string [OF t(2) assms(4)] cmp_bytes_zero [of k pn] 3(3,4)
    by (simp add: prop_step_def)
  have ne: "be32 m (struct_ptr w) \<noteq> FDT_END" using t(1) 3(3) by simp
  show ?case
  proof (cases "k = pn")
    case True
    then show ?thesis using prop_loop_return [OF _ ne, of s pa td] st t(1) by (auto simp: returns_prop_def)
  next
    case False
    have "returns_prop m pn (first_props ts) (prop_loop m s pa td ?w)"
      using 3(2-4) by (intro 3(1) [of "token_end a (Prop k v)"]) (simp_all add: block_at_def)
    then show ?thesis using False prop_loop_next [OF _ ne, of s pa td ?w] st by (simp add: returns_prop_def)
  qed
next
  case (4 n ts)
  let ?w = "w\<lparr>struct_ptr := token_end a (Begin n), depth := depth w + 1\<rparr>"
  have "prop_loop m s pa td w = prop_loop m s pa td ?w"
    using 4(2-4) by (intro prop_begin_passes) (simp_all add: block_at_def)
  moreover have "returns_prop m pn (first_props ts) (prop_loop m s pa td ?w)"
    using 4(2-4) by (intro 4(1) [of "token_end a (Begin n)"]) (simp_all add: block_at_def)
  ultimately show ?case by simp
next
  case (5 ts)
  let ?w = "w\<lparr>struct_ptr := token_end a Nop\<rparr>"
  have "prop_loop m s pa td w = prop_loop m s pa td ?w"
    using 5(2-4) by (intro prop_loop_next) (simp_all add: block_at_def prop_step_def)
  moreover have "returns_prop m pn (first_props ts) (prop_loop m s pa td ?w)"
    using 5(2-4) by (intro 5(1) [of "token_end a Nop"]) (simp_all add: block_at_def)
  ultimately show ?case by simp
qed

lemma first_props_flatten: "first_props (flatten t @ ts) = leftmost_props t"
proof (induction t arbitrary: ts)
  case (Node n ps cs)
  have "first_props (map (\<lambda>(k, v). Prop k v) ps @ us) = ps @ first_props us" for us
    by (induction ps) auto
  then show ?case using Node by (cases cs) auto
qed


text \<open>The rest of the tree after the name of the root, when nothing in it can match.\<close>

lemma prop_pass_rest:
  assumes "block_at m s a (flatten (Node n ps cs))" and "\<forall>c \<in> set cs. proper c"
    and "struct_ptr w = token_end a (Begin n)" and "passes td w"
  shows "prop_loop m s pn td w = Some (0, None)"
proof -
  let ?b = "prop_tokens ps @ concat (map flatten cs)" and ?p = "token_end a (Begin n)"
  let ?r = "foldl token_end ?p ?b"
  have b: "tokens_at m s ?p ?b" "token_at m s ?r EndNode" "be32 m (?r + 4) = FDT_END"
    using assms(1) by (simp_all add: block_at_def tokens_at_append)
  have "prop_loop m s pn td w = prop_loop m s pn td (w\<lparr>struct_ptr := ?r\<rparr>)"
    using b(1) assms(3,4,2) by (rule pw.pass_rest)
  also have "\<dots> = prop_loop m s pn td (w\<lparr>struct_ptr := ?r + 4, depth := depth w - 1\<rparr>)"
    using b(2) assms(4) by (intro prop_loop_next) (simp_all add: prop_step_def passes_def)
  also have "\<dots> = Some (0, None)" using b(3) by (intro prop_loop_end) simp
  finally show ?thesis .
qed

lemma strchr_slash:
  assumes "c_text m p (0x2F # x)"
  shows "strchr m p 0x2F = Some p" and "0x2F \<notin> set x \<Longrightarrow> strchr m (p + 1) 0x2F = Some 0"
  using strchr_loop_found [of m p "[]" "0x2F" x] strchr_loop_missing [of m "p + 1" x "0x2F"] assms
  by (simp_all add: strchr_def c_text_def)

text \<open>The root node, whose empty name is what stands before the first slash.\<close>

lemma prop_begin_root:
  assumes "token_at m s a (Begin [])" and "c_text m path (0x2F # x)" and "0x2F \<notin> set x"
  shows "prop_loop m s pn 0 \<lparr>struct_ptr = a, next_slash = path, depth = 0, current_node_path = path, node_found = False\<rparr> =
    prop_loop m s pn 0 \<lparr>struct_ptr = token_end a (Begin []), next_slash = 0, depth = 1, current_node_path = path + 1,
      node_found = (x = [])\<rparr>"
proof (rule prop_loop_next)
  have t: "be32 m a = FDT_BEGIN_NODE" "c_text m (a + 4) []" using assms(1) by simp_all
  from unit_name_text [OF t(2)] obtain e where e: "unit_name m (a + 4) = Some (e, 0)" by auto
  have p: "path \<noteq> 0" "m (path + 1) = 0 \<longleftrightarrow> x = []" using assms(2) by (cases x; auto simp: c_text_def)+
  show "prop_step m s pn 0 \<lparr>struct_ptr = a, next_slash = path, depth = 0, current_node_path = path, node_found = False\<rparr> =
    Some (Inr \<lparr>struct_ptr = token_end a (Begin []), next_slash = 0, depth = 1, current_node_path = path + 1,
      node_found = (x = [])\<rparr>)"
    using t p skip_name_text [OF t(2)] strchr_slash(2) [OF assms(2,3)]
    by (simp add: prop_step_def prop_begin_def e inner_match_empty Let_def)
qed (use assms(1) in simp)

lemma dtb_init_tree:
  "tree_at m a t \<Longrightarrow> dtb_base_address (dtb_init m a st) = a \<and>
     dt_strings_ptr (dtb_init m a st) = a + ucast (be32 m (a + off_dt_strings))"
  by (simp add: tree_at_def dtb_init_def)

lemma get_property_tree:
  assumes t: "tree_at m a t" and path: "c_text m path (0x2F # x)" and pa: "c_string m pa pn"
  shows "returns_prop m pn (if x = [] then leftmost_props t else []) (dtb_get_property m path pa (dtb_init m a st))"
proof -
  let ?s = "a + ucast (be32 m (a + off_dt_strings))" and ?b = "a + ucast (be32 m (a + off_dt_struct))"
  obtain ps cs where tr: "t = Node [] ps cs" using t by (cases t) (simp add: tree_at_def)
  have b: "block_at m ?s ?b (flatten (Node [] ps cs))" and pr: "\<forall>c \<in> set cs. proper c"
    using t tr by (simp_all add: tree_at_def)
  then have root: "token_at m ?s ?b (Begin [])" by (simp add: block_at_def)
  let ?td = "int (count_list x 0x2F)"
  let ?w = "\<lparr>struct_ptr = ?b, next_slash = path, depth = 0, current_node_path = path, node_found = False\<rparr>"
  have path_nz: "path \<noteq> 0" using path by (simp add: c_text_def)
  have get: "dtb_get_property m path pa (dtb_init m a st) = prop_loop m ?s pa ?td ?w"
    using t dtb_init_tree [OF t, of st] strchr_slash(1) [OF path] path_depth_string [OF c_text_string [OF path]]
    by (simp add: dtb_get_property_def struct_start_def tree_at_def)
  show ?thesis
  proof (cases "0x2F \<in> set x")
    case True
    then have "?td \<noteq> 0" "x \<noteq> []" by (auto simp: count_list_0_iff)
    then have "prop_loop m ?s pa ?td ?w = prop_loop m ?s pa ?td (?w\<lparr>struct_ptr := token_end ?b (Begin []), depth := 1\<rparr>)"
      using prop_begin_passes [OF root, of ?w ?td pa] by simp
    also have "\<dots> = Some (0, None)"
      using path_nz by (intro prop_pass_rest [OF b pr]) (simp_all add: passes_def)
    finally show ?thesis using \<open>x \<noteq> []\<close> get by (simp add: returns_prop_def)
  next
    case False
    then have td: "?td = 0" by (simp add: count_list_0_iff)
    let ?v = "\<lparr>struct_ptr = token_end ?b (Begin []), next_slash = 0, depth = 1, current_node_path = path + 1,
      node_found = (x = [])\<rparr>"
    have step: "dtb_get_property m path pa (dtb_init m a st) = prop_loop m ?s pa 0 ?v"
      using get prop_begin_root [OF root path False, of pa] unfolding td by simp
    show ?thesis
    proof (cases "x = []")
      case True
      have "returns_prop m pn (first_props (tl (flatten t))) (prop_loop m ?s pa 0 ?v)"
        using b tr True pa by (intro prop_loop_found [where a = "token_end ?b (Begin [])"]) (simp_all add: block_at_def)
      moreover have "first_props (tl (flatten t)) = leftmost_props t"
        using first_props_flatten [of t "[]"] tr by simp
      ultimately show ?thesis using step True by simp
    next
      case False
      then have "prop_loop m ?s pa 0 ?v = Some (0, None)"
        by (intro prop_pass_rest [OF b pr]) (simp_all add: passes_def)
      then show ?thesis using step False by (simp add: returns_prop_def)
    qed
  qed
qed


section \<open>Looking up a node\<close>

lemma find_loop_end: "be32 m (struct_ptr w) = FDT_END \<Longrightarrow> find_loop m path w = Some 0"
  by (simp add: find_loop.simps)

lemma find_loop_next:
  "find_step m path w = Some (Inr w') \<Longrightarrow> be32 m (struct_ptr w) \<noteq> FDT_END \<Longrightarrow> find_loop m path w = find_loop m path w'"
  by (subst find_loop.simps) simp

lemma find_loop_return:
  "find_step m path w = Some (Inl r) \<Longrightarrow> be32 m (struct_ptr w) \<noteq> FDT_END \<Longrightarrow> find_loop m path w = Some r"
  by (subst find_loop.simps) simp

text \<open>Properties are passed everywhere, and below the depth the walk matches at whole subtrees are.\<close>

lemma find_pass_prop:
  "struct_ptr w = a \<Longrightarrow> token_at m s a (Prop k v) \<Longrightarrow>
     find_loop m path w = find_loop m path (w\<lparr>struct_ptr := token_end a (Prop k v)\<rparr>)"
  using skip_prop_token [of m s a k v] by (intro find_loop_next) (simp_all add: find_step_def)

interpretation fp: prop_pass m s "find_loop m path" "\<lambda>_. True" for m s path
  by standard (rule TrueI, erule (1) find_pass_prop)

interpretation fw: token_walk m s "find_loop m path" "\<lambda>w. path_match_depth w < depth w" "\<lambda>_. True" for m s path
proof
  fix w :: find_walk and a p k v n
  show "path_match_depth w < depth w \<Longrightarrow> path_match_depth (w\<lparr>struct_ptr := p\<rparr>) < depth (w\<lparr>struct_ptr := p\<rparr>)" by simp
  show "path_match_depth w < depth w \<Longrightarrow>
      path_match_depth (w\<lparr>depth := depth w + 1\<rparr>) < depth (w\<lparr>depth := depth w + 1\<rparr>)" by simp
  show "find_loop m path w = find_loop m path (w\<lparr>struct_ptr := token_end a (Prop k v)\<rparr>)"
    if "path_match_depth w < depth w" "struct_ptr w = a" "token_at m s a (Prop k v)"
    using that(2,3) by (rule find_pass_prop)
  show "find_loop m path w = find_loop m path (w\<lparr>depth := depth w + 1, struct_ptr := token_end a (Begin n)\<rparr>)"
    if "path_match_depth w < depth w" "struct_ptr w = a" "token_at m s a (Begin n)"
    using that skip_name_text [of m "a + 4" n]
    by (intro find_loop_next) (simp_all add: find_step_def find_begin_def walk_order)
  show "find_loop m path (w\<lparr>depth := depth w + 1, struct_ptr := a\<rparr>) = find_loop m path (w\<lparr>struct_ptr := a + 4\<rparr>)"
    if "path_match_depth w < depth w" "token_at m s a EndNode"
    using that by (intro find_loop_next) (simp_all add: find_step_def find_end_def)
qed

lemma names_ok_True [simp]: "names_ok (\<lambda>_. True) t"
  by (induction t) simp

text \<open>A child of the root, compared with the last segment of the path.\<close>

definition at_children :: "mem \<Rightarrow> u8 list \<Rightarrow> find_walk \<Rightarrow> bool" where
  "at_children m x w \<longleftrightarrow> depth w = 1 \<and> path_match_depth w = 1 \<and> next_slash w = 0 \<and> c_text m (current_path_segment w) x"

lemma find_begin_child:
  assumes "token_at m s a (Begin n)" and "struct_ptr w = a" and "at_children m x w"
  shows "find_loop m path w =
    (if named_by n x then Some (token_end a (Begin n) - 4)
     else find_loop m path (w\<lparr>struct_ptr := token_end a (Begin n), depth := 2\<rparr>))"
proof -
  have t: "be32 m a = FDT_BEGIN_NODE" "c_text m (a + 4) n" using assms(1) by simp_all
  from unit_name_text [OF t(2)] obtain e where
    e: "unit_name m (a + 4) = Some (e, of_nat (length (base_name n)))" "e \<noteq> 0 \<longleftrightarrow> 0x40 \<in> set n" by blast
  have seg: "c_text m (current_path_segment w) x" using assms(3) by (simp add: at_children_def)
  have "find_step m path w = Some (if named_by n x then Inl (token_end a (Begin n) - 4)
      else Inr (w\<lparr>struct_ptr := token_end a (Begin n), depth := 2\<rparr>))"
    using t assms(2,3) last_match_text [OF t(2) seg e(2)]
    by (simp add: find_step_def find_begin_def skip_name_text e(1) at_children_def Let_def)
  then show ?thesis using find_loop_next find_loop_return t(1) assms(2) by simp
qed

lemma find_pass_child:
  assumes "tokens_at m s a (flatten (Node n ps cs))" and "struct_ptr w = a" and "at_children m x w" and "\<not> named_by n x"
  shows "find_loop m path w = find_loop m path (w\<lparr>struct_ptr := foldl token_end a (flatten (Node n ps cs))\<rparr>)"
proof -
  let ?b = "prop_tokens ps @ concat (map flatten cs)" and ?p = "token_end a (Begin n)"
  let ?r = "foldl token_end ?p ?b"
  have t: "token_at m s a (Begin n)" "tokens_at m s ?p ?b" "token_at m s ?r EndNode"
    using assms(1) by (simp_all add: tokens_at_append)
  have d: "depth w = 1" "path_match_depth w = 1" using assms(3) by (simp_all add: at_children_def)
  have "find_loop m path w = find_loop m path (w\<lparr>struct_ptr := ?p, depth := 2\<rparr>)"
    using find_begin_child [OF t(1) assms(2,3), of path] assms(4) by simp
  also have "\<dots> = find_loop m path (w\<lparr>struct_ptr := ?p, depth := 2, struct_ptr := ?r\<rparr>)"
    using d by (intro fw.pass_rest [OF t(2)]) simp_all
  also have "\<dots> = find_loop m path (w\<lparr>depth := 2, struct_ptr := ?r\<rparr>)" by simp
  also have "\<dots> = find_loop m path (w\<lparr>struct_ptr := ?r + 4\<rparr>)"
    using t(3) d by (intro find_loop_next) (simp_all add: find_step_def find_end_def walk_order walk_eta_depth)
  finally show ?thesis by simp
qed


lemma find_children:
  assumes "tokens_at m s a (concat (map flatten cs))" and "struct_ptr w = a" and "at_children m x w"
  shows "case find (\<lambda>c. named_by (dname c) x) cs of
      Some c \<Rightarrow> \<exists>q. find_loop m path w = Some (q - 4) \<and> tokens_at m s q (tl (flatten c))
    | None \<Rightarrow> find_loop m path w = find_loop m path (w\<lparr>struct_ptr := foldl token_end a (concat (map flatten cs))\<rparr>)"
  using assms
proof (induction cs arbitrary: a w)
  case Nil
  then show ?case by (simp add: walk_eta)
next
  case (Cons c cs)
  obtain n ps ds where c: "c = Node n ps ds" by (cases c)
  have t: "tokens_at m s a (flatten (Node n ps ds))" using Cons.prems(1) c by (simp add: tokens_at_append)
  show ?case
  proof (cases "named_by n x")
    case True
    then have "find_loop m path w = Some (token_end a (Begin n) - 4)"
      using t find_begin_child [of m s a n w x path] Cons.prems(2,3) by simp
    moreover have "tokens_at m s (token_end a (Begin n)) (tl (flatten c))" using t c by simp
    ultimately show ?thesis using True c by auto
  next
    case False
    let ?w = "w\<lparr>struct_ptr := foldl token_end a (flatten c)\<rparr>"
    have "find_loop m path w = find_loop m path ?w"
      using find_pass_child [OF t Cons.prems(2,3) False] c by simp
    moreover have "at_children m x ?w" using Cons.prems(3) by (simp add: at_children_def)
    ultimately show ?thesis
      using Cons.IH [of "foldl token_end a (flatten c)" ?w] Cons.prems(1) False c
      by (simp add: tokens_at_append split: option.splits)
  qed
qed

lemma c_text_tail: "c_text m p (y # x) \<Longrightarrow> c_text m (p + 1) x"
  using c_text_char [of m p "y # x" 1] unat_plus_if' [of p 1] by (auto simp: c_text_def)

lemma find_begin_root:
  assumes "token_at m s a (Begin [])" and "c_text m path (0x2F # x)" and "0x2F \<notin> set x"
  shows "find_loop m path \<lparr>struct_ptr = a, next_slash = path, depth = 0, current_path_segment = path, path_match_depth = 0\<rparr> =
    find_loop m path \<lparr>struct_ptr = token_end a (Begin []), next_slash = 0, depth = 1, current_path_segment = path + 1,
      path_match_depth = 1\<rparr>"
proof (rule find_loop_next)
  have t: "be32 m a = FDT_BEGIN_NODE" "c_text m (a + 4) []" using assms(1) by simp_all
  from unit_name_text [OF t(2)] obtain e where e: "unit_name m (a + 4) = Some (e, 0)" by auto
  have p: "path \<noteq> 0" using assms(2) by (simp add: c_text_def)
  show "find_step m path \<lparr>struct_ptr = a, next_slash = path, depth = 0, current_path_segment = path, path_match_depth = 0\<rparr> =
    Some (Inr \<lparr>struct_ptr = token_end a (Begin []), next_slash = 0, depth = 1, current_path_segment = path + 1,
      path_match_depth = 1\<rparr>)"
    using t p skip_name_text [OF t(2)] strchr_slash(2) [OF assms(2,3)]
    by (simp add: find_step_def find_begin_def e inner_match_empty Let_def)
qed (use assms(1) in simp)

lemma find_end_root:
  assumes "token_at m s r EndNode" and "be32 m (r + 4) = FDT_END" and "c_text m path (0x2F # x)"
  shows "find_loop m path \<lparr>struct_ptr = r, next_slash = 0, depth = 1, current_path_segment = path + 1, path_match_depth = 1\<rparr> =
    Some 0"
proof -
  have "path \<noteq> 0" using assms(3) by (simp add: c_text_def)
  then have "\<not> path < path - 1" by (simp add: word_less_nat_alt unat_minus_one unat_gt_0)
  then have sb: "slash_before m path (path - 1) = path - 1" by (subst slash_before.simps) simp
  have "find_step m path \<lparr>struct_ptr = r, next_slash = 0, depth = 1, current_path_segment = path + 1, path_match_depth = 1\<rparr> =
    Some (Inr \<lparr>struct_ptr = r + 4, next_slash = path, depth = 0, current_path_segment = path, path_match_depth = 0\<rparr>)"
    using assms(1) strchr_slash(1) [OF assms(3)] sb
    by (simp add: find_step_def find_end_def Let_def)
  then show ?thesis using find_loop_next find_loop_end assms(1,2) by simp
qed

lemma find_node_tree:
  assumes t: "tree_at m a t" and path: "c_text m path (0x2F # x)" and x: "0x2F \<notin> set x"
  shows "case find (\<lambda>c. named_by (dname c) x) (dchildren t) of
      Some c \<Rightarrow> \<exists>q. dtb_find_node m path (dtb_init m a st) = Some (q - 4) \<and>
        tokens_at m (dt_strings_ptr (dtb_init m a st)) q (tl (flatten c))
    | None \<Rightarrow> dtb_find_node m path (dtb_init m a st) = Some 0"
proof -
  let ?s = "a + ucast (be32 m (a + off_dt_strings))" and ?b = "a + ucast (be32 m (a + off_dt_struct))"
  obtain ps cs where tr: "t = Node [] ps cs" using t by (cases t) (simp add: tree_at_def)
  have b: "block_at m ?s ?b (flatten (Node [] ps cs))" using t tr by (simp add: tree_at_def)
  let ?p = "token_end ?b (Begin [])"
  let ?q = "foldl token_end ?p (prop_tokens ps)"
  let ?r = "foldl token_end ?q (concat (map flatten cs))"
  let ?w = "\<lambda>p. \<lparr>struct_ptr = p, next_slash = 0, depth = 1, current_path_segment = path + 1, path_match_depth = 1\<rparr>"
  have root: "token_at m ?s ?b (Begin [])" "tokens_at m ?s ?p (prop_tokens ps)"
    "tokens_at m ?s ?q (concat (map flatten cs))" "token_at m ?s ?r EndNode" "be32 m (?r + 4) = FDT_END"
    using b by (simp_all add: block_at_def tokens_at_append)
  have "dtb_find_node m path (dtb_init m a st) = find_loop m path (?w ?p)"
    using t dtb_init_tree [OF t, of st] strchr_slash(1) [OF path] find_begin_root [OF root(1) path x]
    by (simp add: dtb_find_node_def struct_start_def tree_at_def)
  also have "\<dots> = find_loop m path (?w ?q)" using fp.pass_props [OF root(2), of "?w ?p" path] by simp
  finally have *: "dtb_find_node m path (dtb_init m a st) = find_loop m path (?w ?q)" .
  have "at_children m x (?w ?q)" using c_text_tail [OF path] by (simp add: at_children_def)
  from find_children [OF root(3) _ this, of path] show ?thesis
    using * tr dtb_init_tree [OF t, of st] find_end_root [OF root(4,5) path] by (simp split: option.splits)
qed


section \<open>Properties\<close>

text \<open>A tree with the property \<open>fb\<close> at the root and the node \<open>chosen\<close>, and the path \<open>/chosen\<close>.\<close>

definition sample_blob :: "u8 list" where
  "sample_blob =
    [0xd0, 0x0d, 0xfe, 0xed, 0, 0, 0, 91, 0, 0, 0, 40, 0, 0, 0, 88, 0, 0, 0, 0,
     0, 0, 0, 0, 0, 0, 0, 0, 0, 0, 0, 0, 0, 0, 0, 0, 0, 0, 0, 0,
     0, 0, 0, 1, 0, 0, 0, 0, 0, 0, 0, 3, 0, 0, 0, 4, 0, 0, 0, 0, 1, 2, 3, 4,
     0, 0, 0, 1, 0x63, 0x68, 0x6F, 0x73, 0x65, 0x6E, 0, 0, 0, 0, 0, 2, 0, 0, 0, 2, 0, 0, 0, 9,
     0x66, 0x62, 0, 0x2F, 0x63, 0x68, 0x6F, 0x73, 0x65, 0x6E, 0, 0x2F, 0]"

definition sample_dtb :: mem where
  "sample_dtb = write_bytes (\<lambda>_. 0) 4096 sample_blob"

abbreviation sample_tree :: dtree where
  "sample_tree \<equiv> Node [] [([0x66, 0x62], [1, 2, 3, 4])] [Node [0x63, 0x68, 0x6F, 0x73, 0x65, 0x6E] [] []]"

lemma sample_dtb_at: "sample_dtb a = (if unat (a - 4096) < 101 then sample_blob ! unat (a - 4096) else 0)"
  by (simp add: sample_dtb_def write_bytes_def sample_blob_def)

lemma sample_tree_in:
  assumes "\<And>x. unat (x - 4096) < 101 \<Longrightarrow> m x = sample_blob ! unat (x - 4096)"
  shows "tree_at m 4096 sample_tree"
  by (simp add: tree_at_def block_at_def be32_def bswap_load read_bytes_numeral read_bytes_Suc assms sample_blob_def
    c_text_def ALIGN_UP_def proper_name_def)

lemma sample_tree_at: "tree_at sample_dtb 4096 sample_tree"
  by (rule sample_tree_in) (simp add: sample_dtb_at)

lemma sample_texts:
  "c_text sample_dtb 4187 [0x2F, 0x63, 0x68, 0x6F, 0x73, 0x65, 0x6E]" "c_text sample_dtb 4195 [0x2F]"
  "c_string sample_dtb 4184 [0x66, 0x62]"
  by (simp_all add: c_text_def sample_dtb_at sample_blob_def)

text \<open>C27: \<open>bswap32\<close> and \<open>bswap64\<close> reverse the bytes of a word, and so undo themselves; a value read through
  them is the big-endian reading of the bytes in memory.\<close>

theorem bswap_correct:
  "bswap32 w = le_word (rev (le_bytes 4 w)) \<and> bswap64 v = le_word (rev (le_bytes 8 v)) \<and>
   bswap32 (bswap32 w) = w \<and> bswap64 (bswap64 v) = v \<and>
   bswap32 (load32 m a) = le_word (rev (read_bytes m a 4)) \<and> bswap64 (load64 m a) = le_word (rev (read_bytes m a 8))"
  using bswap32_bytes bswap64_bytes bswap_involution bswap_load by blast

text \<open>C25: on a flattened device tree, \<open>dtb_get_property\<close> with the path of the root returns the first property of
  the given name among those of the root and of the chain of first children below it, with its length and
  the address of its value.  With every other absolute path it returns null, so \<open>dtb_get_framebuffer_info\<close> and
  \<open>dtb_get_memory_info\<close>, which ask for \<open>/chosen\<close> and \<open>/memory\<close>, return -1 whatever the tree holds.\<close>

theorem dtb_get_property_correct:
  assumes "tree_at m a t" and "c_text m path (0x2F # x)" and "c_string m pa pn"
  shows "returns_prop m pn (if x = [] then leftmost_props t else []) (dtb_get_property m path pa (dtb_init m a st)) \<and>
    (x \<noteq> [] \<longrightarrow> dtb_get_framebuffer_info m path pa (dtb_init m a st) = Some (-1, None) \<and>
      dtb_get_memory_info m path pa (dtb_init m a st) = Some (-1, None))"
  using get_property_tree [OF assms, of st]
  by (auto simp: returns_prop_def dtb_get_framebuffer_info_def dtb_get_memory_info_def)

theorem dtb_get_property_correct_witness:
  "(\<exists>a. dtb_get_property sample_dtb 4195 4184 (dtb_init sample_dtb 4096 \<lparr>dtb_base_address = 0, dt_strings_ptr = 0\<rparr>) = Some (a, Some 4) \<and>
      read_bytes sample_dtb a 4 = [1, 2, 3, 4]) \<and>
   dtb_get_property sample_dtb 4187 4184 (dtb_init sample_dtb 4096 \<lparr>dtb_base_address = 0, dt_strings_ptr = 0\<rparr>) = Some (0, None)"
  using dtb_get_property_correct [OF sample_tree_at sample_texts(2,3), of "\<lparr>dtb_base_address = 0, dt_strings_ptr = 0\<rparr>"]
    dtb_get_property_correct [OF sample_tree_at sample_texts(1,3), of "\<lparr>dtb_base_address = 0, dt_strings_ptr = 0\<rparr>"]
  by (simp add: returns_prop_def numeral_eq_Suc)

text \<open>C26: \<open>dtb_find_node\<close> with a path of one segment finds the first child of the root with that name, with or
  without its unit address: the result is four bytes before the contents of the node.  It is null when there
  is no such child.\<close>

theorem dtb_find_node_correct:
  assumes "tree_at m a t" and "c_text m path (0x2F # x)" and "0x2F \<notin> set x"
  shows "case find (\<lambda>c. named_by (dname c) x) (dchildren t) of
      Some c \<Rightarrow> \<exists>q. dtb_find_node m path (dtb_init m a st) = Some (q - 4) \<and>
        tokens_at m (dt_strings_ptr (dtb_init m a st)) q (tl (flatten c))
    | None \<Rightarrow> dtb_find_node m path (dtb_init m a st) = Some 0"
  using find_node_tree [OF assms] .

theorem dtb_find_node_correct_witness:
  "\<exists>q. dtb_find_node sample_dtb 4187 (dtb_init sample_dtb 4096 \<lparr>dtb_base_address = 0, dt_strings_ptr = 0\<rparr>) = Some (q - 4) \<and>
     be32 sample_dtb q = FDT_END_NODE"
  using dtb_find_node_correct [OF sample_tree_at sample_texts(1), of "\<lparr>dtb_base_address = 0, dt_strings_ptr = 0\<rparr>"]
  by (auto simp: named_by_def)


end
