(* ===== verification/Vm_Maps.thy ===== *)
theory Vm_Maps
  imports Prelude
begin

text \<open>
  The table of virtual memory mappings of \<^verbatim>\<open>src/kern/memory/vm_maps.c\<close> (lines 6--160) and the W^X
  helper of \<^verbatim>\<open>src/kern/security/security.c\<close>.  The table is an array of 64 entries, a free one marked by
  its protection flags.  The abstract view is the map from a virtual address to its physical address
  and protection; the invariant says that live entries whose ends do not wrap do not overlap.
  The page tables of the same file are in \<^verbatim>\<open>Mmu.thy\<close>.
\<close>

section \<open>Definitions\<close>

record vm_map_entry =
  virtual_address :: u64
  physical_address :: u64
  vsize :: u64
  protection_flags :: u32

abbreviation VM_PROT_READ :: u32 where "VM_PROT_READ \<equiv> 0x01"
abbreviation VM_PROT_WRITE :: u32 where "VM_PROT_WRITE \<equiv> 0x02"
abbreviation VM_PROT_EXEC :: u32 where "VM_PROT_EXEC \<equiv> 0x04"
abbreviation VM_PROT_KERNEL :: u32 where "VM_PROT_KERNEL \<equiv> 0x08"
abbreviation VM_PROT_FREE :: u32 where "VM_PROT_FREE \<equiv> 0x10"

abbreviation MAX_VM_MAP_ENTRIES :: nat where "MAX_VM_MAP_ENTRIES \<equiv> 64"
abbreviation INITIAL_MAPPING_BASE :: u64 where "INITIAL_MAPPING_BASE \<equiv> 0x40000000"
abbreviation ALLOC_ALIGN :: u64 where "ALLOC_ALIGN \<equiv> 0x100000"

text \<open>The table, the number of TLB invalidations issued so far, and the diagnostics printed.\<close>

record vm_state =
  vm_map_entries :: "vm_map_entry list"
  tlb_flushes :: nat
  vm_log :: "kmsg list"

definition tlb_invalidate :: "vm_state \<Rightarrow> vm_state" where
  "tlb_invalidate st = st\<lparr>tlb_flushes := Suc (tlb_flushes st)\<rparr>"

definition vm_print :: "kmsg \<Rightarrow> vm_state \<Rightarrow> vm_state" where
  "vm_print msg st = st\<lparr>vm_log := vm_log st @ [msg]\<rparr>"

fun find_free_from :: "int \<Rightarrow> vm_map_entry list \<Rightarrow> int" where
  "find_free_from i [] = -1"
| "find_free_from i (e # es) =
     (if protection_flags e = VM_PROT_FREE then i else find_free_from (i + 1) es)"

definition find_free_vm_map_entry_slot :: "vm_state \<Rightarrow> int" where
  "find_free_vm_map_entry_slot st = find_free_from 0 (vm_map_entries st)"

fun overlap_from :: "u64 \<Rightarrow> u64 \<Rightarrow> vm_map_entry list \<Rightarrow> int" where
  "overlap_from va new_end [] = 0"
| "overlap_from va new_end (e # es) =
     (if protection_flags e \<noteq> VM_PROT_FREE \<and>
         va < virtual_address e + vsize e \<and> new_end > virtual_address e
      then 1 else overlap_from va new_end es)"

definition check_range_overlap :: "vm_state \<Rightarrow> u64 \<Rightarrow> u64 \<Rightarrow> int" where
  "check_range_overlap st va sz = overlap_from va (va + sz) (vm_map_entries st)"

definition vm_map_add_entry :: "vm_state \<Rightarrow> u64 \<Rightarrow> u64 \<Rightarrow> u64 \<Rightarrow> u32 \<Rightarrow> vm_state" where
  "vm_map_add_entry st va pa sz prot =
     (if check_range_overlap st va sz \<noteq> 0
      then vm_print (''vm_map_add_entry: mapping overlap detected at va: 0x%llx'', [va]) st
      else (let index = find_free_vm_map_entry_slot st
            in if index = -1
               then vm_print (''vm_map_add_entry: no free vm map entries!'', []) st
               else tlb_invalidate (st\<lparr>vm_map_entries := (vm_map_entries st)[nat index :=
                      \<lparr>virtual_address = va, physical_address = pa, vsize = sz,
                       protection_flags = prot\<rparr>]\<rparr>)))"

definition vm_init :: "vm_state \<Rightarrow> vm_state" where
  "vm_init st =
     vm_map_add_entry
       (st\<lparr>vm_map_entries := map (protection_flags_update (\<lambda>_. VM_PROT_FREE)) (vm_map_entries st)\<rparr>)
       0 0 0x40000000 (VM_PROT_READ OR VM_PROT_WRITE OR VM_PROT_EXEC OR VM_PROT_KERNEL)"

definition vm_map :: "vm_state \<Rightarrow> u64 \<Rightarrow> u64 \<Rightarrow> u64 \<Rightarrow> u32 \<Rightarrow> int \<times> vm_state" where
  "vm_map st va pa sz prot = (0, tlb_invalidate (vm_map_add_entry st va pa sz prot))"

text \<open>The search loop of \<open>vm_unmap\<close> and \<open>vm_protect\<close>: the first live entry at the address.\<close>

fun set_prot_from :: "u64 \<Rightarrow> u32 \<Rightarrow> vm_map_entry list \<Rightarrow> vm_map_entry list option" where
  "set_prot_from va prot [] = None"
| "set_prot_from va prot (e # es) =
     (if virtual_address e = va \<and> protection_flags e \<noteq> VM_PROT_FREE
      then Some (e\<lparr>protection_flags := prot\<rparr> # es)
      else map_option (Cons e) (set_prot_from va prot es))"

definition vm_unmap :: "vm_state \<Rightarrow> u64 \<Rightarrow> u64 \<Rightarrow> int \<times> vm_state" where
  "vm_unmap st va sz =
     (case set_prot_from va VM_PROT_FREE (vm_map_entries st) of
        Some es \<Rightarrow> (0, tlb_invalidate (st\<lparr>vm_map_entries := es\<rparr>))
      | None \<Rightarrow> (-1, st))"

definition vm_protect :: "vm_state \<Rightarrow> u64 \<Rightarrow> u64 \<Rightarrow> u32 \<Rightarrow> int \<times> vm_state" where
  "vm_protect st va sz prot =
     (case set_prot_from va prot (vm_map_entries st) of
        Some es \<Rightarrow> (0, tlb_invalidate (st\<lparr>vm_map_entries := es\<rparr>))
      | None \<Rightarrow> (-1, st))"

definition vm_map_allocate :: "vm_state \<Rightarrow> u64 \<Rightarrow> u32 \<Rightarrow> u64 \<times> vm_state" where
  "vm_map_allocate st sz prot =
     (let index = find_free_vm_map_entry_slot st
      in if index = -1
         then (0, vm_print (''vm_map_allocate: no free mapping slots available'', []) st)
         else (let allocated_va = INITIAL_MAPPING_BASE + of_int index * ALLOC_ALIGN
               in (allocated_va, vm_map_add_entry st allocated_va allocated_va sz prot)))"

definition vm_map_deallocate :: "vm_state \<Rightarrow> u64 \<Rightarrow> int \<times> vm_state" where
  "vm_map_deallocate st va = vm_unmap st va 0"

definition security_enforce_wx :: "vm_state \<Rightarrow> u64 \<Rightarrow> u64 \<Rightarrow> u32 \<Rightarrow> vm_state" where
  "security_enforce_wx st addr sz current_prot_flags =
     (if current_prot_flags AND VM_PROT_WRITE \<noteq> 0 \<and> current_prot_flags AND VM_PROT_EXEC \<noteq> 0
      then snd (vm_protect st addr sz (current_prot_flags AND NOT VM_PROT_EXEC))
      else st)"

section \<open>The table as an address map\<close>

definition live :: "vm_map_entry \<Rightarrow> bool" where
  "live e \<longleftrightarrow> protection_flags e \<noteq> VM_PROT_FREE"

definition range_of :: "vm_map_entry \<Rightarrow> nat set" where
  "range_of e = {unat (virtual_address e)..<unat (virtual_address e) + unat (vsize e)}"

text \<open>The translation the table records for an address: physical address and protection.\<close>

definition vm_abs :: "vm_map_entry list \<Rightarrow> nat \<rightharpoonup> nat \<times> u32" where
  "vm_abs es x =
     (case find (\<lambda>e. live e \<and> x \<in> range_of e) es of
        None \<Rightarrow> None
      | Some e \<Rightarrow> Some (unat (physical_address e) + (x - unat (virtual_address e)), protection_flags e))"

definition vm_wf :: "vm_map_entry list \<Rightarrow> bool" where
  "vm_wf es \<longleftrightarrow> length es = MAX_VM_MAP_ENTRIES \<and>
     (\<forall>e \<in> set es. live e \<longrightarrow> unat (virtual_address e) + unat (vsize e) < 2 ^ 64) \<and>
     (\<forall>i j. i < length es \<longrightarrow> j < length es \<longrightarrow> i \<noteq> j \<longrightarrow> live (es ! i) \<longrightarrow> live (es ! j) \<longrightarrow>
        range_of (es ! i) \<inter> range_of (es ! j) = {})"

lemma find_free_from_cases:
  assumes "0 \<le> k"
  obtains (full) "find_free_from k es = -1" and "\<forall>e \<in> set es. live e"
  | (slot) i where "i < length es" and "find_free_from k es = k + int i" and "\<not> live (es ! i)"
      and "\<forall>j<i. live (es ! j)"
proof -
  have "find_free_from k es = -1 \<and> (\<forall>e \<in> set es. live e) \<or>
        (\<exists>i<length es. find_free_from k es = k + int i \<and> \<not> live (es ! i) \<and> (\<forall>j<i. live (es ! j)))"
    using assms
  proof (induction es arbitrary: k)
    case Nil
    then show ?case by simp
  next
    case (Cons e es)
    show ?case
    proof (cases "live e")
      case True
      from Cons.IH [of "k + 1"] Cons.prems consider
        "find_free_from (k + 1) es = -1" "\<forall>e \<in> set es. live e"
        | i where "i < length es" "find_free_from (k + 1) es = k + 1 + int i" "\<not> live (es ! i)"
          "\<forall>j<i. live (es ! j)"
        by auto
      then show ?thesis
      proof cases
        case 1
        with True show ?thesis by (simp add: live_def)
      next
        case 2
        with True show ?thesis
          by (intro disjI2 exI [of _ "Suc i"]) (auto simp: live_def less_Suc_eq_0_disj)
      qed
    next
      case False
      then show ?thesis by (auto simp: live_def)
    qed
  qed
  then show ?thesis using full slot by blast
qed

lemma overlap_from_zero:
  "overlap_from va e' es = 0 \<longleftrightarrow>
     (\<forall>e \<in> set es. live e \<longrightarrow> virtual_address e + vsize e \<le> va \<or> e' \<le> virtual_address e)"
  by (induction es) (auto simp: live_def not_less)

definition at_va :: "u64 \<Rightarrow> vm_map_entry \<Rightarrow> bool" where
  "at_va va e \<longleftrightarrow> virtual_address e = va \<and> live e"

lemma set_prot_from_None: "set_prot_from va prot es = None \<longleftrightarrow> (\<forall>e \<in> set es. \<not> at_va va e)"
  by (induction es) (auto simp: at_va_def live_def)

lemma set_prot_from_Some:
  "set_prot_from va prot es = Some es' \<Longrightarrow>
     \<exists>i<length es. at_va va (es ! i) \<and> (\<forall>j<i. \<not> at_va va (es ! j)) \<and>
        es' = es[i := (es ! i)\<lparr>protection_flags := prot\<rparr>]"
proof (induction es arbitrary: es')
  case Nil
  then show ?case by simp
next
  case (Cons e es)
  show ?case
  proof (cases "at_va va e")
    case True
    with Cons.prems show ?thesis by (auto simp: at_va_def live_def intro!: exI [of _ "0::nat"])
  next
    case False
    with Cons.prems obtain es'' where "set_prot_from va prot es = Some es''" "es' = e # es''"
      by (auto simp: at_va_def live_def split: if_splits)
    with Cons.IH obtain i where "i < length es" "at_va va (es ! i)" "\<forall>j<i. \<not> at_va va (es ! j)"
      "es' = e # es[i := (es ! i)\<lparr>protection_flags := prot\<rparr>]"
      by blast
    with False show ?thesis
      by (intro exI [of _ "Suc i"]) (auto simp: less_Suc_eq_0_disj)
  qed
qed

lemma vm_wf_unique:
  assumes "vm_wf es" "e \<in> set es" "e' \<in> set es" "live e" "live e'" "x \<in> range_of e" "x \<in> range_of e'"
  shows "e = e'"
  using assms unfolding vm_wf_def in_set_conv_nth by (metis disjoint_iff)

lemma vm_abs_Some:
  assumes "vm_wf es" and "e \<in> set es" and "live e" and "x \<in> range_of e"
  shows "vm_abs es x = Some (unat (physical_address e) + (x - unat (virtual_address e)), protection_flags e)"
proof -
  from assms obtain e' where e': "find (\<lambda>e. live e \<and> x \<in> range_of e) es = Some e'"
    by (metis (mono_tags, lifting) find_None_iff not_None_eq)
  then have "e' \<in> set es" "live e'" "x \<in> range_of e'" by (auto simp: find_Some_iff)
  with assms vm_wf_unique have "e' = e" by blast
  with e' show ?thesis by (simp add: vm_abs_def)
qed

lemma vm_abs_None: "vm_abs es x = None \<longleftrightarrow> (\<forall>e \<in> set es. live e \<longrightarrow> x \<notin> range_of e)"
proof -
  have "vm_abs es x = None \<longleftrightarrow> find (\<lambda>e. live e \<and> x \<in> range_of e) es = None"
    by (simp add: vm_abs_def split: option.split)
  then show ?thesis by (auto simp: find_None_iff)
qed

text \<open>Two well-formed tables with the same live entries record the same translation.\<close>

lemma vm_abs_eqI:
  assumes wf: "vm_wf es" "vm_wf es'"
    and same: "\<And>e. live e \<Longrightarrow> x \<in> range_of e \<Longrightarrow> e \<in> set es \<longleftrightarrow> e \<in> set es'"
  shows "vm_abs es x = vm_abs es' x"
proof (cases "\<exists>e \<in> set es. live e \<and> x \<in> range_of e")
  case True
  then obtain e where "e \<in> set es" "live e" "x \<in> range_of e" by blast
  with wf same show ?thesis by (simp add: vm_abs_Some)
next
  case False
  with same show ?thesis by (metis vm_abs_None)
qed

lemma vm_wf_update:
  assumes wf: "vm_wf es" and i: "i < length es"
    and e: "live e \<Longrightarrow> unat (virtual_address e) + unat (vsize e) < 2 ^ 64 \<and>
              (\<forall>j<length es. j \<noteq> i \<longrightarrow> live (es ! j) \<longrightarrow> range_of e \<inter> range_of (es ! j) = {})"
  shows "vm_wf (es[i := e])"
proof -
  have "range_of (es[i := e] ! j) \<inter> range_of (es[i := e] ! k) = {}"
    if "j < length es" "k < length es" "j \<noteq> k" "live (es[i := e] ! j)" "live (es[i := e] ! k)" for j k
    using that wf e i by (cases "j = i"; cases "k = i") (auto simp: vm_wf_def)
  with wf e i show ?thesis
    unfolding vm_wf_def by (auto dest!: subsetD [OF set_update_subset_insert])
qed

lemma vm_wf_set_prot:
  assumes "vm_wf es" and "i < length es" and "live (es ! i)"
  shows "vm_wf (es[i := (es ! i)\<lparr>protection_flags := prot\<rparr>])"
  using assms by (intro vm_wf_update) (auto simp: vm_wf_def range_of_def)

lemma set_update_other:
  assumes "i < length es" and "e \<noteq> es ! i" and "e \<noteq> e'"
  shows "e \<in> set (es[i := e']) \<longleftrightarrow> e \<in> set es"
  using assms by (metis in_set_conv_nth length_list_update nth_list_update_neq nth_list_update_eq)

section \<open>Operations on the table\<close>

lemma ranges_apart:
  assumes "unat va + unat sz < 2 ^ 64" and "unat (virtual_address e) + unat (vsize e) < 2 ^ 64"
    and "virtual_address e + vsize e \<le> va \<or> va + sz \<le> virtual_address e"
  shows "{unat va..<unat va + unat sz} \<inter> range_of e = {}"
proof -
  have "unat (va + sz) = unat va + unat sz"
    "unat (virtual_address e + vsize e) = unat (virtual_address e) + unat (vsize e)"
    using assms(1,2) by (simp_all add: unat_word_ariths)
  with assms(3) show ?thesis by (auto simp: word_le_nat_alt range_of_def)
qed

lemma vm_map_add_entry_cases:
  obtains (overlap) "check_range_overlap st va sz \<noteq> 0"
      and "vm_map_entries (vm_map_add_entry st va pa sz prot) = vm_map_entries st"
  | (no_slot) "check_range_overlap st va sz = 0" and "\<forall>e \<in> set (vm_map_entries st). live e"
      and "vm_map_entries (vm_map_add_entry st va pa sz prot) = vm_map_entries st"
  | (added) i where "check_range_overlap st va sz = 0" and "i < length (vm_map_entries st)"
      and "\<not> live (vm_map_entries st ! i)" and "\<forall>j<i. live (vm_map_entries st ! j)"
      and "vm_map_add_entry st va pa sz prot =
        tlb_invalidate (st\<lparr>vm_map_entries := (vm_map_entries st)[i :=
          \<lparr>virtual_address = va, physical_address = pa, vsize = sz, protection_flags = prot\<rparr>]\<rparr>)"
proof (cases "check_range_overlap st va sz = 0")
  case False
  then show ?thesis by (intro overlap) (simp_all add: vm_map_add_entry_def vm_print_def)
next
  case True
  from order.refl [of "0 :: int"] show ?thesis
  proof (cases rule: find_free_from_cases [where es = "vm_map_entries st"])
    case full
    with True show ?thesis
      by (intro no_slot) (simp_all add: vm_map_add_entry_def find_free_vm_map_entry_slot_def vm_print_def Let_def)
  next
    case (slot i)
    with True show ?thesis
      by (intro added [of i]) (simp_all add: vm_map_add_entry_def find_free_vm_map_entry_slot_def Let_def)
  qed
qed

definition new_range :: "u64 \<Rightarrow> u64 \<Rightarrow> nat set" where
  "new_range va sz = {unat va..<unat va + unat sz}"

lemma added_wf:
  assumes wf: "vm_wf es" and i: "i < length es" and free: "\<not> live (es ! i)"
    and ov: "overlap_from va (va + sz) es = 0" and nw: "unat va + unat sz < 2 ^ 64"
    and e: "e = \<lparr>virtual_address = va, physical_address = pa, vsize = sz, protection_flags = prot\<rparr>"
  shows "vm_wf (es[i := e])"
proof (rule vm_wf_update [OF wf i])
  have "range_of e \<inter> range_of (es ! j) = {}" if j: "j < length es" "live (es ! j)" for j
  proof -
    have "es ! j \<in> set es" using j by simp
    then have "unat (virtual_address (es ! j)) + unat (vsize (es ! j)) < 2 ^ 64"
      "virtual_address (es ! j) + vsize (es ! j) \<le> va \<or> va + sz \<le> virtual_address (es ! j)"
      using wf ov j(2) by (auto simp: vm_wf_def overlap_from_zero)
    from ranges_apart [OF nw this] show ?thesis by (simp add: range_of_def e)
  qed
  then show "unat (virtual_address e) + unat (vsize e) < 2 ^ 64 \<and>
     (\<forall>j<length es. j \<noteq> i \<longrightarrow> live (es ! j) \<longrightarrow> range_of e \<inter> range_of (es ! j) = {})"
    using nw e by simp
qed

lemma added_abs:
  assumes wf: "vm_wf es" and i: "i < length es" and free: "\<not> live (es ! i)"
    and ov: "overlap_from va (va + sz) es = 0" and nw: "unat va + unat sz < 2 ^ 64"
    and prot: "prot \<noteq> VM_PROT_FREE"
    and e: "e = \<lparr>virtual_address = va, physical_address = pa, vsize = sz, protection_flags = prot\<rparr>"
  shows "vm_abs (es[i := e]) =
         (\<lambda>x. if x \<in> new_range va sz then Some (unat pa + (x - unat va), prot) else vm_abs es x)"
proof
  fix x
  note wf' = added_wf [OF wf i free ov nw e]
  have le: "live e" using prot by (simp add: e live_def)
  show "vm_abs (es[i := e]) x =
    (if x \<in> new_range va sz then Some (unat pa + (x - unat va), prot) else vm_abs es x)"
  proof (cases "x \<in> new_range va sz")
    case True
    then have "x \<in> range_of e" by (simp add: new_range_def range_of_def e)
    moreover have "e \<in> set (es[i := e])" using i by (rule set_update_memI)
    ultimately show ?thesis
      using vm_abs_Some [OF wf' _ le] True by (simp add: e)
  next
    case False
    have "vm_abs (es[i := e]) x = vm_abs es x"
    proof (rule vm_abs_eqI [OF wf' wf])
      fix e' assume "live e'" "x \<in> range_of e'"
      with False free have "e' \<noteq> e" "e' \<noteq> es ! i" by (auto simp: e range_of_def new_range_def)
      then show "e' \<in> set (es[i := e]) \<longleftrightarrow> e' \<in> set es" using i by (simp add: set_update_other)
    qed
    with False show ?thesis by simp
  qed
qed

lemma vm_set_prot_cases:
  obtains (missing) "\<forall>e \<in> set es. \<not> at_va va e" and "set_prot_from va prot es = None"
  | (found) i where "i < length es" and "at_va va (es ! i)" and "\<forall>j<i. \<not> at_va va (es ! j)"
      and "set_prot_from va prot es = Some (es[i := (es ! i)\<lparr>protection_flags := prot\<rparr>])"
proof (cases "set_prot_from va prot es")
  case None
  then show ?thesis using missing by (simp add: set_prot_from_None)
next
  case (Some es')
  then show ?thesis using set_prot_from_Some found by blast
qed

lemma vm_protect_wf:
  assumes "vm_wf (vm_map_entries st)"
  shows "vm_wf (vm_map_entries (snd (vm_protect st va sz prot)))"
proof (cases rule: vm_set_prot_cases [of "vm_map_entries st" va prot])
  case missing
  with assms show ?thesis by (simp add: vm_protect_def)
next
  case (found i)
  with assms show ?thesis
    by (simp add: vm_protect_def tlb_invalidate_def vm_wf_set_prot at_va_def)
qed

lemma vm_unmap_protect: "vm_unmap st va sz = vm_protect st va sz VM_PROT_FREE"
  by (simp add: vm_unmap_def vm_protect_def)

lemma vm_init_entries:
  assumes "length (vm_map_entries st) = MAX_VM_MAP_ENTRIES"
  defines "es \<equiv> map (protection_flags_update (\<lambda>_. VM_PROT_FREE)) (vm_map_entries st)"
  shows "vm_wf es" and "overlap_from va e' es = 0" and "\<And>e. e \<in> set es \<Longrightarrow> \<not> live e"
    and "vm_map_entries (vm_init st) = es[0 := \<lparr>virtual_address = 0, physical_address = 0,
           vsize = 0x40000000, protection_flags = 0x0F\<rparr>]"
proof -
  show dead: "\<not> live e" if "e \<in> set es" for e
    using that by (auto simp: es_def live_def)
  then show "vm_wf es" using assms by (auto simp: vm_wf_def)
  show ov: "overlap_from va e' es = 0" for va e'
    using dead by (auto simp: overlap_from_zero)
  have "es \<noteq> []" using assms by (auto simp: es_def)
  then have "find_free_from 0 es = 0"
    using dead by (cases es) (auto simp: live_def)
  then show "vm_map_entries (vm_init st) = es[0 := \<lparr>virtual_address = 0, physical_address = 0,
           vsize = 0x40000000, protection_flags = 0x0F\<rparr>]"
    using ov by (simp add: vm_init_def vm_map_add_entry_def check_range_overlap_def
        find_free_vm_map_entry_slot_def tlb_invalidate_def es_def [symmetric])
qed

lemma vm_init_quiet:
  assumes "length (vm_map_entries st) = MAX_VM_MAP_ENTRIES"
  shows "vm_log (vm_init st) = vm_log st" and "tlb_flushes (vm_init st) = Suc (tlb_flushes st)"
proof -
  let ?es = "map (protection_flags_update (\<lambda>_. VM_PROT_FREE)) (vm_map_entries st)"
  have "overlap_from 0 0x40000000 ?es = 0" by (rule vm_init_entries(2) [OF assms])
  moreover have "find_free_from 0 ?es = 0" using assms by (cases "vm_map_entries st") auto
  ultimately show "vm_log (vm_init st) = vm_log st" "tlb_flushes (vm_init st) = Suc (tlb_flushes st)"
    by (simp_all add: vm_init_def vm_map_add_entry_def check_range_overlap_def find_free_vm_map_entry_slot_def tlb_invalidate_def)
qed

lemma vm_init_wf:
  assumes "length (vm_map_entries st) = MAX_VM_MAP_ENTRIES"
  shows "vm_wf (vm_map_entries (vm_init st))"
  unfolding vm_init_entries(4) [OF assms]
proof (rule added_wf [OF vm_init_entries(1) [OF assms]])
  let ?es = "map (protection_flags_update (\<lambda>_. VM_PROT_FREE)) (vm_map_entries st)"
  show "0 < length ?es" using assms by simp
  then show "\<not> live (?es ! 0)" using vm_init_entries(3) [OF assms] nth_mem by blast
  show "overlap_from 0 (0 + 0x40000000) ?es = 0" by (rule vm_init_entries(2) [OF assms])
qed simp_all

section \<open>The table over time\<close>

text \<open>One call of an operation of the component, with any arguments.\<close>

inductive vm_step :: "vm_state \<Rightarrow> vm_state \<Rightarrow> bool" where
  step_map: "vm_step st (snd (vm_map st va pa sz prot))"
| step_unmap: "vm_step st (snd (vm_unmap st va sz))"
| step_protect: "vm_step st (snd (vm_protect st va sz prot))"
| step_allocate: "vm_step st (snd (vm_map_allocate st sz prot))"
| step_deallocate: "vm_step st (snd (vm_map_deallocate st va))"
| step_enforce_wx: "vm_step st (security_enforce_wx st va sz prot)"

inductive vm_reachable :: "vm_state \<Rightarrow> bool" where
  init: "length (vm_map_entries st) = MAX_VM_MAP_ENTRIES \<Longrightarrow> vm_reachable (vm_init st)"
| step: "vm_reachable st \<Longrightarrow> vm_step st st' \<Longrightarrow> vm_reachable st'"

text \<open>The end of a mapping is a sum of 64-bit words.  What every call keeps is that no two live entries overlap
  as the code compares them, with the ends as they come out; where neither sum wraps this is
  disjointness.\<close>

definition wraps :: "vm_map_entry \<Rightarrow> bool" where
  "wraps e \<longleftrightarrow> 2 ^ 64 \<le> unat (virtual_address e) + unat (vsize e)"

definition apart :: "vm_map_entry \<Rightarrow> vm_map_entry \<Rightarrow> bool" where
  "apart e f \<longleftrightarrow> virtual_address f + vsize f \<le> virtual_address e \<or> virtual_address e + vsize e \<le> virtual_address f"

definition vm_apart :: "vm_map_entry list \<Rightarrow> bool" where
  "vm_apart es \<longleftrightarrow> length es = MAX_VM_MAP_ENTRIES \<and>
     (\<forall>i j. i < length es \<longrightarrow> j < length es \<longrightarrow> i \<noteq> j \<longrightarrow> live (es ! i) \<longrightarrow> live (es ! j) \<longrightarrow> apart (es ! i) (es ! j))"

lemma apart_sym: "apart e f \<longleftrightarrow> apart f e"
  by (auto simp: apart_def)

lemma apart_disjoint:
  assumes "apart e f" and "\<not> wraps e" and "\<not> wraps f"
  shows "range_of e \<inter> range_of f = {}"
  using ranges_apart [of "virtual_address e" "vsize e" f] assms by (auto simp: apart_def wraps_def range_of_def)

lemma vm_apart_update:
  assumes ap: "vm_apart es" and i: "i < length es"
    and e: "\<And>j. live e \<Longrightarrow> j < length es \<Longrightarrow> j \<noteq> i \<Longrightarrow> live (es ! j) \<Longrightarrow> apart e (es ! j)"
  shows "vm_apart (es[i := e])"
proof -
  have "apart (es[i := e] ! j) (es[i := e] ! k)"
    if "j < length es" "k < length es" "j \<noteq> k" "live (es[i := e] ! j)" "live (es[i := e] ! k)" for j k
    using that ap e [of j] e [of k] i
    by (cases "j = i"; cases "k = i") (auto simp: vm_apart_def apart_sym [of "es ! j" e])
  with ap show ?thesis by (simp add: vm_apart_def)
qed

lemma vm_map_add_entry_apart:
  assumes "vm_apart (vm_map_entries st)"
  shows "vm_apart (vm_map_entries (vm_map_add_entry st va pa sz prot))"
proof (cases rule: vm_map_add_entry_cases [of st va sz pa prot])
  case (added i)
  let ?e = "\<lparr>virtual_address = va, physical_address = pa, vsize = sz, protection_flags = prot\<rparr>"
  have "apart ?e f" if "f \<in> set (vm_map_entries st)" "live f" for f
    using added(1) that by (auto simp: check_range_overlap_def overlap_from_zero apart_def)
  then have "vm_apart ((vm_map_entries st)[i := ?e])"
    using assms added(2) by (intro vm_apart_update) simp_all
  with added(5) show ?thesis by (simp add: tlb_invalidate_def)
qed (use assms in simp_all)

lemma vm_protect_apart:
  assumes "vm_apart (vm_map_entries st)"
  shows "vm_apart (vm_map_entries (snd (vm_protect st va sz prot)))"
proof (cases rule: vm_set_prot_cases [of "vm_map_entries st" va prot])
  case missing
  with assms show ?thesis by (simp add: vm_protect_def)
next
  case (found i)
  let ?es = "vm_map_entries st"
  have "vm_apart (?es[i := (?es ! i)\<lparr>protection_flags := prot\<rparr>])"
  proof (rule vm_apart_update [OF assms found(1)])
    fix j assume "j < length ?es" "j \<noteq> i" "live (?es ! j)"
    with assms found(1,2) have "apart (?es ! i) (?es ! j)" by (auto simp: vm_apart_def at_va_def)
    then show "apart ((?es ! i)\<lparr>protection_flags := prot\<rparr>) (?es ! j)" by (simp add: apart_def)
  qed
  with found(4) show ?thesis by (simp add: vm_protect_def tlb_invalidate_def)
qed

lemma vm_map_allocate_apart:
  "vm_apart (vm_map_entries st) \<Longrightarrow> vm_apart (vm_map_entries (snd (vm_map_allocate st sz prot)))"
  by (simp add: vm_map_allocate_def vm_print_def Let_def vm_map_add_entry_apart)

lemma vm_step_apart: "vm_step st st' \<Longrightarrow> vm_apart (vm_map_entries st) \<Longrightarrow> vm_apart (vm_map_entries st')"
  by (induction rule: vm_step.induct)
    (simp_all add: vm_map_def tlb_invalidate_def vm_map_add_entry_apart vm_unmap_protect
      vm_map_deallocate_def vm_protect_apart vm_map_allocate_apart security_enforce_wx_def)

lemma vm_init_apart:
  assumes "length (vm_map_entries st) = MAX_VM_MAP_ENTRIES"
  shows "vm_apart (vm_map_entries (vm_init st))"
  unfolding vm_init_def
proof (rule vm_map_add_entry_apart)
  have "\<not> live (map (protection_flags_update (\<lambda>_. VM_PROT_FREE)) (vm_map_entries st) ! i)"
    if "i < length (vm_map_entries st)" for i using that by (simp add: live_def)
  with assms show "vm_apart (vm_map_entries (st\<lparr>vm_map_entries :=
      map (protection_flags_update (\<lambda>_. VM_PROT_FREE)) (vm_map_entries st)\<rparr>))"
    by (simp add: vm_apart_def)
qed

lemma vm_reachable_apart: "vm_reachable st \<Longrightarrow> vm_apart (vm_map_entries st)"
  by (induction rule: vm_reachable.induct) (auto intro: vm_init_apart vm_step_apart)

text \<open>A reachable table in which no live mapping wraps is well formed.\<close>

lemma vm_apart_wf:
  assumes "vm_apart es" and "\<And>e. e \<in> set es \<Longrightarrow> live e \<Longrightarrow> \<not> wraps e"
  shows "vm_wf es"
  using assms apart_disjoint unfolding vm_apart_def vm_wf_def by (auto simp: wraps_def not_le)

section \<open>Properties\<close>

text \<open>The table before \<open>vm_init\<close>: the zeroed static array.\<close>

definition bss_vm :: vm_state where
  "bss_vm = \<lparr>vm_map_entries = replicate 64 \<lparr>virtual_address = 0, physical_address = 0, vsize = 0,
      protection_flags = 0\<rparr>, tlb_flushes = 0, vm_log = []\<rparr>"

lemma bss_vm_length: "length (vm_map_entries bss_vm) = MAX_VM_MAP_ENTRIES"
  by (simp add: bss_vm_def)

text \<open>C2: in every state the component reaches from \<open>vm_init\<close> by calls with any arguments the table has 64
  entries, and the ranges of two live mappings are disjoint unless the end of one of them, a sum of
  64 bits, wraps; so as long as no mapping wraps the table is well formed and each address has at
  most one translation.\<close>

theorem vm_no_overlap:
  assumes "vm_reachable st"
  shows "length (vm_map_entries st) = MAX_VM_MAP_ENTRIES \<and>
         (\<forall>i j. i < 64 \<and> j < 64 \<and> i \<noteq> j \<and> live (vm_map_entries st ! i) \<and> live (vm_map_entries st ! j) \<longrightarrow>
            range_of (vm_map_entries st ! i) \<inter> range_of (vm_map_entries st ! j) = {} \<or>
            wraps (vm_map_entries st ! i) \<or> wraps (vm_map_entries st ! j)) \<and>
         ((\<forall>e \<in> set (vm_map_entries st). live e \<longrightarrow> \<not> wraps e) \<longrightarrow> vm_wf (vm_map_entries st))"
proof -
  note ap = vm_reachable_apart [OF assms]
  then have "length (vm_map_entries st) = 64" by (simp add: vm_apart_def)
  moreover have "range_of (vm_map_entries st ! i) \<inter> range_of (vm_map_entries st ! j) = {}"
    if "i < 64" "j < 64" "i \<noteq> j" "live (vm_map_entries st ! i)" "live (vm_map_entries st ! j)"
      "\<not> wraps (vm_map_entries st ! i)" "\<not> wraps (vm_map_entries st ! j)" for i j
    using ap that by (intro apart_disjoint) (auto simp: vm_apart_def)
  ultimately show ?thesis using vm_apart_wf [OF ap] by auto
qed

lemma vm_init_bss_entry:
  "vm_map_entries (vm_init bss_vm) =
     \<lparr>virtual_address = 0, physical_address = 0, vsize = 0x40000000, protection_flags = 0x0F\<rparr> #
     replicate 63 \<lparr>virtual_address = 0, physical_address = 0, vsize = 0, protection_flags = VM_PROT_FREE\<rparr>"
  unfolding vm_init_entries(4) [OF bss_vm_length] by (simp add: bss_vm_def replicate_numeral)

text \<open>After \<open>vm_init\<close> the check passes for every range that starts behind the kernel mapping, and the next slot is the second.\<close>

lemma vm_map_after_init:
  assumes len: "length (vm_map_entries st) = MAX_VM_MAP_ENTRIES" and va: "0x40000000 \<le> va"
  shows "vm_map_entries (snd (vm_map (vm_init st) va pa sz prot)) =
     (vm_map_entries (vm_init st))[1 :=
        \<lparr>virtual_address = va, physical_address = pa, vsize = sz, protection_flags = prot\<rparr>]"
proof -
  let ?es = "vm_map_entries (vm_init st)"
  let ?dead = "map (protection_flags_update (\<lambda>_. VM_PROT_FREE)) (vm_map_entries st)"
  let ?k = "\<lparr>virtual_address = 0, physical_address = 0, vsize = 0x40000000, protection_flags = 0x0F\<rparr>"
  from len obtain a b es' where "vm_map_entries st = a # b # es'"
    by (cases "vm_map_entries st"; cases "tl (vm_map_entries st)") auto
  then have es: "?es = ?k # ?dead ! 1 # drop 2 ?dead"
    unfolding vm_init_entries(4) [OF len] by simp
  have "overlap_from va (va + sz) ?es = 0"
    using vm_init_entries(3) [OF len] va unfolding vm_init_entries(4) [OF len]
    by (auto simp: overlap_from_zero dest!: subsetD [OF set_update_subset_insert])
  moreover have "protection_flags (?dead ! 1) = VM_PROT_FREE" using len by simp
  then have "find_free_from 0 ?es = 1" unfolding es by simp
  ultimately show ?thesis
    by (simp add: vm_map_def vm_map_add_entry_def check_range_overlap_def find_free_vm_map_entry_slot_def tlb_invalidate_def)
qed

theorem vm_no_overlap_witness:
  "range_of (vm_map_entries (snd (vm_map (vm_init bss_vm) 0x50000000 0x50000000 0x1000 VM_PROT_READ)) ! 0) \<inter>
   range_of (vm_map_entries (snd (vm_map (vm_init bss_vm) 0x50000000 0x50000000 0x1000 VM_PROT_READ)) ! 1) = {}"
proof -
  let ?st = "snd (vm_map (vm_init bss_vm) 0x50000000 0x50000000 0x1000 VM_PROT_READ)"
  have "vm_reachable ?st"
    by (rule vm_reachable.step [OF vm_reachable.init [OF bss_vm_length] vm_step.step_map])
  from vm_no_overlap [OF this, THEN conjunct2, THEN conjunct1, rule_format, of 0 1] show ?thesis
    by (simp add: vm_map_after_init [OF bss_vm_length] vm_init_bss_entry replicate_numeral live_def wraps_def)
qed

definition covers :: "vm_map_entry \<Rightarrow> u64 \<Rightarrow> bool" where
  "covers e x \<longleftrightarrow> x - virtual_address e < vsize e"

text \<open>C3: a mapping whose range runs over the end of the address space is accepted: after \<open>vm_init\<close> any call of
  \<open>vm_map\<close> with a start behind the kernel mapping and a size that reaches past the top enters the
  mapping, and the address 0 then belongs to both live mappings.\<close>

theorem vm_map_wrap_overlaps:
  assumes "length (vm_map_entries st) = MAX_VM_MAP_ENTRIES" and "0x40000000 \<le> va"
    and "2 ^ 64 < unat va + unat sz" and "prot \<noteq> VM_PROT_FREE"
  shows "\<exists>st' e f. vm_map (vm_init st) va pa sz prot = (0, st') \<and>
           vm_map_entries st' ! 0 = e \<and> vm_map_entries st' ! 1 = f \<and>
           live e \<and> covers e 0 \<and> live f \<and> covers f 0 \<and>
           virtual_address f = va \<and> physical_address f = pa \<and> vsize f = sz \<and> protection_flags f = prot"
proof -
  let ?st' = "snd (vm_map (vm_init st) va pa sz prot)"
  note es = vm_map_after_init [OF assms(1,2), of pa sz prot] vm_init_entries(4) [OF assms(1)]
  have "unat (0 - va) < unat sz"
  proof -
    have "unat (0 - va) = 2 ^ 64 - unat va"
      using assms(2) by (subst unat_sub_if') (auto simp: word_le_nat_alt unat_eq_0)
    moreover have "unat va < 2 ^ 64" using unsigned_less [where 'a = nat and w = va] by simp
    ultimately show ?thesis using assms(3) by linarith
  qed
  then have "0 - va < sz" by (simp add: word_less_nat_alt)
  then show ?thesis
    using assms(1,4) by (intro exI [of _ ?st'] exI [of _ "vm_map_entries ?st' ! 0"] exI [of _ "vm_map_entries ?st' ! 1"])
      (simp add: es live_def covers_def, simp add: vm_map_def)
qed

theorem vm_map_wrap_overlaps_witness:
  "\<exists>st' e f. vm_map (vm_init bss_vm) 0xFFFFFFFFFFFFF000 0 0x2000 VM_PROT_READ = (0, st') \<and>
     vm_map_entries st' ! 0 = e \<and> vm_map_entries st' ! 1 = f \<and> live e \<and> covers e 0 \<and> live f \<and> covers f 0"
  using vm_map_wrap_overlaps [OF bss_vm_length, of "0xFFFFFFFFFFFFF000" "0x2000" VM_PROT_READ 0] by auto

text \<open>What \<open>check_range_overlap\<close> decides on a well-formed table without empty mappings: whether an address of the
  range is translated.\<close>

lemma overlap_spec:
  assumes wf: "vm_wf es" and ne: "\<forall>e \<in> set es. live e \<longrightarrow> 0 < vsize e"
    and nw: "unat va + unat sz < 2 ^ 64" and sz: "0 < sz"
  shows "overlap_from va (va + sz) es = 0 \<longleftrightarrow> (\<forall>x \<in> new_range va sz. vm_abs es x = None)"
proof -
  have pos: "0 < unat sz" using sz by (simp add: word_less_nat_alt)
  have "virtual_address e + vsize e \<le> va \<or> va + sz \<le> virtual_address e \<longleftrightarrow> new_range va sz \<inter> range_of e = {}"
    if e: "e \<in> set es" "live e" for e
  proof -
    have w: "unat (virtual_address e) + unat (vsize e) < 2 ^ 64" "0 < unat (vsize e)"
      using wf ne e by (auto simp: vm_wf_def word_less_nat_alt)
    then have "unat (va + sz) = unat va + unat sz"
      "unat (virtual_address e + vsize e) = unat (virtual_address e) + unat (vsize e)"
      using nw by (simp_all add: unat_word_ariths)
    then have "virtual_address e + vsize e \<le> va \<or> va + sz \<le> virtual_address e \<longleftrightarrow>
        unat (virtual_address e) + unat (vsize e) \<le> unat va \<or> unat va + unat sz \<le> unat (virtual_address e)"
      by (simp add: word_le_nat_alt)
    also have "\<dots> \<longleftrightarrow> new_range va sz \<inter> range_of e = {}"
      using w(2) pos by (auto simp: new_range_def range_of_def disjoint_iff)
    finally show ?thesis .
  qed
  then show ?thesis by (auto simp: overlap_from_zero vm_abs_None)
qed

text \<open>C14: on a table without empty mappings \<open>vm_map\<close> of a range of at least one byte adds exactly that range to the
  translation when no address of it is translated yet and a slot is left, however close its
  neighbours are; otherwise it leaves the table as it was.  It returns 0 in every case, so a refused
  mapping is reported as a success.\<close>

theorem vm_map_refines:
  assumes "vm_wf (vm_map_entries st)" and "\<forall>e \<in> set (vm_map_entries st). live e \<longrightarrow> 0 < vsize e"
    and "unat va + unat sz < 2 ^ 64" and "0 < sz" and "prot \<noteq> VM_PROT_FREE"
  shows "fst (vm_map st va pa sz prot) = 0 \<and>
         (if (\<forall>x \<in> new_range va sz. vm_abs (vm_map_entries st) x = None) \<and> (\<exists>e \<in> set (vm_map_entries st). \<not> live e)
          then vm_abs (vm_map_entries (snd (vm_map st va pa sz prot))) =
               (\<lambda>x. if x \<in> new_range va sz then Some (unat pa + (x - unat va), prot)
                    else vm_abs (vm_map_entries st) x)
          else vm_map_entries (snd (vm_map st va pa sz prot)) = vm_map_entries st)"
proof -
  note spec = overlap_spec [OF assms(1-4), symmetric]
  show ?thesis
    unfolding spec
  proof (cases rule: vm_map_add_entry_cases [of st va sz pa prot])
    case (added i)
    then have "\<exists>e \<in> set (vm_map_entries st). \<not> live e" using nth_mem by blast
    with added show "fst (vm_map st va pa sz prot) = 0 \<and>
         (if overlap_from va (va + sz) (vm_map_entries st) = 0 \<and> (\<exists>e \<in> set (vm_map_entries st). \<not> live e)
          then vm_abs (vm_map_entries (snd (vm_map st va pa sz prot))) =
               (\<lambda>x. if x \<in> new_range va sz then Some (unat pa + (x - unat va), prot)
                    else vm_abs (vm_map_entries st) x)
          else vm_map_entries (snd (vm_map st va pa sz prot)) = vm_map_entries st)"
      using added_abs [OF assms(1) added(2,3) _ assms(3,5) refl, of pa]
      by (simp add: vm_map_def tlb_invalidate_def check_range_overlap_def)
  qed (auto simp: vm_map_def tlb_invalidate_def check_range_overlap_def)
qed

text \<open>A mapping right behind the kernel's is accepted.\<close>

theorem vm_map_refines_witness:
  "vm_abs (vm_map_entries (snd (vm_map (vm_init bss_vm) 0x40000000 0x5000 0x1000 VM_PROT_READ))) =
     (\<lambda>x. if x \<in> new_range 0x40000000 0x1000 then Some (0x5000 + (x - 0x40000000), VM_PROT_READ)
          else vm_abs (vm_map_entries (vm_init bss_vm)) x)"
proof -
  have "\<forall>e \<in> set (vm_map_entries (vm_init bss_vm)). live e \<longrightarrow> 0 < vsize e"
    by (simp add: vm_init_bss_entry live_def)
  moreover have "unat (0x40000000 :: u64) + unat (0x1000 :: u64) < 2 ^ 64" "0 < (0x1000 :: u64)" "VM_PROT_READ \<noteq> VM_PROT_FREE" by simp_all
  moreover have "\<forall>x \<in> new_range 0x40000000 0x1000. vm_abs (vm_map_entries (vm_init bss_vm)) x = None"
    by (auto simp: vm_abs_None vm_init_bss_entry live_def range_of_def new_range_def)
  moreover have "\<exists>e \<in> set (vm_map_entries (vm_init bss_vm)). \<not> live e"
    by (simp add: vm_init_bss_entry live_def)
  ultimately have "vm_abs (vm_map_entries (snd (vm_map (vm_init bss_vm) 0x40000000 0x5000 0x1000 VM_PROT_READ))) =
     (\<lambda>x. if x \<in> new_range 0x40000000 0x1000 then Some (unat (0x5000 :: u64) + (x - unat (0x40000000 :: u64)), VM_PROT_READ)
          else vm_abs (vm_map_entries (vm_init bss_vm)) x)"
    using vm_map_refines [OF vm_init_wf [OF bss_vm_length], of "0x40000000" "0x1000" VM_PROT_READ "0x5000"]
    by simp
  then show ?thesis by (simp cong: if_cong)
qed

lemma set_prot_abs:
  assumes wf: "vm_wf es" and i: "i < length es" and lv: "live (es ! i)"
  shows "vm_abs (es[i := (es ! i)\<lparr>protection_flags := prot\<rparr>]) =
         (\<lambda>x. if x \<in> range_of (es ! i)
              then (if prot = VM_PROT_FREE then None
                    else map_option (\<lambda>(pa, _). (pa, prot)) (vm_abs es x))
              else vm_abs es x)"
proof
  fix x
  let ?e = "es ! i"
  let ?e' = "?e\<lparr>protection_flags := prot\<rparr>"
  let ?es = "es[i := ?e']"
  note wf' = vm_wf_set_prot [OF wf i lv, of prot]
  have rng: "range_of ?e' = range_of ?e" by (simp add: range_of_def)
  have inn: "?e \<in> set es" "?e' \<in> set ?es" using i by (simp_all add: set_update_memI)
  show "vm_abs ?es x = (if x \<in> range_of ?e
              then (if prot = VM_PROT_FREE then None else map_option (\<lambda>(pa, _). (pa, prot)) (vm_abs es x))
              else vm_abs es x)"
  proof (cases "x \<in> range_of ?e")
    case False
    have "vm_abs ?es x = vm_abs es x"
    proof (rule vm_abs_eqI [OF wf' wf])
      fix e assume "live e" "x \<in> range_of e"
      with False rng show "e \<in> set ?es \<longleftrightarrow> e \<in> set es" using i by (intro set_update_other) auto
    qed
    with False show ?thesis by simp
  next
    case True
    note old = vm_abs_Some [OF wf inn(1) lv True]
    show ?thesis
    proof (cases "prot = VM_PROT_FREE")
      case free: True
      have "x \<notin> range_of e" if "e \<in> set ?es" "live e" for e
      proof -
        from that(1) obtain j where "j < length es" "e = ?es ! j" by (auto simp: in_set_conv_nth)
        with that(2) free i have "j \<noteq> i" "e = es ! j" by (auto simp: live_def nth_list_update)
        with wf i lv that(2) \<open>j < length es\<close> have "range_of ?e \<inter> range_of e = {}"
          unfolding vm_wf_def by metis
        with True show ?thesis by auto
      qed
      then have "vm_abs ?es x = None" by (simp add: vm_abs_None)
      with True free show ?thesis by simp
    next
      case used: False
      then have "live ?e'" by (simp add: live_def)
      from vm_abs_Some [OF wf' inn(2) this] True rng old used show ?thesis by simp
    qed
  qed
qed

text \<open>C16: \<open>vm_protect\<close> changes the protection of the first live mapping that starts at the address and
  of nothing else, and \<open>vm_unmap\<close> removes that mapping whatever size is passed; both report
  success exactly when there is such a mapping and then invalidate the TLB once, and change nothing
  otherwise.\<close>

theorem vm_protect_unmap_refine:
  assumes "vm_wf (vm_map_entries st)" and "prot \<noteq> VM_PROT_FREE"
  shows "(\<forall>e \<in> set (vm_map_entries st). \<not> at_va va e) \<and>
           vm_protect st va sz prot = (-1, st) \<and> vm_unmap st va sz = (-1, st) \<or>
         (\<exists>e st1 st2. find (at_va va) (vm_map_entries st) = Some e \<and>
           vm_protect st va sz prot = (0, st1) \<and> vm_unmap st va sz = (0, st2) \<and>
           tlb_flushes st1 = Suc (tlb_flushes st) \<and> tlb_flushes st2 = Suc (tlb_flushes st) \<and>
           vm_abs (vm_map_entries st1) = (\<lambda>x. if x \<in> range_of e
             then map_option (\<lambda>(pa, _). (pa, prot)) (vm_abs (vm_map_entries st) x)
             else vm_abs (vm_map_entries st) x) \<and>
           vm_abs (vm_map_entries st2) = (\<lambda>x. if x \<in> range_of e then None
             else vm_abs (vm_map_entries st) x))"
proof (cases "\<exists>e \<in> set (vm_map_entries st). at_va va e")
  case False
  then have "set_prot_from va p (vm_map_entries st) = None" for p
    by (simp add: set_prot_from_None)
  with False show ?thesis by (intro disjI1) (simp add: vm_protect_def vm_unmap_def)
next
  case True
  let ?es = "vm_map_entries st"
  from True obtain es1 es2 where s1: "set_prot_from va prot ?es = Some es1"
    and s2: "set_prot_from va VM_PROT_FREE ?es = Some es2"
    by (meson not_Some_eq set_prot_from_None)
  from set_prot_from_Some [OF s1] obtain i where
    i: "i < length ?es" "at_va va (?es ! i)" "\<forall>k<i. \<not> at_va va (?es ! k)"
       "es1 = ?es[i := (?es ! i)\<lparr>protection_flags := prot\<rparr>]" by blast
  from set_prot_from_Some [OF s2] obtain j where
    j: "j < length ?es" "at_va va (?es ! j)" "\<forall>k<j. \<not> at_va va (?es ! k)"
       "es2 = ?es[j := (?es ! j)\<lparr>protection_flags := VM_PROT_FREE\<rparr>]" by blast
  have "j = i" using i j by (meson linorder_neqE_nat)
  moreover have "find (at_va va) ?es = Some (?es ! i)"
    using i by (auto simp: find_Some_iff)
  moreover have "live (?es ! i)" using i by (simp add: at_va_def)
  ultimately have *: "find (at_va va) ?es = Some (?es ! i)"
    and a1: "vm_abs es1 = (\<lambda>x. if x \<in> range_of (?es ! i)
             then map_option (\<lambda>(pa, _). (pa, prot)) (vm_abs ?es x) else vm_abs ?es x)"
    and a2: "vm_abs es2 = (\<lambda>x. if x \<in> range_of (?es ! i) then None else vm_abs ?es x)"
    using set_prot_abs [OF assms(1) i(1), of prot] set_prot_abs [OF assms(1) i(1), of VM_PROT_FREE]
      assms(2) i(4) j(4) by (simp_all only: if_False if_True simp_thms)
  show ?thesis
    unfolding vm_protect_def vm_unmap_def s1 s2
    by (intro disjI2 exI [of _ "?es ! i"]) (simp add: * a1 a2 tlb_invalidate_def)
qed

theorem vm_protect_unmap_refine_witness:
  "\<exists>st2. vm_unmap (vm_init bss_vm) 0 0 = (0, st2) \<and> vm_abs (vm_map_entries st2) 0x1000 = None"
proof -
  have "VM_PROT_READ \<noteq> VM_PROT_FREE" by simp
  note refine = vm_protect_unmap_refine [OF vm_init_wf [OF bss_vm_length] this, of 0 0]
  have "find (at_va 0) (vm_map_entries (vm_init bss_vm)) =
     Some \<lparr>virtual_address = 0, physical_address = 0, vsize = 0x40000000, protection_flags = 0x0F\<rparr>"
    by (simp add: vm_init_bss_entry at_va_def live_def)
  with refine show ?thesis
    by (auto simp: vm_init_bss_entry at_va_def live_def range_of_def)
qed

text \<open>\<open>vm_init\<close> maps the first gigabyte to itself with all permissions and nothing else.\<close>

theorem vm_init_identity:
  assumes "length (vm_map_entries st) = MAX_VM_MAP_ENTRIES"
  shows "vm_abs (vm_map_entries (vm_init st)) =
         (\<lambda>x. if x < 2 ^ 30
              then Some (x, VM_PROT_READ OR VM_PROT_WRITE OR VM_PROT_EXEC OR VM_PROT_KERNEL) else None)"
proof -
  let ?es = "map (protection_flags_update (\<lambda>_. VM_PROT_FREE)) (vm_map_entries st)"
  have "0 < length ?es" using assms by simp
  then have dead: "\<not> live (?es ! 0)" using vm_init_entries(3) [OF assms] nth_mem by blast
  have "vm_abs ?es x = None" for x
    using vm_init_entries(3) [OF assms] by (auto simp: vm_abs_None)
  moreover have "vm_abs (vm_map_entries (vm_init st)) =
     (\<lambda>x. if x \<in> new_range 0 0x40000000 then Some (unat (0 :: u64) + (x - unat (0 :: u64)), 0x0F)
          else vm_abs ?es x)"
    unfolding vm_init_entries(4) [OF assms]
    by (rule added_abs [OF vm_init_entries(1) [OF assms] \<open>0 < length ?es\<close> dead
          vm_init_entries(2) [OF assms] _ _ refl]) simp_all
  ultimately show ?thesis by (auto simp: new_range_def fun_eq_iff)
qed

theorem vm_init_identity_witness:
  "vm_abs (vm_map_entries (vm_init bss_vm)) 0x1234 = Some (0x1234, 0x0F)"
  using vm_init_identity [OF bss_vm_length] by simp

text \<open>\<open>vm_map_allocate\<close> chooses the address from the slot number alone: when the range it chose is
  already mapped it still returns the address, and nothing is mapped there.\<close>

theorem vm_map_allocate_unmapped:
  assumes "find_free_vm_map_entry_slot st = int i" and "i < 64"
    and "check_range_overlap st (0x40000000 + of_nat i * 0x100000) sz \<noteq> 0"
  shows "fst (vm_map_allocate st sz prot) = 0x40000000 + of_nat i * 0x100000 \<and>
         fst (vm_map_allocate st sz prot) \<noteq> 0 \<and>
         vm_map_entries (snd (vm_map_allocate st sz prot)) = vm_map_entries st"
proof -
  have va: "0x40000000 + of_nat i * 0x100000 = (of_nat (0x40000000 + i * 0x100000) :: u64)" by simp
  have "unat (of_nat (0x40000000 + i * 0x100000) :: u64) = 0x40000000 + i * 0x100000"
    using assms(2) by (intro unat_of_nat64) simp
  then have "(of_nat (0x40000000 + i * 0x100000) :: u64) \<noteq> 0" by (metis add_is_0 unat_0 zero_neq_numeral)
  then have "0x40000000 + of_nat i * 0x100000 \<noteq> (0 :: u64)" unfolding va .
  with assms show ?thesis
    by (simp add: vm_map_allocate_def Let_def vm_map_add_entry_def vm_print_def)
qed

text \<open>The second of two allocations after boot, the first of two megabytes.\<close>

theorem vm_map_allocate_unmapped_witness:
  "let st = snd (vm_map_allocate (vm_init bss_vm) 0x200000 VM_PROT_READ) in
   fst (vm_map_allocate st 0x1000 VM_PROT_READ) = 0x40200000 \<and>
   vm_map_entries (snd (vm_map_allocate st 0x1000 VM_PROT_READ)) = vm_map_entries st"
proof -
  let ?st = "snd (vm_map_allocate (vm_init bss_vm) 0x200000 VM_PROT_READ)"
  have slot: "find_free_vm_map_entry_slot (vm_init bss_vm) = 1"
    by (simp add: find_free_vm_map_entry_slot_def vm_init_bss_entry replicate_numeral)
  have "check_range_overlap (vm_init bss_vm) 0x40100000 0x200000 = 0"
    unfolding check_range_overlap_def vm_init_bss_entry
    by (simp add: overlap_from_zero live_def)
  with slot have "vm_map_entries ?st = (vm_map_entries (vm_init bss_vm))[1 :=
      \<lparr>virtual_address = 0x40100000, physical_address = 0x40100000, vsize = 0x200000,
       protection_flags = VM_PROT_READ\<rparr>]"
    by (simp add: vm_map_allocate_def vm_map_add_entry_def tlb_invalidate_def)
  then have es: "vm_map_entries ?st =
      \<lparr>virtual_address = 0, physical_address = 0, vsize = 0x40000000, protection_flags = 0x0F\<rparr> #
      \<lparr>virtual_address = 0x40100000, physical_address = 0x40100000, vsize = 0x200000,
       protection_flags = VM_PROT_READ\<rparr> #
      replicate 62 \<lparr>virtual_address = 0, physical_address = 0, vsize = 0, protection_flags = VM_PROT_FREE\<rparr>"
    by (simp add: vm_init_bss_entry replicate_numeral)
  have "find_free_vm_map_entry_slot ?st = int 2"
    by (simp add: find_free_vm_map_entry_slot_def es replicate_numeral)
  moreover have "check_range_overlap ?st (0x40000000 + of_nat 2 * 0x100000) 0x1000 \<noteq> 0"
    by (simp add: check_range_overlap_def es)
  ultimately show ?thesis
    using vm_map_allocate_unmapped [of ?st 2 "0x1000" VM_PROT_READ] by simp
qed

lemma wx_flags:
  assumes "f AND VM_PROT_WRITE \<noteq> 0"
  shows "f AND NOT VM_PROT_EXEC \<noteq> VM_PROT_FREE" and "(f AND NOT VM_PROT_EXEC) AND VM_PROT_EXEC = 0"
proof -
  have "bit f 1" using assms by (auto simp: bit_iff_and_push_bit_not_eq_0 push_bit_eq_mult)
  then have "bit (f AND NOT VM_PROT_EXEC) 1" by (simp add: bit_simps)
  moreover have "\<not> bit VM_PROT_FREE 1" by simp
  ultimately show "f AND NOT VM_PROT_EXEC \<noteq> VM_PROT_FREE" by metis
qed (rule bit_word_eqI; auto simp: bit_simps bit_numeral_rec)

text \<open>C34: \<open>security_enforce_wx\<close> called with the flags of a mapping takes the execute permission from
  that mapping when it was both writable and executable, and changes no other translation; called with
  flags that are not both, it does nothing.\<close>

theorem security_enforce_wx_removes_exec:
  assumes "vm_wf (vm_map_entries st)" and "find (at_va va) (vm_map_entries st) = Some e"
    and "flags = protection_flags e"
  shows "let es' = vm_map_entries (security_enforce_wx st va sz flags);
             wx = flags AND VM_PROT_WRITE \<noteq> 0 \<and> flags AND VM_PROT_EXEC \<noteq> 0;
             flags' = (if wx then flags AND NOT VM_PROT_EXEC else flags)
         in vm_wf es' \<and> \<not> (flags' AND VM_PROT_WRITE \<noteq> 0 \<and> flags' AND VM_PROT_EXEC \<noteq> 0) \<and>
            vm_abs es' = (\<lambda>x. if x \<in> range_of e
              then map_option (\<lambda>(pa, _). (pa, flags')) (vm_abs (vm_map_entries st) x)
              else vm_abs (vm_map_entries st) x)"
proof -
  let ?es = "vm_map_entries st"
  from assms(2) obtain i where i: "i < length ?es" "e = ?es ! i" "at_va va e"
    and first: "\<forall>k<i. \<not> at_va va (?es ! k)" by (auto simp: find_Some_iff)
  then have lv: "live e" by (simp add: at_va_def)
  show ?thesis
  proof (cases "flags AND VM_PROT_WRITE \<noteq> 0 \<and> flags AND VM_PROT_EXEC \<noteq> 0")
    case True
    define new where "new = flags AND NOT VM_PROT_EXEC"
    have not_free: "(new = VM_PROT_FREE) = False" using wx_flags(1) [of flags] True by (simp add: new_def)
    have "\<exists>es1. set_prot_from va new ?es = Some es1" using i nth_mem set_prot_from_None by (metis not_Some_eq)
    then obtain es1 where es1: "set_prot_from va new ?es = Some es1" ..
    from set_prot_from_Some [OF this] obtain j where
      j: "j < length ?es" "at_va va (?es ! j)" "\<forall>k<j. \<not> at_va va (?es ! k)"
         "es1 = ?es[j := (?es ! j)\<lparr>protection_flags := new\<rparr>]" by blast
    have "j = i" using i j first by (meson linorder_neqE_nat)
    with j i lv have "vm_wf es1" using vm_wf_set_prot [OF assms(1) i(1)] by simp
    moreover have "vm_map_entries (security_enforce_wx st va sz flags) = es1"
      using True es1 by (simp add: security_enforce_wx_def vm_protect_def tlb_invalidate_def new_def)
    moreover have "vm_abs es1 = (\<lambda>x. if x \<in> range_of e
        then map_option (\<lambda>(pa, _). (pa, new)) (vm_abs ?es x) else vm_abs ?es x)"
      using set_prot_abs [OF assms(1) i(1), of new] lv not_free j(4)
      by (simp only: \<open>j = i\<close> i(2) if_False simp_thms)
    moreover have "new AND VM_PROT_EXEC = 0" unfolding new_def using True by (intro wx_flags(2)) simp
    ultimately show ?thesis
      unfolding Let_def new_def [symmetric] using True by (simp only: if_True simp_thms)
  next
    case False
    have "vm_abs ?es x = map_option (\<lambda>(pa, _). (pa, flags)) (vm_abs ?es x)" if "x \<in> range_of e" for x
      using vm_abs_Some [OF assms(1) nth_mem [OF i(1)]] i lv that assms(3) by simp
    with False assms(1) show ?thesis
      by (auto simp: security_enforce_wx_def fun_eq_iff)
  qed
qed

theorem security_enforce_wx_removes_exec_witness:
  "vm_abs (vm_map_entries (security_enforce_wx (vm_init bss_vm) 0 0x40000000 0x0F)) 0x1000 =
     Some (0x1000, 0x0B)"
proof -
  have "find (at_va 0) (vm_map_entries (vm_init bss_vm)) =
     Some \<lparr>virtual_address = 0, physical_address = 0, vsize = 0x40000000, protection_flags = 0x0F\<rparr>"
    by (simp add: vm_init_bss_entry at_va_def live_def)
  from security_enforce_wx_removes_exec [OF vm_init_wf [OF bss_vm_length] this, of "0x0F" "0x40000000"]
  have "vm_abs (vm_map_entries (security_enforce_wx (vm_init bss_vm) 0 0x40000000 0x0F)) 0x1000 =
    map_option (\<lambda>(pa, _). (pa, 0x0B)) (vm_abs (vm_map_entries (vm_init bss_vm)) 0x1000)"
    by (simp add: Let_def range_of_def)
  moreover have "vm_abs (vm_map_entries (vm_init bss_vm)) 0x1000 = Some (0x1000, 0x0F)"
    by (simp add: vm_init_bss_entry vm_abs_def live_def range_of_def)
  ultimately show ?thesis by simp
qed

end
