(* ===== verification/Cpu.thy ===== *)
theory Cpu
  imports Prelude
begin

text \<open>
  The processor as the C code sees it through inline assembly, the core states of
  \<^verbatim>\<open>src/kern/cpu/cpu.c\<close>, the panic and halt code of \<^verbatim>\<open>src/kern/debug/crash_core.c\<close> and the register
  save and restore of \<^verbatim>\<open>src/kern/cpu/context_switch.s\<close>.  A core has its system registers, its general
  registers and the sequence of system instructions it has executed, which records their order.
  Code that ends in an endless \<open>wfi\<close> loop yields the state the core is parked in.
\<close>

section \<open>The processor\<close>

datatype sysreg = MPIDR_EL1 | VBAR_EL1 | MAIR_EL1 | TCR_EL1 | TTBR0_EL1 | SCTLR_EL1 | CNTPCT_EL0 |
  SP_EL0 | ELR_EL1 | SPSR_EL1

datatype sysop = MSR sysreg u64 | TLBI_VMALLE1IS | DSB_SY | ISB_SY | WFI | WFE | SEV | SEVL |
  DAIFSET u64 | DAIFCLR u64

datatype cpu_state = CPU_STATE_IDLE | CPU_STATE_RUNNING | CPU_STATE_HALTED

text \<open>\<open>xreg n\<close> is register \<open>xn\<close>; \<open>pc\<close> is set where the code branches to an address it computed.
  \<open>cpu_states\<close> is the static array of \<^verbatim>\<open>cpu.c\<close>, which the cores share.\<close>

record cpu =
  sysregs :: "sysreg \<Rightarrow> u64"
  xreg :: "nat \<Rightarrow> u64"
  sp_reg :: u64
  pc :: u64
  irq_masked :: bool
  sys_trace :: "sysop list"
  cpu_states :: "cpu_state list"
  console :: "kmsg list"

abbreviation MAX_CORES :: nat where "MAX_CORES \<equiv> 8"

definition sys_op :: "sysop \<Rightarrow> cpu \<Rightarrow> cpu" where
  "sys_op x c = c\<lparr>sys_trace := sys_trace c @ [x]\<rparr>"

definition msr :: "sysreg \<Rightarrow> u64 \<Rightarrow> cpu \<Rightarrow> cpu" where
  "msr r v c = sys_op (MSR r v) (c\<lparr>sysregs := (sysregs c)(r := v)\<rparr>)"

definition mrs :: "sysreg \<Rightarrow> cpu \<Rightarrow> u64" where
  "mrs r c = sysregs c r"

definition kprint :: "kmsg \<Rightarrow> cpu \<Rightarrow> cpu" where
  "kprint msg c = c\<lparr>console := console c @ [msg]\<rparr>"

text \<open>What a call does with control: return, or park the core in an endless loop.\<close>

datatype 's outcome = Returns 's | Parked 's

section \<open>\<^verbatim>\<open>cpu.c\<close>\<close>

definition cpu_enable_interrupts :: "cpu \<Rightarrow> cpu" where
  "cpu_enable_interrupts c = sys_op (DAIFCLR 2) (c\<lparr>irq_masked := False\<rparr>)"

definition cpu_disable_interrupts :: "cpu \<Rightarrow> cpu" where
  "cpu_disable_interrupts c = sys_op (DAIFSET 2) (c\<lparr>irq_masked := True\<rparr>)"

definition cpu_wfi :: "cpu \<Rightarrow> cpu" where "cpu_wfi = sys_op WFI"
definition cpu_wfe :: "cpu \<Rightarrow> cpu" where "cpu_wfe = sys_op WFE"
definition cpu_sev :: "cpu \<Rightarrow> cpu" where "cpu_sev = sys_op SEV"
definition cpu_sevl :: "cpu \<Rightarrow> cpu" where "cpu_sevl = sys_op SEVL"

definition cpu_get_core_id :: "cpu \<Rightarrow> u64" where
  "cpu_get_core_id c =
     (mrs MPIDR_EL1 c AND 0xff) OR (drop_bit 8 (mrs MPIDR_EL1 c) AND 0xff00)"

text \<open>
  The loop of the idle state.  The array element is volatile and an interrupt handler may change
  it: \<open>reads n\<close> is what the \<open>n\<close>-th evaluation of the loop condition reads.  The loop ends when a read
  differs from \<open>CPU_STATE_IDLE\<close>; the array then holds the value read.
\<close>

partial_function (option) idle_loop :: "(nat \<Rightarrow> cpu_state) \<Rightarrow> nat \<Rightarrow> nat \<Rightarrow> cpu \<Rightarrow> cpu option" where
  "idle_loop reads core n c =
     (if reads n = CPU_STATE_IDLE then idle_loop reads core (Suc n) (cpu_wfi c)
      else Some (c\<lparr>cpu_states := (cpu_states c)[core := reads n]\<rparr>))"

definition cpu_set_state :: "(nat \<Rightarrow> cpu_state) \<Rightarrow> cpu_state \<Rightarrow> cpu \<Rightarrow> cpu outcome option" where
  "cpu_set_state reads state c =
     (let core_id = cpu_get_core_id c
      in if core_id \<ge> of_nat MAX_CORES then Some (Returns c)
         else (let c1 = c\<lparr>cpu_states := (cpu_states c)[unat core_id := state]\<rparr>
               in case state of
                    CPU_STATE_IDLE \<Rightarrow> map_option Returns (idle_loop reads (unat core_id) 0 c1)
                  | CPU_STATE_HALTED \<Rightarrow> Some (Parked (cpu_disable_interrupts c1))
                  | CPU_STATE_RUNNING \<Rightarrow> Some (Returns c1)))"

definition cpu_get_state :: "cpu \<Rightarrow> cpu_state" where
  "cpu_get_state c =
     (if cpu_get_core_id c < of_nat MAX_CORES then cpu_states c ! unat (cpu_get_core_id c)
      else CPU_STATE_RUNNING)"

definition cpu_get_system_timer_count :: "cpu \<Rightarrow> u64" where
  "cpu_get_system_timer_count c = mrs CNTPCT_EL0 c"

section \<open>\<^verbatim>\<open>crash_core.c\<close>\<close>

text \<open>\<open>cpu_set_state\<close> with any state but idle does not read the volatile element.\<close>

definition cpu_halt :: "cpu \<Rightarrow> cpu outcome" where
  "cpu_halt c = the (cpu_set_state (\<lambda>_. CPU_STATE_HALTED) CPU_STATE_HALTED c)"

definition check_and_halt_core :: "cpu \<Rightarrow> cpu outcome" where
  "check_and_halt_core c = (if cpu_get_core_id c \<noteq> 0 then cpu_halt c else Returns c)"

definition crash_core :: "u64 \<Rightarrow> cpu \<Rightarrow> cpu outcome" where
  "crash_core core_id c =
     (if core_id \<ge> of_nat MAX_CORES then Returns c
      else if cpu_get_core_id c = core_id then cpu_halt c else Returns c)"

text \<open>\<open>crash_core_panic\<close> ends in \<open>while (1)\<close> when \<open>cpu_set_state\<close> returns.\<close>

definition crash_core_panic :: "kmsg \<Rightarrow> cpu \<Rightarrow> cpu outcome" where
  "crash_core_panic msg c =
     (case cpu_halt (kprint (''\<newline>'', []) (kprint msg (kprint (''kernel panic: '', []) c))) of
        Returns c' \<Rightarrow> Parked c' | Parked c' \<Rightarrow> Parked c')"

section \<open>\<^verbatim>\<open>context_switch.s\<close>\<close>

text \<open>\<open>stp xa, xb, [xn, #off]\<close> and \<open>ldp xa, xb, [xn, #off]\<close>; the base is read before the pair is loaded.\<close>

definition stp :: "nat \<Rightarrow> nat \<Rightarrow> nat \<Rightarrow> u64 \<Rightarrow> cpu \<times> mem \<Rightarrow> cpu \<times> mem" where
  "stp a b n off s = (let (c, m) = s; p = xreg c n + off
     in (c, store64 (store64 m p (xreg c a)) (p + 8) (xreg c b)))"

definition ldp :: "nat \<Rightarrow> nat \<Rightarrow> nat \<Rightarrow> u64 \<Rightarrow> cpu \<times> mem \<Rightarrow> cpu \<times> mem" where
  "ldp a b n off s = (let (c, m) = s; p = xreg c n + off
     in (c\<lparr>xreg := (xreg c)(a := load64 m p, b := load64 m (p + 8))\<rparr>, m))"

definition str_x :: "nat \<Rightarrow> nat \<Rightarrow> u64 \<Rightarrow> cpu \<times> mem \<Rightarrow> cpu \<times> mem" where
  "str_x a n off s = (let (c, m) = s in (c, store64 m (xreg c n + off) (xreg c a)))"

definition ldr_x :: "nat \<Rightarrow> nat \<Rightarrow> u64 \<Rightarrow> cpu \<times> mem \<Rightarrow> cpu \<times> mem" where
  "ldr_x a n off s = (let (c, m) = s in (c\<lparr>xreg := (xreg c)(a := load64 m (xreg c n + off))\<rparr>, m))"

definition mrs_x :: "nat \<Rightarrow> sysreg \<Rightarrow> cpu \<times> mem \<Rightarrow> cpu \<times> mem" where
  "mrs_x a r s = (let (c, m) = s in (c\<lparr>xreg := (xreg c)(a := mrs r c)\<rparr>, m))"

definition msr_x :: "sysreg \<Rightarrow> nat \<Rightarrow> cpu \<times> mem \<Rightarrow> cpu \<times> mem" where
  "msr_x r a s = (let (c, m) = s in (msr r (xreg c a) c, m))"

type_synonym insn = "cpu \<times> mem \<Rightarrow> cpu \<times> mem"

definition run :: "insn list \<Rightarrow> insn" where
  "run is = fold (\<lambda>i. i) is"

definition context_save :: insn where
  "context_save = run [
      stp 0 1 0 0, stp 2 3 0 16, stp 4 5 0 32, stp 6 7 0 48,
      stp 8 9 0 64, stp 10 11 0 80, stp 12 13 0 96, stp 14 15 0 112,
      stp 16 17 0 128, stp 18 19 0 144, stp 20 21 0 160, stp 22 23 0 176,
      stp 24 25 0 192, stp 26 27 0 208, stp 28 29 0 224, str_x 30 0 240,
      mrs_x 10 SP_EL0, str_x 10 0 248, mrs_x 10 ELR_EL1, str_x 10 0 256,
      mrs_x 10 SPSR_EL1, str_x 10 0 264]"

definition context_restore :: insn where
  "context_restore = run [
      ldp 0 1 1 0, ldp 2 3 1 16, ldp 4 5 1 32, ldp 6 7 1 48,
      ldp 8 9 1 64, ldp 10 11 1 80, ldp 12 13 1 96, ldp 14 15 1 112,
      ldp 16 17 1 128, ldp 18 19 1 144, ldp 20 21 1 160, ldp 22 23 1 176,
      ldp 24 25 1 192, ldp 26 27 1 208, ldp 28 29 1 224, ldr_x 30 1 240,
      ldr_x 10 1 248, msr_x SP_EL0 10, ldr_x 10 1 256, msr_x ELR_EL1 10,
      ldr_x 10 1 264, msr_x SPSR_EL1 10]"

text \<open>Called with the two context addresses in \<open>x0\<close> and \<open>x1\<close>; \<open>ret\<close> branches to \<open>x30\<close>.\<close>

definition context_switch :: "cpu \<times> mem \<Rightarrow> cpu \<times> mem" where
  "context_switch s = (let (c, m) = context_restore (context_save s) in (c\<lparr>pc := xreg c 30\<rparr>, m))"

section \<open>Core states\<close>

lemma cpu_get_core_id_unat:
  "unat (cpu_get_core_id c) =
     unat (take_bit 8 (mrs MPIDR_EL1 c)) + 256 * unat (take_bit 8 (drop_bit 16 (mrs MPIDR_EL1 c)))"
proof -
  let ?w = "mrs MPIDR_EL1 c"
  have ff: "(0xff :: u64) = mask 8" "(0xff00 :: u64) = push_bit 8 (mask 8)"
    by (simp_all add: mask_eq_exp_minus_1 push_bit_eq_mult)
  have 1: "?w AND 0xff = take_bit 8 ?w" by (simp only: ff take_bit_eq_mask)
  have 2: "drop_bit 8 ?w AND 0xff00 = push_bit 8 (take_bit 8 (drop_bit 16 ?w))"
    unfolding ff by (rule bit_word_eqI) (auto simp: bit_simps)
  have "(?w AND 0xff) AND (drop_bit 8 ?w AND 0xff00) = 0"
    unfolding 1 2 by (rule bit_word_eqI) (auto simp: bit_simps)
  then have "cpu_get_core_id c = take_bit 8 ?w + push_bit 8 (take_bit 8 (drop_bit 16 ?w))"
    unfolding cpu_get_core_id_def 1 2 by (simp add: disjunctive_add_eq_or)
  moreover have "unat (push_bit 8 (take_bit 8 (drop_bit 16 ?w))) = 256 * unat (take_bit 8 (drop_bit 16 ?w))"
    by (simp add: push_bit_eq_mult unat_word_ariths unsigned_take_bit_eq take_bit_eq_mod)
  ultimately show ?thesis
    by (simp add: unat_word_ariths unsigned_take_bit_eq take_bit_eq_mod)
qed

lemma cpu_halt_eq:
  "cpu_halt c =
     (if 8 \<le> cpu_get_core_id c then Returns c
      else Parked (cpu_disable_interrupts (c\<lparr>cpu_states :=
             (cpu_states c)[unat (cpu_get_core_id c) := CPU_STATE_HALTED]\<rparr>)))"
  by (simp add: cpu_halt_def cpu_set_state_def Let_def)

lemma cpu_disable_sel:
  "cpu_states (cpu_disable_interrupts c) = cpu_states c" "irq_masked (cpu_disable_interrupts c)"
  "cpu_get_core_id (cpu_disable_interrupts c) = cpu_get_core_id c"
  "cpu_get_core_id (c\<lparr>cpu_states := x\<rparr>) = cpu_get_core_id c"
  by (simp_all add: cpu_disable_interrupts_def sys_op_def cpu_get_core_id_def mrs_def)

lemma idle_loop_returns:
  assumes "reads k \<noteq> CPU_STATE_IDLE" and "\<forall>j. n \<le> j \<and> j < k \<longrightarrow> reads j = CPU_STATE_IDLE" and "n \<le> k"
  shows "idle_loop reads core n c =
    Some ((c\<lparr>sys_trace := sys_trace c @ replicate (k - n) WFI\<rparr>)
            \<lparr>cpu_states := (cpu_states c)[core := reads k]\<rparr>)"
  using assms
proof (induction "k - n" arbitrary: n c)
  case 0
  then show ?case by (subst idle_loop.simps) simp
next
  case (Suc d)
  then have "n < k" "reads n = CPU_STATE_IDLE" by auto
  moreover have "k - n = Suc (k - Suc n)" using \<open>n < k\<close> by simp
  ultimately show ?case
    using Suc by (subst idle_loop.simps) (simp add: cpu_wfi_def sys_op_def replicate_append_same)
qed

section \<open>Context switches\<close>

lemmas insn_defs = stp_def ldp_def str_x_def ldr_x_def mrs_x_def msr_x_def

lemma insn_sysregs:
  "sysregs (fst (stp a b n off s)) = sysregs (fst s)" "sysregs (fst (ldp a b n off s)) = sysregs (fst s)"
  "sysregs (fst (str_x a n off s)) = sysregs (fst s)" "sysregs (fst (ldr_x a n off s)) = sysregs (fst s)"
  "sysregs (fst (mrs_x a r s)) = sysregs (fst s)"
  "q \<noteq> r \<Longrightarrow> sysregs (fst (msr_x r a s)) q = sysregs (fst s) q"
  by (simp_all add: insn_defs Let_def msr_def sys_op_def split: prod.splits)

text \<open>A context switch leaves the table base register alone.\<close>

lemma context_switch_ttbr0: "sysregs (fst (context_switch s)) TTBR0_EL1 = sysregs (fst s) TTBR0_EL1"
proof -
  have "sysregs (fst (context_switch s)) = sysregs (fst (context_restore (context_save s)))"
    by (simp add: context_switch_def split: prod.splits)
  then show ?thesis by (simp add: context_save_def context_restore_def run_def insn_sysregs)
qed

lemma upt_31: "[0..<31] = [0, Suc 0, 2, 3, 4, 5, 6, 7, 8, 9, 10, 11, 12, 13, 14, 15, 16, 17, 18, 19, 20, 21, 22, 23, 24, 25, 26, 27, 28, 29, 30]" "[2..<31] = [2, 3, 4, 5, 6, 7, 8, 9, 10, 11, 12, 13, 14, 15, 16, 17, 18, 19, 20, 21, 22, 23, 24, 25, 26, 27, 28, 29, 30]"
  by code_simp+

lemma context_save_words:
  assumes "xreg c 0 = a" and "n < 31"
  shows "load64 (snd (context_save (c, m))) (a + of_nat (8 * n)) = xreg c n"
proof -
  have "list_all (\<lambda>n. load64 (snd (context_save (c, m))) (a + of_nat (8 * n)) = xreg c n) [0..<31]"
    using assms(1)
    by (simp add: context_save_def run_def insn_defs Let_def load64_store64_offs load64_store64_same
      add.commute [of "numeral _" a] upt_31)
  with assms(2) show ?thesis by (simp add: list_all_iff)
qed

lemma context_save_sysregs:
  assumes "xreg c 0 = a"
  shows "load64 (snd (context_save (c, m))) (a + 248) = mrs SP_EL0 c"
    and "load64 (snd (context_save (c, m))) (a + 256) = mrs ELR_EL1 c"
    and "load64 (snd (context_save (c, m))) (a + 264) = mrs SPSR_EL1 c"
  using assms
  by (simp_all add: context_save_def run_def insn_defs Let_def load64_store64_offs load64_store64_same
      add.commute [of "numeral _" a] mrs_def)

lemma store64_off_frame:
  assumes "x \<notin> region a n" and "unat i + 8 \<le> n" and "n < 2 ^ 64"
  shows "store64 m (a + i) v x = m x"
proof (rule store64_frame)
  show "x \<notin> region (a + i) 8"
  proof
    assume "x \<in> region (a + i) 8"
    then obtain k where k: "k < 8" "x = a + i + of_nat k" by (rule regionE)
    then have "x = a + of_nat (unat i + k)" by (simp add: add.assoc)
    moreover have "a + of_nat (unat i + k) \<in> region a n" using k assms by (intro region_offset) auto
    ultimately show False using assms(1) by simp
  qed
qed

lemma context_save_frame:
  assumes "xreg c 0 = a" and "x \<notin> region a 272"
  shows "snd (context_save (c, m)) x = m x"
  using assms store64_off_frame [OF assms(2), of 0]
  by (simp add: context_save_def run_def insn_defs Let_def store64_off_frame [OF assms(2)]
      add.commute [of "numeral _" a] mrs_def)

lemma context_restore_words:
  assumes "xreg c 1 = a" and "load64 m (a + 8) = b"
  shows "xreg (fst (context_restore (c, m))) 0 = load64 m a"
    and "n < 31 \<Longrightarrow> 1 < n \<Longrightarrow> n \<noteq> 10 \<Longrightarrow>
           xreg (fst (context_restore (c, m))) n = load64 m (b + of_nat (8 * n))"
proof -
  show "xreg (fst (context_restore (c, m))) 0 = load64 m a"
    using assms by (simp add: context_restore_def run_def insn_defs Let_def msr_def sys_op_def)
  have "list_all (\<lambda>n. n \<noteq> 10 \<longrightarrow>
      xreg (fst (context_restore (c, m))) n = load64 m (b + of_nat (8 * n))) [2..<31]"
    using assms by (simp add: context_restore_def run_def insn_defs Let_def msr_def sys_op_def
        upt_31 add.commute [of "numeral _" b])
  then show "n < 31 \<Longrightarrow> 1 < n \<Longrightarrow> n \<noteq> 10 \<Longrightarrow>
           xreg (fst (context_restore (c, m))) n = load64 m (b + of_nat (8 * n))"
    unfolding list_all_iff set_upt by simp
qed


lemma context_save_xreg: "n \<noteq> 10 \<Longrightarrow> xreg (fst (context_save (c, m))) n = xreg c n"
  by (simp add: context_save_def run_def insn_defs Let_def)

lemma context_switch_xreg:
  "xreg (fst (context_switch s)) n = xreg (fst (context_restore (context_save s))) n"
  "pc (fst (context_switch s)) = xreg (fst (context_restore (context_save s))) 30"
  "snd (context_switch s) = snd (context_save s)"
proof -
  have "snd (context_restore s) = snd s" for s
    by (cases s) (simp add: context_restore_def run_def insn_defs Let_def)
  then show "snd (context_switch s) = snd (context_save s)"
    by (simp add: context_switch_def split: prod.splits) (metis snd_conv)
qed (simp_all add: context_switch_def split: prod.splits)

section \<open>Properties\<close>

text \<open>C35: \<open>context_switch\<close> saves the general registers and the exception state of the running task in
  272 bytes from the address in \<open>x0\<close> on, and writes nothing else.\<close>

theorem context_switch_saves:
  assumes "xreg c 0 = a"
  shows "(\<forall>n<31. load64 (snd (context_switch (c, m))) (a + of_nat (8 * n)) = xreg c n) \<and>
         load64 (snd (context_switch (c, m))) (a + 248) = mrs SP_EL0 c \<and>
         load64 (snd (context_switch (c, m))) (a + 256) = mrs ELR_EL1 c \<and>
         load64 (snd (context_switch (c, m))) (a + 264) = mrs SPSR_EL1 c \<and>
         (\<forall>x. x \<notin> region a 272 \<longrightarrow> snd (context_switch (c, m)) x = m x)"
  unfolding context_switch_xreg
  using context_save_words [OF assms] context_save_sysregs [OF assms] context_save_frame [OF assms] by blast

definition sample_cpu :: "u64 \<Rightarrow> u64 \<Rightarrow> u64 \<Rightarrow> cpu" where
  "sample_cpu x0 x1 v = \<lparr>sysregs = (\<lambda>_. v), xreg = (\<lambda>n. if n = 0 then x0 else if n = 1 then x1 else v),
     sp_reg = 0, pc = 0, irq_masked = True, sys_trace = [], cpu_states = replicate 8 CPU_STATE_IDLE,
     console = []\<rparr>"

theorem context_switch_saves_witness:
  "load64 (snd (context_switch (sample_cpu 0x1000 0x2000 7, \<lambda>_. 0))) 0x1108 = 7"
proof -
  have "xreg (sample_cpu 0x1000 0x2000 7) 0 = 0x1000" by (simp add: sample_cpu_def)
  from context_switch_saves [OF this] show ?thesis by (simp add: sample_cpu_def mrs_def)
qed

text \<open>C28: switching from one task to another and back does not bring the first task's registers back.
  The first load of the restore sequence replaces its own base register \<open>x1\<close> by the value saved there,
  the address of the other task's context, so the other registers are read from the context that was
  saved last: the first task resumes with the registers and the return address of the second.\<close>

theorem context_switch_round_trip_wrong:
  assumes "xreg ca 0 = a" and "xreg ca 1 = b" and "xreg cb 0 = b" and "xreg cb 1 = a"
    and "region a 272 \<inter> region b 272 = {}"
    and "\<forall>x \<in> region a 272. m' x = snd (context_switch (ca, m)) x"
  shows "(\<forall>n. 1 < n \<and> n < 31 \<and> n \<noteq> 10 \<longrightarrow> xreg (fst (context_switch (cb, m'))) n = xreg cb n) \<and>
         pc (fst (context_switch (cb, m'))) = xreg cb 30"
proof -
  let ?s = "context_save (cb, m')"
  have sub: "region (a + 8) 8 \<subseteq> region a 272"
  proof
    fix x assume "x \<in> region (a + 8) 8"
    then obtain i where "i < 8" "x = a + of_nat (8 + i)" by (auto elim!: regionE simp: add.assoc)
    then show "x \<in> region a 272" by (simp only:) (rule region_offset, auto)
  qed
  have "load64 (snd ?s) (a + 8) = load64 m' (a + 8)"
    using sub assms(5) by (intro load64_cong context_save_frame [OF assms(3)]) auto
  also have "\<dots> = load64 (snd (context_save (ca, m))) (a + 8)"
    using sub assms(6) by (intro load64_cong) (auto simp: context_switch_xreg)
  also have "\<dots> = b"
    using context_save_words [OF assms(1), of 1 m] assms(2) by simp
  finally have x1: "load64 (snd ?s) (a + 8) = b" .
  have "xreg (fst ?s) 1 = a" using assms(4) by (simp add: context_save_xreg)
  from context_restore_words(2) [OF this x1]
  have "xreg (fst (context_switch (cb, m'))) n = xreg cb n" if "1 < n" "n < 31" "n \<noteq> 10" for n
    using that context_save_words [OF assms(3), of n m'] by (simp add: context_switch_xreg)
  then show ?thesis by (simp add: context_switch_xreg)
qed

theorem context_switch_round_trip_wrong_witness:
  "let m = snd (context_switch (sample_cpu 0x1000 0x2000 7, \<lambda>_. 0))
   in xreg (fst (context_switch (sample_cpu 0x2000 0x1000 9, m))) 19 = 9"
proof -
  let ?ca = "sample_cpu 0x1000 0x2000 7" and ?cb = "sample_cpu 0x2000 0x1000 9"
  have r: "xreg ?ca 0 = 0x1000" "xreg ?ca 1 = 0x2000" "xreg ?cb 0 = 0x2000" "xreg ?cb 1 = 0x1000"
    by (simp_all add: sample_cpu_def)
  have "region 0x1000 272 \<inter> region 0x2000 272 = {}"
    using region_apart [of 272 "0x2000" "0x1000" 272 0] by simp
  from context_switch_round_trip_wrong [OF r this, of "snd (context_switch (?ca, \<lambda>_. 0))" "\<lambda>_. 0"]
  show ?thesis by (simp add: Let_def) (simp add: sample_cpu_def)
qed

text \<open>C36: \<open>check_and_halt_core\<close> lets the boot core go on and parks the cores with ids 1 to 7 with
  interrupts masked and the state recorded.  The id is the first affinity field plus 256 times the
  third, so the second is ignored, and a core whose id is 8 or more is not parked.\<close>

theorem check_and_halt_core_parks:
  assumes "length (cpu_states c) = MAX_CORES"
  shows "let aff0 = unat (mrs MPIDR_EL1 c) mod 2 ^ 8;
             aff2 = unat (mrs MPIDR_EL1 c) div 2 ^ 16 mod 2 ^ 8; core_id = aff0 + 2 ^ 8 * aff2
         in if core_id = 0 \<or> MAX_CORES \<le> core_id then check_and_halt_core c = Returns c
            else \<exists>c'. check_and_halt_core c = Parked c' \<and> irq_masked c' \<and>
                   cpu_get_state c' = CPU_STATE_HALTED \<and>
                   (\<forall>k < MAX_CORES. k \<noteq> core_id \<longrightarrow> cpu_states c' ! k = cpu_states c ! k)"
proof -
  let ?w = "mrs MPIDR_EL1 c"
  have id: "unat ?w mod 2 ^ 8 + 2 ^ 8 * (unat ?w div 2 ^ 16 mod 2 ^ 8) = unat (cpu_get_core_id c)"
    unfolding cpu_get_core_id_unat
    by (simp add: take_bit_eq_mod drop_bit_eq_div unat_mod_distrib unat_div_distrib)
  have *: "cpu_get_core_id c = 0 \<longleftrightarrow> unat (cpu_get_core_id c) = 0"
    "8 \<le> cpu_get_core_id c \<longleftrightarrow> 8 \<le> unat (cpu_get_core_id c)"
    by (simp_all add: unat_eq_0 word_le_nat_alt)
  show ?thesis
    unfolding Let_def id
    using assms
    by (auto simp: check_and_halt_core_def cpu_halt_eq * cpu_get_state_def cpu_disable_sel
        word_less_nat_alt)
qed

theorem check_and_halt_core_parks_witness:
  "check_and_halt_core ((sample_cpu 0 0 0)\<lparr>sysregs := (\<lambda>_. 0x80010000)\<rparr>) =
     Returns ((sample_cpu 0 0 0)\<lparr>sysregs := (\<lambda>_. 0x80010000)\<rparr>)"
  using check_and_halt_core_parks [of "(sample_cpu 0 0 0)\<lparr>sysregs := (\<lambda>_. 0x80010000)\<rparr>"]
  by (simp add: sample_cpu_def mrs_def)


end
