(* ===== verification/Allocator.thy ===== *)
theory Allocator
  imports Prelude
begin

text \<open>
  The contract of a kernel heap, as the callers of \<open>kmalloc\<close> and \<open>kfree\<close> rely on it (the file
  system, the virtual file system, the scheduler and the page tables), and what follows from it for
  a caller.  A set of pairs of address and size records the live allocations.
  \<^verbatim>\<open>Kmalloc.thy\<close> shows that \<^verbatim>\<open>kmalloc.c\<close> fulfils the contract.
\<close>

text \<open>The bytes of every live allocation are the same in both memories.\<close>

definition unchanged :: "(nat \<times> nat) set \<Rightarrow> mem \<Rightarrow> mem \<Rightarrow> bool" where
  "unchanged L m m' \<longleftrightarrow> (\<forall>(p, n) \<in> L. \<forall>x. p \<le> unat x \<longrightarrow> unat x < p + n \<longrightarrow> m' x = m x)"

lemma unchanged_refl [simp]: "unchanged L m m"
  by (simp add: unchanged_def)

lemma unchanged_trans: "unchanged L m m' \<Longrightarrow> unchanged L m' m'' \<Longrightarrow> unchanged L m m''"
  by (fastforce simp: unchanged_def)

lemma unchanged_mono: "unchanged L m m' \<Longrightarrow> K \<subseteq> L \<Longrightarrow> unchanged K m m'"
  by (fastforce simp: unchanged_def)

locale allocator =
  fixes alloc :: "'s \<Rightarrow> u64 \<Rightarrow> (u64 \<times> 's) option"
    and release :: "'s \<Rightarrow> u64 \<Rightarrow> 's option"
    and ok :: "'s \<Rightarrow> (nat \<times> nat) set \<Rightarrow> bool"
    and bytes :: "'s \<Rightarrow> mem"
    and put :: "'s \<Rightarrow> mem \<Rightarrow> 's"
    and area :: "'s \<Rightarrow> u64 set"
    and fits :: "'s \<Rightarrow> u64 \<Rightarrow> bool"
  assumes alloc_spec:
    "ok s L \<Longrightarrow> 0 < unat sz \<Longrightarrow> unat sz + 7 < 2 ^ 64 \<Longrightarrow>
       \<exists>p s'. alloc s sz = Some (p, s') \<and>
         (p = 0 \<and> s' = s \<or>
          p \<noteq> 0 \<and> (\<exists>k\<ge>unat sz. ok s' (insert (unat p, k) L)) \<and>
          (\<forall>j. (unat p, j) \<notin> L) \<and> unchanged L (bytes s) (bytes s'))"
    and release_spec:
    "ok s L \<Longrightarrow> (p, n) \<in> L \<Longrightarrow>
       \<exists>s'. release s (of_nat p) = Some s' \<and> ok s' (L - {(p, n)}) \<and>
            unchanged (L - {(p, n)}) (bytes s) (bytes s')"
    and release_null: "release s 0 = Some s"
    and put_ok:
    "ok s L \<Longrightarrow> (p, n) \<in> L \<Longrightarrow>
       (\<And>x. unat x < p \<or> p + n \<le> unat x \<Longrightarrow> m x = bytes s x) \<Longrightarrow> ok (put s m) L"
    and bytes_put: "bytes (put s m) = m"
    and live_bounds: "ok s L \<Longrightarrow> (p, n) \<in> L \<Longrightarrow> 0 < p \<and> p + n < 2 ^ 64"
    and live_apart:
    "ok s L \<Longrightarrow> (p, n) \<in> L \<Longrightarrow> (q, k) \<in> L \<Longrightarrow> (p, n) \<noteq> (q, k) \<Longrightarrow> p + n \<le> q \<or> q + k \<le> p"
    and alloc_outside:
    "ok s L \<Longrightarrow> alloc s sz = Some (a, s') \<Longrightarrow>
       area s' = area s \<and> (\<forall>x. x \<notin> area s \<longrightarrow> bytes s' x = bytes s x)"
    and release_outside:
    "ok s L \<Longrightarrow> (p, n) \<in> L \<Longrightarrow> release s (of_nat p) = Some s' \<Longrightarrow>
       area s' = area s \<and> (\<forall>x. x \<notin> area s \<longrightarrow> bytes s' x = bytes s x)"
    and area_put: "area (put s m) = area s"
    and live_area: "ok s L \<Longrightarrow> (p, n) \<in> L \<Longrightarrow> p \<le> unat x \<Longrightarrow> unat x < p + n \<Longrightarrow> x \<in> area s"
    and alloc_fits: "ok s L \<Longrightarrow> sz \<noteq> 0 \<Longrightarrow> fits s sz \<Longrightarrow> alloc s sz = Some (a, s') \<Longrightarrow> a \<noteq> 0"
    and release_fits:
    "ok s L \<Longrightarrow> sz \<noteq> 0 \<Longrightarrow> alloc s sz = Some (a, s') \<Longrightarrow> a \<noteq> 0 \<Longrightarrow> release s' a = Some s'' \<Longrightarrow> fits s'' sz"
begin

lemma alloc_cases:
  assumes "ok s L" and "0 < unat sz" and "unat sz + 7 < 2 ^ 64"
  obtains (null) "alloc s sz = Some (0, s)"
  | (block) p s' k where "alloc s sz = Some (p, s')" and "p \<noteq> 0" and "unat sz \<le> k"
      and "ok s' (insert (unat p, k) L)" and "\<forall>j. (unat p, j) \<notin> L"
      and "unchanged L (bytes s) (bytes s')"
  using alloc_spec [OF assms] by blast

text \<open>Temporary memory: what is allocated and then released leaves the live set as it was.\<close>

lemma alloc_release:
  assumes "ok s L" and "0 < unat sz" and "unat sz + 7 < 2 ^ 64" and "alloc s sz = Some (p, s')"
  shows "\<exists>s''. release s' p = Some s'' \<and> ok s'' L \<and> unchanged L (bytes s) (bytes s'')"
  using assms(1-3)
proof (cases rule: alloc_cases)
  case null
  with assms show ?thesis by (simp add: release_null)
next
  case (block q t k)
  with assms(4) have "p = q" and "s' = t" by simp_all
  from release_spec [OF block(4), of "unat q" k] obtain s'' where
    "release t q = Some s''" "ok s'' (insert (unat q, k) L - {(unat q, k)})"
    "unchanged (insert (unat q, k) L - {(unat q, k)}) (bytes t) (bytes s'')"
    by auto
  moreover have "insert (unat q, k) L - {(unat q, k)} = L" using block(5) by auto
  ultimately show ?thesis
    using \<open>p = q\<close> \<open>s' = t\<close> block(6) unchanged_trans by auto
qed

text \<open>A fresh block shares no byte with any block that was live before.\<close>

lemma alloc_fresh:
  assumes "ok s L" and "0 < unat sz" and "unat sz + 7 < 2 ^ 64"
    and "alloc s sz = Some (p, s')" and "p \<noteq> 0" and "(q, k) \<in> L"
  shows "unat p + unat sz \<le> q \<or> q + k \<le> unat p"
  using assms(1-3)
proof (cases rule: alloc_cases)
  case null
  with assms show ?thesis by simp
next
  case (block p' t j)
  with assms have "p = p'" "s' = t" by simp_all
  with block assms(6) show ?thesis
    using live_apart [OF block(4), of "unat p'" j q k] by fastforce
qed

text \<open>Filling part of a live block leaves the heap in order and the other blocks alone.\<close>

lemma fill_block:
  assumes ok: "ok s L" and live: "(p, n) \<in> L"
    and m: "\<And>x. unat x < p \<or> p + n \<le> unat x \<Longrightarrow> m x = bytes s x"
  shows "ok (put s m) L" and "unchanged (L - {(p, n)}) (bytes s) (bytes (put s m))"
proof -
  show "ok (put s m) L" by (rule put_ok [OF ok live m])
  have "m x = bytes s x"
    if "(q, k) \<in> L" "(q, k) \<noteq> (p, n)" "q \<le> unat x" "unat x < q + k" for q k x
    using live_apart [OF ok that(1) live that(2)] that(3,4) by (intro m) auto
  then show "unchanged (L - {(p, n)}) (bytes s) (bytes (put s m))"
    unfolding unchanged_def bytes_put by blast
qed

text \<open>A field of a live block: storing into it, and reading it after others have changed.\<close>

lemma live_field:
  assumes "ok s L" and "(p, n) \<in> L" and "unat off + w \<le> n" and "x \<in> region (of_nat p + off) w"
  shows "p \<le> unat x \<and> unat x < p + n"
proof -
  have pn: "p + n < 2 ^ 64" using live_bounds [OF assms(1,2)] by simp
  obtain i where i: "i < w" "x = of_nat p + off + of_nat i" using assms(4) by (rule regionE)
  then have "x = of_nat (p + unat off + i)" by simp
  moreover have "unat (of_nat (p + unat off + i) :: u64) = p + unat off + i"
    using i assms(3) pn by (intro unat_of_nat64) simp
  ultimately have "unat x = p + unat off + i" by (simp only:)
  with i assms(3) show ?thesis by simp
qed

lemma write_field:
  assumes "ok s L" and "(p, n) \<in> L" and "unat off + length bs \<le> n"
    and m: "m = write_bytes (bytes s) (of_nat p + off) bs"
  shows "ok (put s m) L" and "unchanged (L - {(p, n)}) (bytes s) m" and "area (put s m) = area s"
    and "x \<notin> area s \<Longrightarrow> m x = bytes s x"
proof -
  have out: "m x = bytes s x" if "unat x < p \<or> p + n \<le> unat x" for x
    unfolding m
  proof (rule write_bytes_frame)
    show "x \<notin> region (of_nat p + off) (length bs)"
      using live_field [OF assms(1-3), of x] that by (meson not_le)
  qed
  show "ok (put s m) L" and "unchanged (L - {(p, n)}) (bytes s) m"
    using fill_block [OF assms(1,2) out] by (simp_all add: bytes_put)
  show "area (put s m) = area s" by (rule area_put)
  show "x \<notin> area s \<Longrightarrow> m x = bytes s x"
    using out live_area [OF assms(1,2), of x] by (meson not_le)
qed

lemma read_field:
  assumes "ok s L" and "(p, n) \<in> L" and "unat off + 8 \<le> n" and "unchanged L (bytes s) m"
  shows "load64 m (of_nat p + off) = load64 (bytes s) (of_nat p + off)"
proof (rule load64_cong)
  fix x assume "x \<in> region (of_nat p + off) 8"
  from live_field [OF assms(1-3) this] assms(2,4) show "m x = bytes s x"
    by (auto simp: unchanged_def)
qed

end

end
