(* ===== verification/Kmalloc.thy ===== *)
theory Kmalloc
  imports Allocator
begin

text \<open>
  The kernel heap of \<^verbatim>\<open>src/kern/memory/kmalloc.c\<close>: a first-fit allocator whose free list is a
  singly linked list of \<open>block_header_t\<close> structs laid out in the heap itself.  The definitions
  work on the byte memory; the list walks are partial functions, because nothing in the code stops
  them on a cyclic list.  The abstract view is the list of blocks that tile the heap, as pairs of a
  payload size and a free flag, and the lemmas show that the pointer code implements first-fit
  allocation, release and one coalescing pass on that list.
\<close>

section \<open>Block headers\<close>

record block_header =
  bh_size :: u64
  bh_next :: u64
  bh_free :: u32

text \<open>\<open>sizeof(block_header_t)\<close>: two 8-byte fields, a 4-byte field and 4 bytes of padding.\<close>

abbreviation HDR :: nat where
  "HDR \<equiv> 24"

abbreviation SIZEOF_HDR :: u64 where
  "SIZEOF_HDR \<equiv> 24"

definition rd_hdr :: "mem \<Rightarrow> u64 \<Rightarrow> block_header" where
  "rd_hdr m a = \<lparr>bh_size = load64 m a, bh_next = load64 m (a + 8), bh_free = load32 m (a + 16)\<rparr>"

definition wr_hdr :: "mem \<Rightarrow> u64 \<Rightarrow> block_header \<Rightarrow> mem" where
  "wr_hdr m a h = write_bytes m a (le_bytes 8 (bh_size h) @ le_bytes 8 (bh_next h) @ le_bytes 4 (bh_free h))"

section \<open>The allocator\<close>

record kheap =
  mem :: mem
  heap_start_ptr :: u64
  total_heap_size :: u64

definition kmalloc_init :: "kheap \<Rightarrow> u64 \<Rightarrow> u64 \<Rightarrow> kheap" where
  "kmalloc_init st heap_start heap_size =
     \<lparr>mem = wr_hdr (mem st) heap_start
               \<lparr>bh_size = heap_size - SIZEOF_HDR, bh_next = 0, bh_free = 1\<rparr>,
      heap_start_ptr = heap_start, total_heap_size = heap_size\<rparr>"

text \<open>The body of the \<open>if\<close> in the loop of \<open>kmalloc\<close>: split the block when it is large enough.\<close>

definition kmalloc_take :: "mem \<Rightarrow> u64 \<Rightarrow> u64 \<Rightarrow> mem" where
  "kmalloc_take m sz current =
     (let h = rd_hdr m current;
          m1 = (if bh_size h > sz + SIZEOF_HDR
                then (let new_block = current + SIZEOF_HDR + sz;
                          m' = wr_hdr m new_block
                                 \<lparr>bh_size = bh_size h - sz - SIZEOF_HDR,
                                  bh_next = bh_next h, bh_free = 1\<rparr>
                      in wr_hdr m' current
                           ((rd_hdr m' current)\<lparr>bh_next := new_block, bh_size := sz\<rparr>))
                else m)
      in wr_hdr m1 current ((rd_hdr m1 current)\<lparr>bh_free := 0\<rparr>))"

partial_function (option) kmalloc_scan :: "mem \<Rightarrow> u64 \<Rightarrow> u64 \<Rightarrow> (u64 \<times> mem) option" where
  "kmalloc_scan m sz current =
     (if current = 0 then Some (0, m)
      else if bh_free (rd_hdr m current) \<noteq> 0 \<and> bh_size (rd_hdr m current) \<ge> sz
      then Some (current + SIZEOF_HDR, kmalloc_take m sz current)
      else kmalloc_scan m sz (bh_next (rd_hdr m current)))"

definition align8 :: "u64 \<Rightarrow> u64" where
  "align8 sz = (sz + 7) AND NOT 7"

definition kmalloc :: "kheap \<Rightarrow> u64 \<Rightarrow> (u64 \<times> kheap) option" where
  "kmalloc st sz =
     (if sz = 0 then Some (0, st)
      else do {
        (p, m) \<leftarrow> kmalloc_scan (mem st) (align8 sz) (heap_start_ptr st);
        Some (p, st\<lparr>mem := m\<rparr>)
      })"

text \<open>One iteration of the coalescing loop of \<open>kfree\<close>.\<close>

definition kfree_step :: "mem \<Rightarrow> u64 \<Rightarrow> mem" where
  "kfree_step m current =
     (let h = rd_hdr m current; n = rd_hdr m (bh_next h)
      in if bh_free h \<noteq> 0 \<and> bh_next h \<noteq> 0 \<and> bh_free n \<noteq> 0 \<and>
            current + SIZEOF_HDR + bh_size h = bh_next h
         then wr_hdr m current
                (h\<lparr>bh_size := bh_size h + (SIZEOF_HDR + bh_size n), bh_next := bh_next n\<rparr>)
         else m)"

partial_function (option) kfree_scan :: "mem \<Rightarrow> u64 \<Rightarrow> mem option" where
  "kfree_scan m current =
     (if current = 0 then Some m
      else kfree_scan (kfree_step m current) (bh_next (rd_hdr (kfree_step m current) current)))"

definition kfree :: "kheap \<Rightarrow> u64 \<Rightarrow> kheap option" where
  "kfree st ptr =
     (if ptr = 0 then Some st
      else (let block = ptr - SIZEOF_HDR;
                m1 = wr_hdr (mem st) block ((rd_hdr (mem st) block)\<lparr>bh_free := 1\<rparr>)
            in do { m \<leftarrow> kfree_scan m1 (heap_start_ptr st); Some (st\<lparr>mem := m\<rparr>) }))"

section \<open>The abstract heap: a list of blocks\<close>

type_synonym blk = "nat \<times> bool"

fun span :: "blk list \<Rightarrow> nat" where
  "span [] = 0"
| "span ((n, f) # bs) = HDR + n + span bs"

fun alloc_first :: "nat \<Rightarrow> nat \<Rightarrow> blk list \<Rightarrow> (nat \<times> blk list) option" where
  "alloc_first s a [] = None"
| "alloc_first s a ((n, f) # bs) =
     (if f \<and> s \<le> n
      then Some (a + HDR, if n > s + HDR then (s, False) # (n - s - HDR, True) # bs
                          else (n, False) # bs)
      else map_option (\<lambda>(p, bs'). (p, (n, f) # bs')) (alloc_first s (a + HDR + n) bs))"

fun mark_free :: "nat \<Rightarrow> nat \<Rightarrow> blk list \<Rightarrow> blk list" where
  "mark_free p a [] = []"
| "mark_free p a ((n, f) # bs) =
     (if p = a + HDR then (n, True) # bs else (n, f) # mark_free p (a + HDR + n) bs)"

fun coalesce :: "blk list \<Rightarrow> blk list" where
  "coalesce ((n, f) # (k, g) # bs) =
     (if f \<and> g then (n + HDR + k, True) # coalesce bs else (n, f) # coalesce ((k, g) # bs))"
| "coalesce [b] = [b]"
| "coalesce [] = []"

text \<open>The live allocations of a heap that starts at \<open>a\<close>: payload address and payload size.\<close>

fun allocs :: "nat \<Rightarrow> blk list \<Rightarrow> (nat \<times> nat) set" where
  "allocs a [] = {}"
| "allocs a ((n, f) # bs) = (if f then {} else {(a + HDR, n)}) \<union> allocs (a + HDR + n) bs"

text \<open>Where the headers of the blocks are.\<close>

fun hdrs :: "nat \<Rightarrow> blk list \<Rightarrow> nat set" where
  "hdrs a [] = {}"
| "hdrs a ((n, f) # bs) = insert a (hdrs (a + HDR + n) bs)"

text \<open>The pointer structure in memory represents the block list.\<close>

fun layout :: "mem \<Rightarrow> nat \<Rightarrow> blk list \<Rightarrow> bool" where
  "layout m a [] \<longleftrightarrow> True"
| "layout m a ((n, f) # bs) \<longleftrightarrow>
     bh_size (rd_hdr m (of_nat a)) = of_nat n \<and>
     bh_next (rd_hdr m (of_nat a)) = (if bs = [] then 0 else of_nat (a + HDR + n)) \<and>
     (bh_free (rd_hdr m (of_nat a)) \<noteq> 0 \<longleftrightarrow> f) \<and>
     layout m (a + HDR + n) bs"

definition heap_base :: "kheap \<Rightarrow> nat" where
  "heap_base st = unat (heap_start_ptr st)"

definition heap_rep :: "kheap \<Rightarrow> blk list \<Rightarrow> bool" where
  "heap_rep st bs \<longleftrightarrow>
     heap_start_ptr st \<noteq> 0 \<and> bs \<noteq> [] \<and> span bs = unat (total_heap_size st) \<and>
     heap_base st + span bs < 2 ^ 64 \<and> layout (mem st) (heap_base st) bs"

section \<open>Header cells\<close>

lemma rd_hdr_local:
  assumes "\<And>x. x \<in> region a HDR \<Longrightarrow> m x = m' x"
  shows "rd_hdr m a = rd_hdr m' a"
proof -
  have sub: "region (a + of_nat k) n \<subseteq> region a HDR" if "k + n \<le> HDR" for k n
  proof
    fix x assume "x \<in> region (a + of_nat k) n"
    then obtain i where "i < n" "x = a + of_nat (k + i)"
      by (auto elim!: regionE simp: add.assoc)
    with that show "x \<in> region a HDR"
      by (simp only:) (rule region_offset, auto)
  qed
  have "load64 m a = load64 m' a" "load64 m (a + 8) = load64 m' (a + 8)"
    "load32 m (a + 16) = load32 m' (a + 16)"
    using sub [of 0 8] sub [of 8 8] sub [of 16 4]
    by (auto intro!: load64_cong load32_cong assms)
  then show ?thesis by (simp add: rd_hdr_def)
qed

lemma rd_hdr_wr_hdr: "rd_hdr (wr_hdr m a h) a = h"
proof -
  let ?bs = "le_bytes 8 (bh_size h) @ le_bytes 8 (bh_next h) @ le_bytes 4 (bh_free h)"
  have "read_bytes (wr_hdr m a h) a (8 + (8 + 4)) = ?bs"
    unfolding wr_hdr_def by (rule read_write_same) simp_all
  then have "read_bytes (wr_hdr m a h) a 8 = le_bytes 8 (bh_size h)"
    "read_bytes (wr_hdr m a h) (a + 8) 8 = le_bytes 8 (bh_next h)"
    "read_bytes (wr_hdr m a h) (a + 16) 4 = le_bytes 4 (bh_free h)"
    unfolding read_bytes_append by (simp_all add: add.assoc)
  then show ?thesis
    by (simp add: rd_hdr_def load64_def load32_def byte_simps)
qed

interpretation hdr: cell rd_hdr wr_hdr HDR
proof
  show "rd_hdr (wr_hdr m a v) a = v" for m a v
    by (rule rd_hdr_wr_hdr)
  show "x \<notin> region a HDR \<Longrightarrow> wr_hdr m a v x = m x" for x m a v
    unfolding wr_hdr_def by (rule write_bytes_frame) (auto simp: region_def)
  show "(\<And>x. x \<in> region a HDR \<Longrightarrow> m x = m' x) \<Longrightarrow> rd_hdr m a = rd_hdr m' a" for a m m'
    by (rule rd_hdr_local)
qed

section \<open>Block lists\<close>

definition writable :: "nat \<Rightarrow> blk list \<Rightarrow> nat set" where
  "writable a bs = {a..<a + span bs} - (\<Union>(p, n) \<in> allocs a bs. {p..<p + n})"

text \<open>\<open>m'\<close> differs from \<open>m\<close> only inside the heap and outside every live allocation.\<close>

definition heap_frame :: "nat \<Rightarrow> blk list \<Rightarrow> mem \<Rightarrow> mem \<Rightarrow> bool" where
  "heap_frame a bs m m' \<longleftrightarrow> (\<forall>x. unat x \<notin> writable a bs \<longrightarrow> m' x = m x)"

abbreviation blkptr :: "nat \<Rightarrow> blk list \<Rightarrow> u64" where
  "blkptr a bs \<equiv> (if bs = [] then 0 else of_nat a)"

lemma allocs_bounds:
  "(p, n) \<in> allocs a bs \<Longrightarrow> a + HDR \<le> p \<and> p + n \<le> a + span bs"
  by (induction a bs rule: allocs.induct) (fastforce split: if_splits)+

lemma allocs_disjoint:
  assumes "(p, n) \<in> allocs a bs" and "(q, k) \<in> allocs a bs" and "p \<noteq> q"
  shows "p + n + HDR \<le> q \<or> q + k + HDR \<le> p"
  using assms
proof (induction a bs rule: allocs.induct)
  case (1 a)
  then show ?case by simp
next
  case (2 a l f bs)
  have later: "a + HDR + l + HDR \<le> r" if "(r, j) \<in> allocs (a + HDR + l) bs" for r j
    using allocs_bounds [OF that] by simp
  from 2 show ?case
    by (auto split: if_splits dest: later)
qed

lemma allocs_unique: "(p, n) \<in> allocs a bs \<Longrightarrow> (p, k) \<in> allocs a bs \<Longrightarrow> n = k"
  by (induction a bs rule: allocs.induct) (auto split: if_splits dest: allocs_bounds)

lemma hdrs_bounds: "h \<in> hdrs a bs \<Longrightarrow> a \<le> h \<and> h + HDR \<le> a + span bs"
  by (induction a bs rule: hdrs.induct) auto

lemma writable_Cons:
  "writable (a + HDR + n) bs \<subseteq> writable a ((n, f) # bs)"
  by (force simp: writable_def split: if_splits)

lemma writable_hdr:
  "a \<le> i \<Longrightarrow> i < a + HDR \<Longrightarrow> i \<in> writable a ((n, f) # bs)"
  by (fastforce simp: writable_def split: if_splits dest: allocs_bounds)

lemma writable_free:
  "i < HDR + n \<Longrightarrow> a + i \<in> writable a ((n, True) # bs)"
  by (fastforce simp: writable_def split: if_splits dest: allocs_bounds)

lemma heap_frame_refl [simp]: "heap_frame a bs m m"
  by (simp add: heap_frame_def)

lemma heap_frame_trans:
  "heap_frame a bs m m' \<Longrightarrow> heap_frame a bs m' m'' \<Longrightarrow> heap_frame a bs m m''"
  by (simp add: heap_frame_def)

lemma heap_frame_Cons:
  "heap_frame (a + HDR + n) bs m m' \<Longrightarrow> heap_frame a ((n, f) # bs) m m'"
  using writable_Cons by (fastforce simp: heap_frame_def)

lemma alloc_first_span: "alloc_first s a bs = Some (p, bs') \<Longrightarrow> span bs' = span bs"
  by (induction s a bs arbitrary: p bs' rule: alloc_first.induct)
    (auto split: if_splits option.splits)

lemma alloc_first_nonempty: "alloc_first s a bs = Some (p, bs') \<Longrightarrow> bs' \<noteq> []"
  by (induction s a bs arbitrary: p bs' rule: alloc_first.induct)
    (auto split: if_splits option.splits)

lemma alloc_first_allocs:
  "alloc_first s a bs = Some (p, bs') \<Longrightarrow>
     \<exists>k\<ge>s. allocs a bs' = insert (p, k) (allocs a bs) \<and> (\<forall>j. (p, j) \<notin> allocs a bs)"
proof (induction s a bs arbitrary: p bs' rule: alloc_first.induct)
  case (1 s a)
  then show ?case by simp
next
  case (2 s a n f bs)
  show ?case
  proof (cases "f \<and> s \<le> n")
    case True
    have later: "(a + HDR, j) \<notin> allocs (a + HDR + n) bs" for j
      using allocs_bounds [of "a + HDR" j "a + HDR + n" bs] by auto
    have far: "a + HDR + s + HDR + (n - s - HDR) = a + HDR + n" if "s + HDR < n"
      using that by simp
    from True 2 show ?thesis
      using later far by (cases "s + HDR < n") (auto simp: add_ac)
  next
    case False
    with 2 obtain q bs'' where q: "alloc_first s (a + HDR + n) bs = Some (q, bs'')"
      "p = q" "bs' = (n, f) # bs''"
      by (auto split: option.splits)
    from 2(1) [OF False q(1)] obtain k where
      "k \<ge> s" "allocs (a + HDR + n) bs'' = insert (q, k) (allocs (a + HDR + n) bs)"
      "\<forall>j. (q, j) \<notin> allocs (a + HDR + n) bs"
      by blast
    moreover from this have "a + HDR + n + HDR \<le> q"
      using allocs_bounds [of q k "a + HDR + n" bs''] by simp
    ultimately show ?thesis using q by auto
  qed
qed

lemma alloc_first_None:
  "alloc_first s a bs = None \<longleftrightarrow> \<not> (\<exists>(n, f) \<in> set bs. f \<and> s \<le> n)"
  by (induction s a bs rule: alloc_first.induct) auto

lemma span_mark_free [simp]: "span (mark_free p a bs) = span bs"
  by (induction p a bs rule: mark_free.induct) auto

lemma mark_free_Nil [simp]: "mark_free p a bs = [] \<longleftrightarrow> bs = []"
  by (cases bs) (auto split: if_splits)

lemma allocs_mark_free:
  "(p, n) \<in> allocs a bs \<Longrightarrow> allocs a (mark_free p a bs) = allocs a bs - {(p, n)}"
proof (induction p a bs rule: mark_free.induct)
  case (1 p a)
  then show ?case by simp
next
  case (2 p a l f bs)
  show ?case
  proof (cases "p = a + HDR")
    case True
    have "(a + HDR, j) \<notin> allocs (a + HDR + l) bs" for j
      using allocs_bounds [of "a + HDR" j "a + HDR + l" bs] by auto
    with 2 True show ?thesis by (auto split: if_splits)
  next
    case False
    with 2 show ?thesis by (auto split: if_splits)
  qed
qed

lemma span_coalesce [simp]: "span (coalesce bs) = span bs"
  by (induction bs rule: coalesce.induct) auto

lemma coalesce_Nil [simp]: "coalesce bs = [] \<longleftrightarrow> bs = []"
  by (induction bs rule: coalesce.induct) auto

lemma allocs_coalesce [simp]: "allocs a (coalesce bs) = allocs a bs"
  by (induction bs arbitrary: a rule: coalesce.induct) (auto simp: add_ac)

section \<open>The pointer code implements the block list\<close>

lemma layout_cong:
  assumes "\<And>h. h \<in> hdrs a bs \<Longrightarrow> rd_hdr m (of_nat h) = rd_hdr m' (of_nat h)"
  shows "layout m a bs = layout m' a bs"
  using assms by (induction m a bs rule: layout.induct) auto

lemma rd_hdr_frame:
  assumes "b + HDR \<le> 2 ^ 64" and "\<And>x. b \<le> unat x \<Longrightarrow> unat x < b + HDR \<Longrightarrow> m x = m' x"
  shows "rd_hdr m (of_nat b) = rd_hdr m' (of_nat b)"
  using assms by (intro hdr.rd_local) (simp add: region_nat)

lemma layout_frame:
  assumes "layout m a bs" and "a + span bs \<le> 2 ^ 64"
    and "\<And>x. a \<le> unat x \<Longrightarrow> unat x < a + span bs \<Longrightarrow> m' x = m x"
  shows "layout m' a bs"
proof -
  have "rd_hdr m (of_nat h) = rd_hdr m' (of_nat h)" if "h \<in> hdrs a bs" for h
    using hdrs_bounds [OF that] assms(2,3) by (intro rd_hdr_frame) auto
  with assms(1) show ?thesis by (simp cong: layout_cong)
qed

lemma wr_hdr_outside:
  assumes "b + HDR \<le> 2 ^ 64" and "unat x < b \<or> b + HDR \<le> unat x"
  shows "wr_hdr m (of_nat b) h x = m x"
  using assms by (intro hdr.wr_frame) (auto simp: region_nat)

lemma layout_wr_before:
  assumes "layout m b bs" and "a + HDR \<le> b" and "b + span bs \<le> 2 ^ 64"
  shows "layout (wr_hdr m (of_nat a) h) b bs"
  using assms by (intro layout_frame [OF assms(1)] wr_hdr_outside) auto

lemma of_nat_lt64: "a < 2 ^ 64 \<Longrightarrow> 0 < a \<Longrightarrow> (of_nat a :: u64) \<noteq> 0"
  using unat_of_nat64 [of a] by (metis less_numeral_extra(3) unat_0)

lemma heap_frame_wr_hdr:
  "a + HDR \<le> 2 ^ 64 \<Longrightarrow> heap_frame a ((n, f) # bs) m (wr_hdr m (of_nat a) h)"
  unfolding heap_frame_def by (metis leI wr_hdr_outside writable_hdr)

text \<open>A block that is large enough to be split.\<close>

lemma kmalloc_split_layout:
  assumes lay: "layout m a ((n, True) # bs)" and big: "s + HDR < n"
    and lim: "a + span ((n, True) # bs) \<le> 2 ^ 64" and a: "0 < a"
    and gt: "bh_size (rd_hdr m (of_nat a)) > of_nat s + SIZEOF_HDR"
  shows "layout (kmalloc_take m (of_nat s) (of_nat a)) a ((s, False) # (n - s - HDR, True) # bs)"
proof -
  let ?h = "rd_hdr m (of_nat a)"
  let ?b = "a + HDR + s"
  let ?nb = "\<lparr>bh_size = bh_size ?h - of_nat s - SIZEOF_HDR, bh_next = bh_next ?h, bh_free = 1\<rparr>"
  let ?m1 = "wr_hdr m (of_nat ?b) ?nb"
  let ?cur = "?h\<lparr>bh_next := of_nat ?b, bh_size := of_nat s, bh_free := 0\<rparr>"
  have rd1: "rd_hdr ?m1 (of_nat a) = ?h"
    using lim big by (intro rd_hdr_frame wr_hdr_outside) auto
  have take: "kmalloc_take m (of_nat s) (of_nat a)
                = wr_hdr (wr_hdr ?m1 (of_nat a) (?h\<lparr>bh_next := of_nat ?b, bh_size := of_nat s\<rparr>))
                    (of_nat a) ?cur"
    using big gt rd1 by (simp add: kmalloc_take_def Let_def hdr.rd_wr add_ac)
  let ?m2 = "kmalloc_take m (of_nat s) (of_nat a)"
  have same: "?m2 x = m x" if "unat x < a \<or> a + HDR \<le> unat x \<and> unat x < ?b \<or> ?b + HDR \<le> unat x" for x
    unfolding take using that lim big by (auto simp: wr_hdr_outside simp del: of_nat_add)
  have new: "?m2 x = ?m1 x" if "a + HDR \<le> unat x" for x
    unfolding take using that lim big by (auto simp: wr_hdr_outside simp del: of_nat_add)
  have "rd_hdr ?m2 (of_nat ?b) = ?nb"
    using rd_hdr_frame [of ?b ?m2 ?m1] new lim big by (simp add: hdr.rd_wr)
  moreover have "of_nat n - of_nat s - SIZEOF_HDR = (of_nat (n - s - HDR) :: u64)"
    using big by simp
  moreover have "layout ?m2 (a + HDR + n) bs"
  proof (rule layout_frame)
    show "layout m (a + HDR + n) bs" using lay by simp
    show "a + HDR + n + span bs \<le> 2 ^ 64" using lim by simp
    show "?m2 x = m x" if "a + HDR + n \<le> unat x" for x
      using that big by (intro same) linarith
  qed
  moreover have "rd_hdr ?m2 (of_nat a) = ?cur"
    unfolding take by (rule hdr.rd_wr)
  ultimately show ?thesis
    using big lay by (simp add: add.assoc)
qed

lemma kmalloc_take_layout:
  assumes lay: "layout m a ((n, True) # bs)" and s: "s \<le> n"
    and lim: "a + span ((n, True) # bs) \<le> 2 ^ 64" and a: "0 < a"
  shows "layout (kmalloc_take m (of_nat s) (of_nat a)) a
           (if n > s + HDR then (s, False) # (n - s - HDR, True) # bs else (n, False) # bs)"
proof -
  let ?h = "rd_hdr m (of_nat a)"
  have un: "unat (of_nat k :: u64) = k" if "k \<le> n + HDR" for k
    using that lim a by (intro unat_of_nat64) simp
  have gt: "bh_size ?h > of_nat s + SIZEOF_HDR \<longleftrightarrow> n > s + HDR"
  proof -
    have "of_nat s + SIZEOF_HDR = (of_nat (s + HDR) :: u64)" by simp
    then show ?thesis
      using lay s un [of n] un [of "s + HDR"] by (simp only: word_less_nat_alt) simp
  qed
  show ?thesis
  proof (cases "n > s + HDR")
    case True
    then show ?thesis using kmalloc_split_layout [OF lay True lim a] gt by simp
  next
    case False
    let ?m2 = "kmalloc_take m (of_nat s) (of_nat a)"
    have take: "?m2 = wr_hdr m (of_nat a) (?h\<lparr>bh_free := 0\<rparr>)"
      using False gt by (simp add: kmalloc_take_def Let_def)
    have "layout ?m2 (a + HDR + n) bs"
      unfolding take using lay lim by (intro layout_wr_before) auto
    moreover have "rd_hdr ?m2 (of_nat a) = ?h\<lparr>bh_free := 0\<rparr>"
      unfolding take by (rule hdr.rd_wr)
    ultimately show ?thesis using False lay by simp
  qed
qed

lemma kmalloc_take_writes:
  assumes lim: "a + HDR + n \<le> 2 ^ 64" and s: "s \<le> n" and a: "0 < a"
    and sz: "bh_size (rd_hdr m (of_nat a)) = of_nat n"
  shows "(\<exists>h1 h2 h3. s + HDR < n \<and> kmalloc_take m (of_nat s) (of_nat a) =
            wr_hdr (wr_hdr (wr_hdr m (of_nat (a + HDR + s)) h1) (of_nat a) h2) (of_nat a) h3) \<or>
         (\<exists>h. kmalloc_take m (of_nat s) (of_nat a) = wr_hdr m (of_nat a) h)"
proof (cases "bh_size (rd_hdr m (of_nat a)) > of_nat s + SIZEOF_HDR")
  case True
  have "(of_nat s + SIZEOF_HDR :: u64) = of_nat (s + HDR)" by simp
  then have "s + HDR < n"
    using True sz lim s a unat_of_nat64 [of n] unat_of_nat64 [of "s + HDR"]
    by (simp only: word_less_nat_alt)
  moreover have "(of_nat a + SIZEOF_HDR + of_nat s :: u64) = of_nat (a + HDR + s)" by simp
  ultimately show ?thesis
    using True unfolding kmalloc_take_def Let_def by (auto simp only: if_True)
next
  case False
  then show ?thesis
    unfolding kmalloc_take_def Let_def by (auto simp only: if_False)
qed

lemma kmalloc_take_frame:
  assumes lim: "a + span ((n, True) # bs) \<le> 2 ^ 64" and s: "s \<le> n" and a: "0 < a"
    and sz: "bh_size (rd_hdr m (of_nat a)) = of_nat n"
  shows "heap_frame a ((n, True) # bs) m (kmalloc_take m (of_nat s) (of_nat a))"
proof -
  have "kmalloc_take m (of_nat s) (of_nat a) x = m x"
    if "unat x < a \<or> a + HDR + n \<le> unat x" for x
    using kmalloc_take_writes [OF _ s a sz] that lim s
    by (auto simp: wr_hdr_outside simp del: of_nat_add)
  moreover have "unat x \<in> writable a ((n, True) # bs)" if "a \<le> unat x" "unat x < a + HDR + n" for x :: u64
    using writable_free [of "unat x - a" n a bs] that by auto
  ultimately show ?thesis
    unfolding heap_frame_def by (meson not_le)
qed

lemma alloc_first_pos: "alloc_first s a bs = Some (p, bs') \<Longrightarrow> a + HDR \<le> p \<and> p \<le> a + span bs"
  by (induction s a bs arbitrary: p bs' rule: alloc_first.induct)
    (fastforce split: if_splits option.splits)+

lemma rd_hdr_before:
  assumes "heap_frame b bs m m'" and "a + HDR \<le> b" and "b \<le> 2 ^ 64"
  shows "rd_hdr m' (of_nat a) = rd_hdr m (of_nat a)"
  using assms by (intro rd_hdr_frame) (auto simp: heap_frame_def writable_def)

lemma kmalloc_scan_refines:
  assumes "layout m a bs" and "a + span bs \<le> 2 ^ 64" and "0 < a" and "s < 2 ^ 64"
  shows "case alloc_first s a bs of
           None \<Rightarrow> kmalloc_scan m (of_nat s) (blkptr a bs) = Some (0, m)
         | Some (p, bs') \<Rightarrow>
             \<exists>m'. kmalloc_scan m (of_nat s) (blkptr a bs) = Some (of_nat p, m') \<and>
                  layout m' a bs' \<and> heap_frame a bs m m'"
  using assms
proof (induction s a bs rule: alloc_first.induct)
  case (1 s a)
  then show ?case by (simp add: kmalloc_scan.simps)
next
  case (2 s a n f bs)
  let ?h = "rd_hdr m (of_nat a)"
  from "2.prems" have ptr: "(of_nat a :: u64) \<noteq> 0" and n: "unat (of_nat n :: u64) = n"
    by (simp_all add: of_nat_lt64 unat_of_nat64)
  have s: "unat (of_nat s :: u64) = s" using "2.prems"(4) by (rule unat_of_nat64)
  have fits: "bh_free ?h \<noteq> 0 \<and> bh_size ?h \<ge> of_nat s \<longleftrightarrow> f \<and> s \<le> n"
    using "2.prems"(1) by (simp add: word_le_nat_alt n s)
  show ?case
  proof (cases "f \<and> s \<le> n")
    case True
    let ?m' = "kmalloc_take m (of_nat s) (of_nat a)"
    have scan: "kmalloc_scan m (of_nat s) (of_nat a) = Some (of_nat (a + HDR), ?m')"
      using fits True ptr by (subst kmalloc_scan.simps) (simp add: add.commute)
    from True 2 have "layout ?m' a (if n > s + HDR then (s, False) # (n - s - HDR, True) # bs
                                     else (n, False) # bs)"
      by (intro kmalloc_take_layout) auto
    moreover from True 2 have "heap_frame a ((n, f) # bs) m ?m'"
      by (auto intro: kmalloc_take_frame)
    ultimately show ?thesis using True scan by simp
  next
    case False
    have scan: "kmalloc_scan m (of_nat s) (of_nat a)
                  = kmalloc_scan m (of_nat s) (blkptr (a + HDR + n) bs)"
      using fits False ptr "2.prems"(1) by (subst kmalloc_scan.simps) auto
    have IH: "case alloc_first s (a + HDR + n) bs of
           None \<Rightarrow> kmalloc_scan m (of_nat s) (blkptr (a + HDR + n) bs) = Some (0, m)
         | Some (p, bs') \<Rightarrow>
             \<exists>m'. kmalloc_scan m (of_nat s) (blkptr (a + HDR + n) bs) = Some (of_nat p, m') \<and>
                  layout m' (a + HDR + n) bs' \<and> heap_frame (a + HDR + n) bs m m'"
      using 2 False by (intro "2.IH") auto
    show ?thesis
    proof (cases "alloc_first s (a + HDR + n) bs")
      case None
      with IH scan False show ?thesis by auto
    next
      case (Some r)
      obtain p bs' where r: "r = (p, bs')" by (cases r)
      from IH Some r obtain m' where m': "kmalloc_scan m (of_nat s) (of_nat a) = Some (of_nat p, m')"
        "layout m' (a + HDR + n) bs'" "heap_frame (a + HDR + n) bs m m'"
        using scan by auto
      have "rd_hdr m' (of_nat a) = ?h"
        using "2.prems"(2) by (intro rd_hdr_before [OF m'(3)]) simp_all
      then have "layout m' a ((n, f) # bs')"
        using m'(2) "2.prems"(1) Some r alloc_first_nonempty [of s "a + HDR + n" bs p bs']
        by (auto split: if_splits)
      then show ?thesis
        using m' Some r False heap_frame_Cons by auto
    qed
  qed
qed

lemma unat_align8:
  assumes "unat sz + 7 < 2 ^ 64"
  shows "unat (align8 sz) = (unat sz + 7) div 8 * 8"
proof -
  have "align8 sz = (sz + 7) AND NOT (mask 3)"
    by (simp add: align8_def mask_eq_exp_minus_1)
  moreover have "unat (sz + 7) = unat sz + 7"
    using assms by (simp add: unat_word_ariths)
  ultimately show ?thesis
    by (simp add: unat_and_not_mask)
qed

lemma kfree_step_layout:
  assumes lay: "layout m a ((n, f) # (k, g) # bs)" and a: "0 < a"
    and lim: "a + span ((n, f) # (k, g) # bs) \<le> 2 ^ 64"
  shows "kfree_step m (of_nat a) =
           (if f \<and> g
            then wr_hdr m (of_nat a)
                   ((rd_hdr m (of_nat a))\<lparr>bh_size := of_nat (n + HDR + k),
                                          bh_next := blkptr (a + HDR + n + HDR + k) bs\<rparr>)
            else m)"
proof -
  have "(of_nat (a + HDR + n) :: u64) \<noteq> 0"
    using lim a by (intro of_nat_lt64) auto
  moreover have "(of_nat a + SIZEOF_HDR + of_nat n :: u64) = of_nat (a + HDR + n)"
    and "(of_nat n + (SIZEOF_HDR + of_nat k) :: u64) = of_nat (n + HDR + k)" by simp_all
  ultimately show ?thesis
    using lay by (simp add: kfree_step_def Let_def del: of_nat_add)
qed

lemma kfree_scan_refines:
  assumes "layout m a bs" and "a + span bs \<le> 2 ^ 64" and "0 < a"
  shows "\<exists>m'. kfree_scan m (blkptr a bs) = Some m' \<and> layout m' a (coalesce bs) \<and> heap_frame a bs m m'"
  using assms
proof (induction bs arbitrary: m a rule: coalesce.induct)
  case (1 n f k g bs)
  have ptr: "(of_nat a :: u64) \<noteq> 0" using "1.prems" by (intro of_nat_lt64) auto
  note step = kfree_step_layout [OF "1.prems"(1,3,2)]
  show ?case
  proof (cases "f \<and> g")
    case True
    let ?h = "(rd_hdr m (of_nat a))\<lparr>bh_size := of_nat (n + HDR + k),
                                   bh_next := blkptr (a + HDR + n + HDR + k) bs\<rparr>"
    let ?m1 = "wr_hdr m (of_nat a) ?h"
    have scan: "kfree_scan m (of_nat a) = kfree_scan ?m1 (blkptr (a + HDR + n + HDR + k) bs)"
      using ptr step True by (subst kfree_scan.simps) (simp add: hdr.rd_wr)
    have "layout ?m1 (a + HDR + n + HDR + k) bs"
      using "1.prems" by (intro layout_wr_before) (auto simp: add_ac)
    then obtain m' where m': "kfree_scan ?m1 (blkptr (a + HDR + n + HDR + k) bs) = Some m'"
      "layout m' (a + HDR + n + HDR + k) (coalesce bs)" "heap_frame (a + HDR + n + HDR + k) bs ?m1 m'"
      using "1.IH"(1) [OF True, of ?m1 "a + HDR + n + HDR + k"] "1.prems"(2,3) by (auto simp: add_ac)
    have "rd_hdr m' (of_nat a) = rd_hdr ?m1 (of_nat a)"
      using "1.prems"(2) by (intro rd_hdr_before [OF m'(3)]) simp_all
    then have "layout m' a (coalesce ((n, f) # (k, g) # bs))"
      using True m'(2) "1.prems"(1) by (simp add: hdr.rd_wr add.assoc)
    moreover have "heap_frame a ((n, f) # (k, g) # bs) m m'"
    proof (rule heap_frame_trans)
      show "heap_frame a ((n, f) # (k, g) # bs) m ?m1"
        using "1.prems"(2) by (intro heap_frame_wr_hdr) simp
      show "heap_frame a ((n, f) # (k, g) # bs) ?m1 m'"
        using m'(3) by (auto intro!: heap_frame_Cons simp: add.assoc)
    qed
    ultimately show ?thesis using scan m'(1) by auto
  next
    case False
    have scan: "kfree_scan m (of_nat a) = kfree_scan m (of_nat (a + HDR + n))"
      using ptr step False "1.prems"(1) by (subst kfree_scan.simps) auto
    obtain m' where m': "kfree_scan m (of_nat (a + HDR + n)) = Some m'"
      "layout m' (a + HDR + n) (coalesce ((k, g) # bs))" "heap_frame (a + HDR + n) ((k, g) # bs) m m'"
      using "1.IH"(2) [OF False, of m "a + HDR + n"] "1.prems" by (auto simp: add.assoc)
    have "rd_hdr m' (of_nat a) = rd_hdr m (of_nat a)"
      using "1.prems"(2) by (intro rd_hdr_before [OF m'(3)]) simp_all
    then have "layout m' a ((n, f) # coalesce ((k, g) # bs))"
      using m'(2) "1.prems"(1) by auto
    then show ?thesis using scan m' False heap_frame_Cons by auto
  qed
next
  case (2 b)
  obtain n f where b: "b = (n, f)" by (cases b)
  have ptr: "(of_nat a :: u64) \<noteq> 0" using "2.prems" b by (intro of_nat_lt64) auto
  have "kfree_step m (of_nat a) = m"
    using "2.prems"(1) b by (simp add: kfree_step_def Let_def)
  then have "kfree_scan m (of_nat a) = Some m"
    using ptr "2.prems"(1) b by (subst kfree_scan.simps) (simp add: kfree_scan.simps)
  then show ?case using "2.prems"(1) by auto
next
  case 3
  then show ?case by (simp add: kfree_scan.simps)
qed

lemma mark_free_layout:
  assumes "layout m a bs" and "a + span bs \<le> 2 ^ 64" and "(p, n) \<in> allocs a bs"
  shows "layout (wr_hdr m (of_nat (p - HDR)) ((rd_hdr m (of_nat (p - HDR)))\<lparr>bh_free := 1\<rparr>))
           a (mark_free p a bs)"
  using assms
proof (induction p a bs rule: mark_free.induct)
  case (1 p a)
  then show ?case by simp
next
  case (2 p a k f bs)
  let ?m' = "wr_hdr m (of_nat (p - HDR)) ((rd_hdr m (of_nat (p - HDR)))\<lparr>bh_free := 1\<rparr>)"
  show ?case
  proof (cases "p = a + HDR")
    case True
    then have "layout ?m' (a + HDR + k) bs"
      using "2.prems" by (intro layout_wr_before) auto
    with True "2.prems"(1) show ?thesis by (simp add: hdr.rd_wr)
  next
    case False
    with "2.prems"(3) have in_bs: "(p, n) \<in> allocs (a + HDR + k) bs" by (auto split: if_splits)
    from allocs_bounds [OF in_bs] have "rd_hdr ?m' (of_nat a) = rd_hdr m (of_nat a)"
      using "2.prems"(2) by (intro rd_hdr_frame wr_hdr_outside) auto
    moreover have "layout ?m' (a + HDR + k) (mark_free p (a + HDR + k) bs)"
      using "2.IH" False "2.prems" in_bs by simp
    ultimately show ?thesis using False "2.prems"(1) by simp
  qed
qed

lemma alloc_header_writable:
  "(p, n) \<in> allocs a bs \<Longrightarrow> p - HDR \<le> i \<Longrightarrow> i < p \<Longrightarrow> i \<in> writable a bs"
proof -
  assume p: "(p, n) \<in> allocs a bs" and i: "p - HDR \<le> i" "i < p"
  have "i \<notin> {q..<q + k}" if "(q, k) \<in> allocs a bs" for q k
    using allocs_disjoint [OF p that] allocs_unique [OF p] that i by (cases "p = q") auto
  with allocs_bounds [OF p] i show ?thesis by (auto simp: writable_def)
qed

lemma heap_base_pos: "heap_rep st bs \<Longrightarrow> 0 < heap_base st"
  by (simp add: heap_rep_def heap_base_def unat_gt_0)

lemma heap_ptr: "heap_rep st bs \<Longrightarrow> heap_start_ptr st = blkptr (heap_base st) bs"
  by (simp add: heap_rep_def heap_base_def)

lemma kmalloc_scan_rep:
  assumes rep: "heap_rep st bs" and sz: "sz \<noteq> 0"
  shows "case alloc_first (unat (align8 sz)) (heap_base st) bs of
           None \<Rightarrow> kmalloc st sz = Some (0, st)
         | Some (p, bs') \<Rightarrow> \<exists>st'. kmalloc st sz = Some (of_nat p, st') \<and> heap_rep st' bs' \<and>
             heap_start_ptr st' = heap_start_ptr st \<and>
             heap_frame (heap_base st) bs (mem st) (mem st')"
proof -
  have scan: "case alloc_first (unat (align8 sz)) (heap_base st) bs of
           None \<Rightarrow> kmalloc_scan (mem st) (align8 sz) (heap_start_ptr st) = Some (0, mem st)
         | Some (p, bs') \<Rightarrow>
             \<exists>m'. kmalloc_scan (mem st) (align8 sz) (heap_start_ptr st) = Some (of_nat p, m') \<and>
                  layout m' (heap_base st) bs' \<and> heap_frame (heap_base st) bs (mem st) m'"
  proof -
    have asz: "of_nat (unat (align8 sz)) = align8 sz" by simp
    have "heap_base st + span bs \<le> 2 ^ 64" "layout (mem st) (heap_base st) bs"
      using rep by (simp_all add: heap_rep_def)
    then show ?thesis
      using kmalloc_scan_refines [of "mem st" "heap_base st" bs "unat (align8 sz)"]
        heap_base_pos [OF rep] unat_lt64 [of "align8 sz"]
      unfolding heap_ptr [OF rep] asz by blast
  qed
  show ?thesis
  proof (cases "alloc_first (unat (align8 sz)) (heap_base st) bs")
    case None
    with scan sz show ?thesis by (simp add: kmalloc_def)
  next
    case (Some r)
    obtain p bs' where r: "r = (p, bs')" by (cases r)
    with scan Some obtain m' where
      "kmalloc_scan (mem st) (align8 sz) (heap_start_ptr st) = Some (of_nat p, m')"
      "layout m' (heap_base st) bs'" "heap_frame (heap_base st) bs (mem st) m'"
      by auto
    then show ?thesis
      using Some r sz rep alloc_first_span [of _ _ bs p bs'] alloc_first_nonempty [of _ _ bs p bs']
      by (auto simp: kmalloc_def heap_rep_def heap_base_def)
  qed
qed

lemma kfree_rep:
  assumes rep: "heap_rep st bs" and live: "(p, n) \<in> allocs (heap_base st) bs"
  shows "\<exists>st'. kfree st (of_nat p) = Some st' \<and>
           heap_rep st' (coalesce (mark_free p (heap_base st) bs)) \<and>
           heap_start_ptr st' = heap_start_ptr st \<and>
           heap_frame (heap_base st) (mark_free p (heap_base st) bs) (mem st) (mem st')"
proof -
  let ?a = "heap_base st"
  let ?bs = "mark_free p ?a bs"
  let ?m1 = "wr_hdr (mem st) (of_nat (p - HDR)) ((rd_hdr (mem st) (of_nat (p - HDR)))\<lparr>bh_free := 1\<rparr>)"
  from rep have lay: "layout (mem st) ?a bs" and lim: "?a + span bs \<le> 2 ^ 64" and ne: "bs \<noteq> []"
    by (simp_all add: heap_rep_def)
  note bnd = allocs_bounds [OF live]
  from lay lim live have "layout ?m1 ?a ?bs" by (rule mark_free_layout)
  then obtain m' where m': "kfree_scan ?m1 (heap_start_ptr st) = Some m'" "layout m' ?a (coalesce ?bs)"
    "heap_frame ?a ?bs ?m1 m'"
    using kfree_scan_refines [of ?m1 ?a ?bs] lim heap_base_pos [OF rep] ne heap_ptr [OF rep] by auto
  have frame: "heap_frame ?a ?bs (mem st) ?m1"
    unfolding heap_frame_def
  proof (intro allI impI)
    fix x :: u64 assume "unat x \<notin> writable ?a ?bs"
    then have "unat x \<notin> writable ?a bs"
      using allocs_mark_free [OF live] by (auto simp: writable_def)
    then have "unat x < p - HDR \<or> p \<le> unat x"
      using alloc_header_writable [OF live] by (meson not_le)
    then show "?m1 x = mem st x"
      using bnd lim by (intro wr_hdr_outside) auto
  qed
  have "(of_nat p :: u64) \<noteq> 0"
    using bnd rep by (intro of_nat_lt64) (auto simp: heap_rep_def)
  moreover have "of_nat p - SIZEOF_HDR = (of_nat (p - HDR) :: u64)"
    using bnd by simp
  ultimately have "kfree st (of_nat p) = Some (st\<lparr>mem := m'\<rparr>)"
    using m'(1) by (simp add: kfree_def Let_def)
  moreover have "heap_rep (st\<lparr>mem := m'\<rparr>) (coalesce ?bs)"
    using rep m'(2) ne by (simp add: heap_rep_def heap_base_def)
  ultimately show ?thesis
    using heap_frame_trans [OF frame m'(3)] by auto
qed

section \<open>The heap fulfils the allocator contract\<close>

definition heap_ok :: "kheap \<Rightarrow> (nat \<times> nat) set \<Rightarrow> bool" where
  "heap_ok st L \<longleftrightarrow> (\<exists>bs. heap_rep st bs \<and> L = allocs (heap_base st) bs)"

lemma hdrs_allocs_apart:
  assumes "h \<in> hdrs a bs" and "(p, n) \<in> allocs a bs"
  shows "h + HDR \<le> p \<or> p + n \<le> h"
  using assms
proof (induction a bs rule: hdrs.induct)
  case (1 a)
  then show ?case by simp
next
  case (2 a k f bs)
  then show ?case
    by (auto split: if_splits dest: allocs_bounds hdrs_bounds)
qed

lemma frame_unchanged: "heap_frame a bs m m' \<Longrightarrow> unchanged (allocs a bs) m m'"
  unfolding heap_frame_def unchanged_def writable_def by fastforce

lemma align8_ge:
  assumes "unat sz + 7 < 2 ^ 64"
  shows "unat sz \<le> unat (align8 sz)"
  unfolding unat_align8 [OF assms] by presburger

lemma align8_wraps:
  assumes "2 ^ 64 \<le> unat sz + 7"
  shows "align8 sz = 0"
proof -
  have "align8 sz = (sz + 7) AND NOT (mask 3)"
    by (simp add: align8_def mask_eq_exp_minus_1)
  moreover have "unat (sz + 7) < 8"
    using assms unat_lt64 [of sz] by (simp add: unat_word_ariths mod_if) linarith
  ultimately have "unat (align8 sz) = 0" by (simp add: unat_and_not_mask)
  then show ?thesis by (simp add: unat_eq_0)
qed

lemma alloc_first_addr:
  "heap_rep st bs \<Longrightarrow> alloc_first s (heap_base st) bs = Some (p, bs') \<Longrightarrow> p < 2 ^ 64 \<and> 0 < p"
  using alloc_first_pos by (fastforce simp: heap_rep_def)

lemma alloc_first_zero:
  "alloc_first 0 a bs = Some (p, bs') \<Longrightarrow> \<exists>k\<le>HDR. allocs a bs' = insert (p, k) (allocs a bs)"
proof (induction "0::nat" a bs arbitrary: p bs' rule: alloc_first.induct)
  case (1 a)
  then show ?case by simp
next
  case (2 a n f bs)
  show ?case
  proof (cases f)
    case True
    with 2 show ?thesis
      by (cases "HDR < n") (auto simp: add_ac intro: exI [of _ n] exI [of _ "0::nat"])
  next
    case False
    with 2 obtain q bs'' where "alloc_first 0 (a + HDR + n) bs = Some (q, bs'')"
      "p = q" "bs' = (n, f) # bs''"
      by (auto split: option.splits)
    with 2 False show ?thesis by fastforce
  qed
qed

lemma kmalloc_heap_ok:
  assumes ok: "heap_ok st L" and sz: "0 < unat sz" "unat sz + 7 < 2 ^ 64"
  shows "\<exists>p st'. kmalloc st sz = Some (p, st') \<and>
         (p = 0 \<and> st' = st \<or>
          p \<noteq> 0 \<and> (\<exists>k\<ge>unat sz. heap_ok st' (insert (unat p, k) L)) \<and>
          (\<forall>j. (unat p, j) \<notin> L) \<and> unchanged L (mem st) (mem st'))"
proof -
  from ok obtain bs where rep: "heap_rep st bs" and L: "L = allocs (heap_base st) bs"
    by (auto simp: heap_ok_def)
  have nz: "sz \<noteq> 0" using sz by auto
  show ?thesis
  proof (cases "alloc_first (unat (align8 sz)) (heap_base st) bs")
    case None
    with kmalloc_scan_rep [OF rep nz] show ?thesis by auto
  next
    case (Some r)
    obtain p bs' where r: "r = (p, bs')" by (cases r)
    with kmalloc_scan_rep [OF rep nz] Some obtain st' where
      st': "kmalloc st sz = Some (of_nat p, st')" "heap_rep st' bs'"
      "heap_start_ptr st' = heap_start_ptr st" "heap_frame (heap_base st) bs (mem st) (mem st')"
      by auto
    have base: "heap_base st' = heap_base st" using st'(3) by (simp add: heap_base_def)
    from Some r obtain k where
      k: "k \<ge> unat (align8 sz)" "allocs (heap_base st) bs' = insert (p, k) L" "\<forall>j. (p, j) \<notin> L"
      using alloc_first_allocs L by blast
    from alloc_first_addr [OF rep] Some r have "p < 2 ^ 64" "0 < p" by auto
    then have p: "unat (of_nat p :: u64) = p" "(of_nat p :: u64) \<noteq> 0"
      by (simp_all add: unat_of_nat64 of_nat_lt64)
    have "heap_ok st' (insert (p, k) L)"
      using st'(2) base k(2) by (auto simp: heap_ok_def)
    moreover have "unchanged L (mem st) (mem st')"
      using frame_unchanged [OF st'(4)] L by simp
    moreover have "unat sz \<le> k" using align8_ge [OF sz(2)] k(1) by simp
    ultimately show ?thesis using st'(1) k(3) p by auto
  qed
qed

text \<open>The addresses of the heap.\<close>

definition heap_area :: "kheap \<Rightarrow> u64 set" where
  "heap_area st = {x. heap_base st \<le> unat x \<and> unat x < heap_base st + unat (total_heap_size st)}"

lemma heap_frame_area:
  assumes "heap_rep st bs" and "span cs = span bs" and "heap_frame (heap_base st) cs m m'" and "x \<notin> heap_area st"
  shows "m' x = m x"
  using assms by (auto simp: heap_frame_def writable_def heap_area_def heap_rep_def)

lemma kmalloc_outside:
  assumes "heap_ok st L" and "kmalloc st sz = Some (p, st')"
  shows "heap_area st' = heap_area st \<and> (\<forall>x. x \<notin> heap_area st \<longrightarrow> mem st' x = mem st x)"
proof (cases "sz = 0")
  case True
  with assms show ?thesis by (simp add: kmalloc_def)
next
  case False
  from assms(1) obtain bs where rep: "heap_rep st bs" by (auto simp: heap_ok_def)
  have "mem st' x = mem st x" if "x \<notin> heap_area st" for x
    using kmalloc_scan_rep [OF rep False] assms(2) heap_frame_area [OF rep refl _ that]
    by (auto split: option.splits)
  moreover have "heap_area st' = heap_area st"
    using assms(2) False
    by (auto simp: kmalloc_def heap_area_def heap_base_def bind_eq_Some_conv)
  ultimately show ?thesis by blast
qed

lemma kfree_outside:
  assumes "heap_ok st L" and "(p, n) \<in> L" and "kfree st (of_nat p) = Some st'"
  shows "heap_area st' = heap_area st \<and> (\<forall>x. x \<notin> heap_area st \<longrightarrow> mem st' x = mem st x)"
proof -
  from assms(1) obtain bs where rep: "heap_rep st bs" and L: "L = allocs (heap_base st) bs"
    by (auto simp: heap_ok_def)
  have "mem st' x = mem st x" if "x \<notin> heap_area st" for x
    using kfree_rep [OF rep, of p n] assms(2,3) L heap_frame_area [OF rep span_mark_free _ that] by auto
  moreover have "heap_area st' = heap_area st"
    using assms(3) by (auto simp: kfree_def heap_area_def heap_base_def Let_def bind_eq_Some_conv split: if_splits)
  ultimately show ?thesis by blast
qed

text \<open>There is a free block for a request.\<close>

definition has_room :: "nat \<Rightarrow> blk list \<Rightarrow> bool" where
  "has_room s bs \<longleftrightarrow> (\<exists>n. (n, True) \<in> set bs \<and> s \<le> n)"

definition heap_fits :: "kheap \<Rightarrow> u64 \<Rightarrow> bool" where
  "heap_fits st sz \<longleftrightarrow> (\<exists>bs. heap_rep st bs \<and> has_room (unat (align8 sz)) bs)"

lemma alloc_first_room: "alloc_first s a bs \<noteq> None \<longleftrightarrow> has_room s bs"
  by (induction s a bs rule: alloc_first.induct) (auto simp: has_room_def)

lemma has_room_coalesce: "has_room s bs \<Longrightarrow> has_room s (coalesce bs)"
proof (induction bs rule: coalesce.induct)
  case (1 n f k g bs)
  then show ?case
    by (cases "f \<and> g") (auto simp: has_room_def intro: exI [of _ "n + HDR + k"])
qed auto

lemma has_room_mark_free:
  "(p, n) \<in> allocs a bs \<Longrightarrow> s \<le> n \<Longrightarrow> has_room s (mark_free p a bs)"
proof (induction p a bs rule: mark_free.induct)
  case (2 p a k f bs)
  show ?case
  proof (cases "p = a + HDR")
    case True
    with 2(2,3) show ?thesis
      by (auto simp: has_room_def split: if_splits dest: allocs_bounds)
  next
    case False
    with 2 have "has_room s (mark_free p (a + HDR + k) bs)" by (auto split: if_splits)
    with False show ?thesis by (auto simp: has_room_def)
  qed
qed simp

lemma kmalloc_fits:
  assumes "heap_fits st sz" and "sz \<noteq> 0" and "kmalloc st sz = Some (p, st')"
  shows "p \<noteq> 0"
proof -
  from assms(1) obtain bs where rep: "heap_rep st bs" and "has_room (unat (align8 sz)) bs"
    by (auto simp: heap_fits_def)
  then obtain q bs' where "alloc_first (unat (align8 sz)) (heap_base st) bs = Some (q, bs')"
    using alloc_first_room by fastforce
  with kmalloc_scan_rep [OF rep assms(2)] assms(3) alloc_first_addr [OF rep] show ?thesis
    by (auto simp: of_nat_lt64)
qed

lemma kfree_fits:
  assumes ok: "heap_ok st L" and "sz \<noteq> 0" and "kmalloc st sz = Some (p, st')" and "p \<noteq> 0"
    and "kfree st' p = Some st''"
  shows "heap_fits st'' sz"
proof -
  from ok obtain bs where rep: "heap_rep st bs" by (auto simp: heap_ok_def)
  obtain q bs' where a: "alloc_first (unat (align8 sz)) (heap_base st) bs = Some (q, bs')"
    using kmalloc_scan_rep [OF rep assms(2)] assms(3,4) by (auto split: option.splits)
  with kmalloc_scan_rep [OF rep assms(2)] assms(3) have
    p: "p = of_nat q" "heap_rep st' bs'" "heap_base st' = heap_base st" by (auto simp: heap_base_def)
  from alloc_first_allocs [OF a] obtain k where k: "unat (align8 sz) \<le> k" "(q, k) \<in> allocs (heap_base st') bs'"
    using p(3) by auto
  from kfree_rep [OF p(2) k(2)] assms(5) p(1)
  have "heap_rep st'' (coalesce (mark_free q (heap_base st') bs'))" by auto
  moreover have "has_room (unat (align8 sz)) (coalesce (mark_free q (heap_base st') bs'))"
    by (rule has_room_coalesce [OF has_room_mark_free [OF k(2,1)]])
  ultimately show ?thesis unfolding heap_fits_def by blast
qed

text \<open>A released block leaves room for a request of its size.\<close>

lemma kfree_room:
  assumes "heap_ok st L" and "(p, n) \<in> L" and "unat (align8 sz) \<le> n" and "kfree st (of_nat p) = Some st'"
  shows "heap_fits st' sz"
proof -
  from assms(1,2) obtain bs where rep: "heap_rep st bs" and live: "(p, n) \<in> allocs (heap_base st) bs"
    by (auto simp: heap_ok_def)
  from kfree_rep [OF rep live] assms(4) have "heap_rep st' (coalesce (mark_free p (heap_base st) bs))" by auto
  then show ?thesis
    using has_room_coalesce [OF has_room_mark_free [OF live assms(3)]] unfolding heap_fits_def by blast
qed

lemma kfree_heap_ok:
  assumes "heap_ok st L" and live: "(p, n) \<in> L"
  shows "\<exists>st'. kfree st (of_nat p) = Some st' \<and> heap_ok st' (L - {(p, n)}) \<and> unchanged (L - {(p, n)}) (mem st) (mem st')"
proof -
  from assms(1) obtain bs where rep: "heap_rep st bs" and L: "L = allocs (heap_base st) bs"
    by (auto simp: heap_ok_def)
  from kfree_rep [OF rep] live L obtain st' where st':
    "kfree st (of_nat p) = Some st'" "heap_rep st' (coalesce (mark_free p (heap_base st) bs))"
    "heap_start_ptr st' = heap_start_ptr st"
    "heap_frame (heap_base st) (mark_free p (heap_base st) bs) (mem st) (mem st')"
    by auto
  have al: "allocs (heap_base st) (mark_free p (heap_base st) bs) = L - {(p, n)}"
    using allocs_mark_free live L by simp
  have "heap_ok st' (L - {(p, n)})"
    using st'(2,3) al by (auto simp: heap_ok_def heap_base_def)
  then show ?thesis using st'(1) frame_unchanged [OF st'(4)] al by auto
qed

text \<open>The owner of a live block may write it.\<close>

lemma write_heap_ok:
  assumes ok: "heap_ok st L" and live: "(p, n) \<in> L"
    and m: "\<And>x :: u64. unat x < p \<or> p + n \<le> unat x \<Longrightarrow> m x = mem st x"
  shows "heap_ok (st\<lparr>mem := m\<rparr>) L"
proof -
  from ok obtain bs where rep: "heap_rep st bs" and L: "L = allocs (heap_base st) bs"
    by (auto simp: heap_ok_def)
  have "rd_hdr m (of_nat h) = rd_hdr (mem st) (of_nat h)" if "h \<in> hdrs (heap_base st) bs" for h
    using hdrs_allocs_apart [OF that, of p n] live L hdrs_bounds [OF that] rep
    by (intro rd_hdr_frame m) (auto simp: heap_rep_def)
  then have "layout m (heap_base st) bs"
    using rep by (simp add: heap_rep_def cong: layout_cong)
  with rep L show ?thesis by (auto simp: heap_ok_def heap_rep_def heap_base_def)
qed

text \<open>The block list of a heap is determined by its memory.\<close>

lemma layout_unique:
  assumes "layout m a bs" and "layout m a bs'" and "bs \<noteq> []" and "bs' \<noteq> []" and "0 < a"
    and "a + span bs < 2 ^ 64" and "a + span bs' < 2 ^ 64"
  shows "bs = bs'"
  using assms
proof (induction bs arbitrary: a bs')
  case (Cons b bs)
  obtain n f where b: "b = (n, f)" by (cases b)
  from Cons.prems(4) obtain n' f' bs'' where bs': "bs' = (n', f') # bs''" by (cases bs') auto
  have "n < 2 ^ 64" "n' < 2 ^ 64" using Cons.prems(6,7) by (simp_all add: b bs')
  moreover have "(of_nat n :: u64) = of_nat n'" using Cons.prems(1,2) by (simp add: b bs')
  ultimately have n: "n' = n" by (metis unat_of_nat64)
  have f: "f' = f" using Cons.prems(1,2) by (auto simp: b bs')
  have "a + HDR + n < 2 ^ 64" using Cons.prems(6) by (simp add: b)
  then have "(of_nat (a + HDR + n) :: u64) \<noteq> 0" using Cons.prems(5) by (intro of_nat_lt64) simp_all
  moreover have "(if bs = [] then 0 else (of_nat (a + HDR + n) :: u64)) = (if bs'' = [] then 0 else of_nat (a + HDR + n))"
    using Cons.prems(1,2) unfolding b bs' n by (simp only: layout.simps)
  ultimately have empty: "bs = [] \<longleftrightarrow> bs'' = []" by (metis (full_types))
  show ?case
  proof (cases "bs = []")
    case True
    with empty show ?thesis by (simp add: b bs' n f)
  next
    case False
    with empty have "bs = bs''" using Cons.prems by (intro Cons.IH [of "a + HDR + n"]) (simp_all add: b bs' n)
    then show ?thesis by (simp add: b bs' n f)
  qed
qed simp

lemma heap_rep_unique: "heap_rep st bs \<Longrightarrow> heap_rep st bs' \<Longrightarrow> bs = bs'"
  by (rule layout_unique [of "mem st" "heap_base st"]) (auto simp: heap_rep_def heap_base_def unat_gt_0)

text \<open>One free block of at least \<open>n\<close> bytes.  A request that leaves room for a header and \<open>r\<close> more bytes succeeds and
  leaves such a block.\<close>

definition heap_room :: "kheap \<Rightarrow> nat \<Rightarrow> bool" where
  "heap_room st n \<longleftrightarrow> (\<exists>bs. heap_rep st bs \<and> has_room n bs)"

lemma heap_room_fits: "heap_fits st sz \<longleftrightarrow> heap_room st (unat (align8 sz))"
  by (simp add: heap_fits_def heap_room_def)

lemma has_room_mono: "has_room n bs \<Longrightarrow> k \<le> n \<Longrightarrow> has_room k bs"
  unfolding has_room_def by (meson order.trans)

lemma heap_room_mono: "heap_room st n \<Longrightarrow> k \<le> n \<Longrightarrow> heap_room st k"
  unfolding heap_room_def using has_room_mono by blast

lemma alloc_first_leaves:
  assumes "alloc_first s a bs = Some (p, bs')" and "has_room (s + HDR + r) bs" and "0 < r"
  shows "has_room r bs'"
  using assms
proof (induction s a bs arbitrary: p bs' rule: alloc_first.induct)
  case (2 s a n f bs)
  show ?case
  proof (cases "f \<and> s \<le> n")
    case True
    with 2(2) have bs': "bs' = (if n > s + HDR then (s, False) # (n - s - HDR, True) # bs else (n, False) # bs)" by auto
    from 2(3) obtain k where "(k, True) = (n, f) \<or> (k, True) \<in> set bs" "s + HDR + r \<le> k"
      by (auto simp: has_room_def)
    then consider "s + HDR + r \<le> n" | "(k, True) \<in> set bs" "r \<le> k" by auto
    then show ?thesis
    proof cases
      case 1
      with 2(4) show ?thesis by (auto simp: bs' has_room_def)
    next
      case 2
      then show ?thesis unfolding bs' has_room_def by auto
    qed
  next
    case False
    with 2(2) obtain cs where cs: "alloc_first s (a + HDR + n) bs = Some (p, cs)" "bs' = (n, f) # cs" by auto
    from 2(3) False have "has_room (s + HDR + r) bs" by (auto simp: has_room_def)
    with 2(1) [OF False cs(1)] 2(4) have "has_room r cs" by blast
    with cs(2) show ?thesis by (auto simp: has_room_def)
  qed
qed simp

lemma kmalloc_room:
  assumes "heap_room st (unat (align8 sz) + HDR + r)" and "0 < r" and "sz \<noteq> 0" and "kmalloc st sz = Some (p, st')"
  shows "p \<noteq> 0 \<and> heap_room st' r"
proof -
  let ?s = "unat (align8 sz)"
  from assms(1) obtain bs where rep: "heap_rep st bs" and room: "has_room (?s + HDR + r) bs" by (auto simp: heap_room_def)
  have "has_room ?s bs" by (rule has_room_mono [OF room]) simp
  then have "heap_fits st sz" using rep by (auto simp: heap_fits_def)
  from kmalloc_fits [OF this assms(3,4)] have p: "p \<noteq> 0" .
  from \<open>has_room ?s bs\<close> obtain q bs' where a: "alloc_first ?s (heap_base st) bs = Some (q, bs')"
    using alloc_first_room [of ?s "heap_base st" bs] by (cases "alloc_first ?s (heap_base st) bs") auto
  with kmalloc_scan_rep [OF rep assms(3)] assms(4) have "heap_rep st' bs'" by auto
  with alloc_first_leaves [OF a room assms(2)] p show ?thesis by (auto simp: heap_room_def)
qed

lemma write_heap_room:
  assumes ok: "heap_ok st L" and live: "(p, n) \<in> L" and room: "heap_room st r"
    and m: "\<And>x :: u64. unat x < p \<or> p + n \<le> unat x \<Longrightarrow> m x = mem st x"
  shows "heap_room (st\<lparr>mem := m\<rparr>) r"
proof -
  from room obtain bs where rep: "heap_rep st bs" and r: "has_room r bs" by (auto simp: heap_room_def)
  from ok obtain bs' where "heap_rep st bs'" "L = allocs (heap_base st) bs'" by (auto simp: heap_ok_def)
  with rep have L: "L = allocs (heap_base st) bs" using heap_rep_unique by blast
  have "rd_hdr m (of_nat h) = rd_hdr (mem st) (of_nat h)" if "h \<in> hdrs (heap_base st) bs" for h
    using hdrs_allocs_apart [OF that, of p n] live L hdrs_bounds [OF that] rep
    by (intro rd_hdr_frame m) (auto simp: heap_rep_def)
  then have "layout m (heap_base st) bs"
    using rep by (simp add: heap_rep_def cong: layout_cong)
  with rep r show ?thesis by (auto simp: heap_room_def heap_rep_def heap_base_def)
qed

interpretation kheap: allocator kmalloc kfree heap_ok mem "\<lambda>st m. st\<lparr>mem := m\<rparr>" heap_area heap_fits
proof
  fix st :: kheap and L and sz :: u64
  assume "heap_ok st L" "0 < unat sz" "unat sz + 7 < 2 ^ 64"
  then show "\<exists>p st'. kmalloc st sz = Some (p, st') \<and>
         (p = 0 \<and> st' = st \<or>
          p \<noteq> 0 \<and> (\<exists>k\<ge>unat sz. heap_ok st' (insert (unat p, k) L)) \<and>
          (\<forall>j. (unat p, j) \<notin> L) \<and> unchanged L (mem st) (mem st'))"
    by (rule kmalloc_heap_ok)
next
  show "\<exists>st'. kfree st (of_nat p) = Some st' \<and> heap_ok st' (L - {(p, n)}) \<and> unchanged (L - {(p, n)}) (mem st) (mem st')"
    if "heap_ok st L" "(p, n) \<in> L" for st L p n
    using that by (rule kfree_heap_ok)
next
  show "kfree st 0 = Some st" for st by (simp add: kfree_def)
next
  fix st :: kheap and L p n and m :: mem
  assume ok: "heap_ok st L" and live: "(p, n) \<in> L"
    and m: "\<And>x :: u64. unat x < p \<or> p + n \<le> unat x \<Longrightarrow> m x = mem st x"
  show "heap_ok (st\<lparr>mem := m\<rparr>) L" by (rule write_heap_ok [OF ok live m])
next
  show "mem (st\<lparr>mem := m\<rparr>) = m" for st :: kheap and m :: mem by simp
next
  show "0 < p \<and> p + n < 2 ^ 64" if "heap_ok st L" "(p, n) \<in> L" for st L p n
    using that allocs_bounds by (fastforce simp: heap_ok_def heap_rep_def)
next
  show "p + n \<le> q \<or> q + k \<le> p"
    if "heap_ok st L" "(p, n) \<in> L" "(q, k) \<in> L" "(p, n) \<noteq> (q, k)" for st L p n q k
    using that allocs_disjoint [of p n _ _ q k] allocs_unique [of p n _ _ k]
    by (fastforce simp: heap_ok_def)
next
  show "heap_area (st\<lparr>mem := m\<rparr>) = heap_area st" for st :: kheap and m :: mem
    by (simp add: heap_area_def heap_base_def)
next
  show "x \<in> heap_area st" if "heap_ok st L" "(p, n) \<in> L" "p \<le> unat x" "unat x < p + n" for st L p n x
    using that allocs_bounds by (fastforce simp: heap_ok_def heap_area_def heap_rep_def)
qed (erule kmalloc_outside kfree_outside kmalloc_fits kfree_fits; assumption)+

lemma kmalloc_init_heap_rep:
  assumes "start \<noteq> 0" and "HDR \<le> unat len" and "unat start + unat len < 2 ^ 64"
  shows "heap_rep (kmalloc_init st start len) [(unat len - HDR, True)]"
proof -
  have "unat (len - 24) = unat len - HDR"
    using assms(2) by (simp add: unat_sub word_le_nat_alt)
  then have "(of_nat (unat len - HDR) :: u64) = len - 24"
    by (simp flip: \<open>unat (len - 24) = unat len - HDR\<close>)
  then show ?thesis
    using assms by (simp add: heap_rep_def heap_base_def kmalloc_init_def hdr.rd_wr)
qed

text \<open>A small heap of 4096 bytes at address 4096, for concrete instances.\<close>

definition small_heap :: kheap where
  "small_heap = kmalloc_init \<lparr>mem = (\<lambda>_. 0), heap_start_ptr = 0, total_heap_size = 0\<rparr> 4096 4096"

lemma small_heap_rep: "heap_rep small_heap [(4072, True)]"
  using kmalloc_init_heap_rep [of 4096 4096] by (simp add: small_heap_def)

lemma small_heap_base [simp]: "heap_base small_heap = 4096"
  by (simp add: small_heap_def kmalloc_init_def heap_base_def)

lemma small_heap_ok: "heap_ok small_heap {}"
  using small_heap_rep by (force simp: heap_ok_def)

section \<open>Properties\<close>

text \<open>C1: on a well-formed heap \<open>kmalloc\<close> terminates and takes the first free block that is large
  enough for the request rounded up to a multiple of 8, splitting it when the rest can hold a header
  and a byte; it returns null and changes nothing exactly when there is no such block, and it writes
  only inside the heap and outside every live allocation.\<close>

theorem kmalloc_first_fit:
  assumes "heap_rep st bs" and "sz \<noteq> 0" and "unat sz + 7 < 2 ^ 64"
  shows "case alloc_first ((unat sz + 7) div 8 * 8) (heap_base st) bs of
           None \<Rightarrow> kmalloc st sz = Some (0, st)
         | Some (p, bs') \<Rightarrow> \<exists>st'. kmalloc st sz = Some (of_nat p, st') \<and> heap_rep st' bs' \<and>
             heap_frame (heap_base st) bs (mem st) (mem st')"
  using kmalloc_scan_rep [OF assms(1,2)] unfolding unat_align8 [OF assms(3)]
  by (fastforce split: option.splits)

theorem kmalloc_first_fit_witness:
  "\<exists>st'. kmalloc small_heap 100 = Some (4120, st') \<and> heap_rep st' [(104, False), (3944, True)] \<and>
         heap_frame 4096 [(4072, True)] (mem small_heap) (mem st')"
  using kmalloc_first_fit [OF small_heap_rep, of 100] by simp

text \<open>C10: a block \<open>kmalloc\<close> returns is at least as large as the request and shares no byte with any
  block that is still live, the heap stays well formed with exactly that block added, and no byte of
  a live block changes.\<close>

theorem kmalloc_fresh_block:
  assumes "heap_ok st L" and "0 < unat sz" and "unat sz + 7 < 2 ^ 64"
    and "kmalloc st sz = Some (p, st')" and "p \<noteq> 0"
  shows "(\<exists>k\<ge>unat sz. heap_ok st' (insert (unat p, k) L)) \<and>
         (\<forall>q k. (q, k) \<in> L \<longrightarrow> unat p + unat sz \<le> q \<or> q + k \<le> unat p) \<and>
         unchanged L (mem st) (mem st')"
  using kmalloc_heap_ok [OF assms(1-3)] kheap.alloc_fresh [OF assms(1-5)] assms(4,5) by fastforce

theorem kmalloc_fresh_block_witness:
  "\<exists>p st'. kmalloc small_heap 100 = Some (p, st') \<and> (\<exists>k\<ge>100. heap_ok st' (insert (unat p, k) {}))"
proof -
  obtain st' where st': "kmalloc small_heap 100 = Some (4120, st')"
    using kmalloc_scan_rep [OF small_heap_rep, of 100] by (auto simp: unat_align8)
  have "(0::nat) < unat (100 :: u64)" "unat (100 :: u64) + 7 < 2 ^ 64" "(4120 :: u64) \<noteq> 0"
    by simp_all
  from kmalloc_fresh_block [OF small_heap_ok this(1,2) st' this(3)] st' show ?thesis by auto
qed

text \<open>C11: releasing a live block makes exactly that block free, joins free neighbours in one pass
  over the list, always terminates, and leaves every other live block and everything outside the
  heap alone.\<close>

theorem kfree_releases:
  assumes "heap_rep st bs" and "(p, n) \<in> allocs (heap_base st) bs"
  shows "\<exists>st'. kfree st (of_nat p) = Some st' \<and>
           heap_rep st' (coalesce (mark_free p (heap_base st) bs)) \<and>
           allocs (heap_base st') (coalesce (mark_free p (heap_base st) bs)) =
             allocs (heap_base st) bs - {(p, n)} \<and>
           heap_frame (heap_base st) (mark_free p (heap_base st) bs) (mem st) (mem st')"
  using kfree_rep [OF assms] allocs_mark_free [OF assms(2)] by (auto simp: heap_base_def)

theorem kfree_releases_witness:
  "\<exists>st st'. heap_rep st [(104, False), (3944, True)] \<and> kfree st 4120 = Some st' \<and>
            heap_rep st' [(4072, True)]"
proof -
  obtain st where st: "heap_rep st [(104, False), (3944, True)]" "heap_start_ptr st = 4096"
    using kmalloc_scan_rep [OF small_heap_rep, of 100]
    by (auto simp: unat_align8 small_heap_def kmalloc_init_def)
  then have "heap_base st = 4096" by (simp add: heap_base_def)
  with st(1) show ?thesis using kfree_releases [OF st(1), of 4120 104] by auto
qed

text \<open>Memory that is allocated and released again leaves the set of live blocks as it was, with
  their contents, whether or not the allocation succeeded.\<close>

theorem kmalloc_kfree_restores:
  assumes "heap_ok st L" and "0 < unat sz" and "unat sz + 7 < 2 ^ 64" and "kmalloc st sz = Some (p, st')"
  shows "\<exists>st''. kfree st' p = Some st'' \<and> heap_ok st'' L \<and> unchanged L (mem st) (mem st'')"
  using assms by (rule kheap.alloc_release)

theorem kmalloc_kfree_restores_witness:
  "\<exists>p st' st''. kmalloc small_heap 8 = Some (p, st') \<and> kfree st' p = Some st'' \<and> heap_ok st'' {}"
proof -
  have sz: "0 < unat (8 :: u64)" "unat (8 :: u64) + 7 < 2 ^ 64" by simp_all
  obtain p st' where k: "kmalloc small_heap 8 = Some (p, st')"
    using kmalloc_heap_ok [OF small_heap_ok sz] by blast
  from kmalloc_kfree_restores [OF small_heap_ok sz k] k show ?thesis by blast
qed

text \<open>\<open>kmalloc_init\<close> turns any memory into a well-formed heap of one free block, provided the
  region is not at address 0, can hold a header and does not reach the end of the address space.\<close>

theorem kmalloc_init_well_formed:
  assumes "start \<noteq> 0" and "HDR \<le> unat len" and "unat start + unat len < 2 ^ 64"
  shows "heap_rep (kmalloc_init st start len) [(unat len - HDR, True)]"
  using assms by (rule kmalloc_init_heap_rep)

theorem kmalloc_init_well_formed_witness:
  "heap_rep (kmalloc_init small_heap 0x80000000 0x10000000) [(268435432, True)]"
  using kmalloc_init_well_formed [of "0x80000000" "0x10000000" small_heap] by simp

text \<open>C40: the rounding of the size wraps around: a request of more than $2^{64} - 8$ bytes succeeds
  as soon as any block is free, with a block of at most 24 bytes.\<close>

theorem kmalloc_size_wraps:
  assumes "heap_rep st bs" and "(n, True) \<in> set bs" and "2 ^ 64 \<le> unat sz + 7"
  shows "\<exists>p st' k. kmalloc st sz = Some (of_nat p, st') \<and> (of_nat p :: u64) \<noteq> 0 \<and>
           heap_ok st' (insert (p, k) (allocs (heap_base st) bs)) \<and> k \<le> HDR"
proof -
  have nz: "sz \<noteq> 0" using assms(3) by auto
  have "alloc_first 0 (heap_base st) bs \<noteq> None"
    using assms(2) by (auto simp: alloc_first_None)
  then obtain p bs' where f: "alloc_first 0 (heap_base st) bs = Some (p, bs')" by auto
  with kmalloc_scan_rep [OF assms(1) nz] obtain st' where
    "kmalloc st sz = Some (of_nat p, st')" "heap_rep st' bs'" "heap_start_ptr st' = heap_start_ptr st"
    by (auto simp: align8_wraps [OF assms(3)])
  moreover from this(2,3) alloc_first_zero [OF f] obtain k where
    "heap_ok st' (insert (p, k) (allocs (heap_base st) bs))" "k \<le> HDR"
    unfolding heap_ok_def heap_base_def by metis
  ultimately show ?thesis
    using alloc_first_addr [OF assms(1) f] of_nat_lt64 by blast
qed

theorem kmalloc_size_wraps_witness:
  "\<exists>p st' k. kmalloc small_heap 0xFFFFFFFFFFFFFFFF = Some (of_nat p, st') \<and> heap_ok st' (insert (p, k) {}) \<and> k \<le> HDR"
  using kmalloc_size_wraps [OF small_heap_rep, of 4072 "0xFFFFFFFFFFFFFFFF"] by auto

text \<open>The coalescing pass moves on after a join, so releasing the middle one of three
  neighbours leaves two adjacent free blocks behind.\<close>

theorem kfree_leaves_adjacent_free:
  assumes "heap_rep st [(a, True), (b, False), (c, True)]"
  shows "\<exists>st'. kfree st (of_nat (heap_base st + HDR + a + HDR)) = Some st' \<and>
           heap_rep st' [(a + HDR + b, True), (c, True)]"
  using kfree_rep [OF assms, of "heap_base st + HDR + a + HDR" b] by auto

theorem kfree_leaves_adjacent_free_witness:
  "\<exists>st st'. heap_rep st [(104, True), (104, False), (3816, True)] \<and> kfree st 4248 = Some st' \<and>
            heap_rep st' [(232, True), (3816, True)]"
proof -
  obtain s1 where s1: "heap_rep s1 [(104, False), (3944, True)]" "heap_start_ptr s1 = 4096"
    using kmalloc_scan_rep [OF small_heap_rep, of 100]
    by (auto simp: unat_align8 small_heap_def kmalloc_init_def)
  obtain s2 where s2: "heap_rep s2 [(104, False), (104, False), (3816, True)]" "heap_start_ptr s2 = 4096"
    using kmalloc_scan_rep [OF s1(1), of 100] s1(2) by (auto simp: unat_align8)
  obtain s3 where s3: "heap_rep s3 [(104, True), (104, False), (3816, True)]" "heap_start_ptr s3 = 4096"
    using kfree_rep [OF s2(1), of 4120 104] s2(2) by (auto simp: heap_base_def)
  have "heap_base s3 = 4096" using s3(2) by (simp add: heap_base_def)
  with s3(1) show ?thesis using kfree_leaves_adjacent_free [OF s3(1)] by auto
qed

end
