(* ===== verification/Mmu.thy ===== *)
theory Mmu
  imports Cpu Kmalloc Lib
begin

text \<open>
  The page tables of \<^verbatim>\<open>src/kern/memory/vm_maps.c\<close> (lines 14--46 and 162--227): the boot tables that
  \<open>cpu_enable_mmu\<close> builds in memory and the table \<open>vm_create_task_pagetable\<close> allocates for a task.
  The addresses of the two static tables are fixed by the linker and are arguments here.  The
  specification side is the translation table walk of the architecture with 4 KB granules.
\<close>

section \<open>Definitions\<close>

abbreviation PAGE_SIZE :: u64 where "PAGE_SIZE \<equiv> 0x1000"
abbreviation BLOCK_SIZE :: u64 where "BLOCK_SIZE \<equiv> 0x200000"
abbreviation MAPPING_BASE :: u64 where "MAPPING_BASE \<equiv> 0x40000000"

definition MT_DEVICE_NGNRNE :: u64 where "MT_DEVICE_NGNRNE = 0x00"
definition MT_NORMAL_NC :: u64 where "MT_NORMAL_NC = 0x01"
definition MT_NORMAL :: u64 where "MT_NORMAL = 0x02"

definition MAIR_VALUE :: u64 where
  "MAIR_VALUE = push_bit (unat (MT_DEVICE_NGNRNE * 8)) 0x00 OR push_bit (unat (MT_NORMAL_NC * 8)) 0x44
     OR push_bit (unat (MT_NORMAL * 8)) 0xFF"

definition TCR_T0SZ :: "u64 \<Rightarrow> u64" where "TCR_T0SZ x = push_bit 0 (64 - x)"

definition TCR_VALUE :: u64 where
  "TCR_VALUE = TCR_T0SZ 48 OR push_bit 8 0x1 OR push_bit 10 0x1 OR push_bit 12 0x3 OR push_bit 14 0x0
     OR push_bit 16 0x5"

definition PTE_VALID :: u64 where "PTE_VALID = push_bit 0 1"
definition PTE_TABLE :: u64 where "PTE_TABLE = push_bit 1 1"
definition PTE_BLOCK :: u64 where "PTE_BLOCK = push_bit 1 0"
definition PTE_AF :: u64 where "PTE_AF = push_bit 10 1"
definition PTE_SH_INNER_SHAREABLE :: u64 where "PTE_SH_INNER_SHAREABLE = push_bit 8 0x3"
definition PTE_AP_RW_EL1 :: u64 where "PTE_AP_RW_EL1 = push_bit 6 0x0"
definition PTE_PXN :: u64 where "PTE_PXN = push_bit 53 1"
definition PTE_UXN :: u64 where "PTE_UXN = push_bit 54 1"

lemmas pte_defs = PTE_VALID_def PTE_TABLE_def PTE_BLOCK_def PTE_AF_def PTE_SH_INNER_SHAREABLE_def
  PTE_AP_RW_EL1_def PTE_PXN_def PTE_UXN_def MT_DEVICE_NGNRNE_def MT_NORMAL_NC_def MT_NORMAL_def

definition flush_tlb :: "cpu \<Rightarrow> cpu" where
  "flush_tlb c = sys_op ISB_SY (sys_op DSB_SY (sys_op TLBI_VMALLE1IS c))"

text \<open>The loop that fills the level 2 table, from index \<open>i\<close> on with \<open>k\<close> iterations left.\<close>

primrec l2_fill :: "nat \<Rightarrow> mem \<Rightarrow> u64 \<Rightarrow> nat \<Rightarrow> mem" where
  "l2_fill 0 m l2 i = m"
| "l2_fill (Suc k) m l2 i =
     (let pa = of_nat i * BLOCK_SIZE;
          attributes = PTE_VALID OR PTE_BLOCK OR PTE_AF OR PTE_SH_INNER_SHAREABLE OR PTE_AP_RW_EL1;
          attributes = attributes OR push_bit 2 MT_NORMAL
      in l2_fill k (store64 m (l2 + 8 * of_nat i) (pa OR attributes)) l2 (Suc i))"

partial_function (option) fb_fill :: "mem \<Rightarrow> u64 \<Rightarrow> u64 \<Rightarrow> u64 \<Rightarrow> u64 \<Rightarrow> mem option" where
  "fb_fill m fb_l2_table fb_attributes fb_end current_pa =
     (if current_pa < fb_end
      then (let l2_idx = drop_bit 21 current_pa AND 0x1FF
            in fb_fill (store64 m (fb_l2_table + 8 * l2_idx) (current_pa OR fb_attributes))
                 fb_l2_table fb_attributes fb_end (current_pa + BLOCK_SIZE))
      else Some m)"

text \<open>
  \<open>cpu_enable_mmu\<close> with the tables at \<open>l1\<close> and \<open>l2\<close>.  The address \<open>kmalloc\<close> returns is used unchecked.
\<close>

definition cpu_enable_mmu :: "u64 \<Rightarrow> u64 \<Rightarrow> cpu \<Rightarrow> kheap \<Rightarrow> (cpu \<times> kheap) option" where
  "cpu_enable_mmu l1 l2 c h =
     (let m = memset (mem h) l1 0 4096;
          m = memset m l2 0 4096;
          m = store64 m (l1 + 8 * 0) (l2 OR PTE_TABLE OR PTE_VALID);
          h = h\<lparr>mem := l2_fill 512 m l2 0\<rparr>;
          fb_base_pa = MAPPING_BASE;
          fb_size = 0x1000000;
          l1_idx = drop_bit 30 fb_base_pa AND 0x1FF
      in do {
        h \<leftarrow> (if load64 (mem h) (l1 + 8 * l1_idx) AND PTE_VALID = 0
              then do {
                (new_l2_table, h) \<leftarrow> kmalloc h PAGE_SIZE;
                let m = memset (mem h) new_l2_table 0 PAGE_SIZE;
                Some (h\<lparr>mem := store64 m (l1 + 8 * l1_idx) (new_l2_table OR PTE_TABLE OR PTE_VALID)\<rparr>)
              }
              else Some h);
        let fb_l2_table = load64 (mem h) (l1 + 8 * l1_idx) AND NOT 0xFFF;
        let fb_attributes = PTE_VALID OR PTE_BLOCK OR PTE_AF OR PTE_SH_INNER_SHAREABLE OR PTE_AP_RW_EL1
              OR PTE_PXN OR PTE_UXN OR push_bit 2 MT_DEVICE_NGNRNE;
        m \<leftarrow> fb_fill (mem h) fb_l2_table fb_attributes (fb_base_pa + fb_size) fb_base_pa;
        let c = msr TTBR0_EL1 l1 (msr TCR_EL1 TCR_VALUE (msr MAIR_EL1 MAIR_VALUE c));
        let c = flush_tlb c;
        let sctlr = mrs SCTLR_EL1 c OR 1;
        Some (sys_op ISB_SY (msr SCTLR_EL1 sctlr c), h\<lparr>mem := m\<rparr>)
      })"

text \<open>The copy loop of \<open>vm_create_task_pagetable\<close>, from index \<open>i\<close> on.\<close>

primrec l1_copy :: "nat \<Rightarrow> mem \<Rightarrow> u64 \<Rightarrow> u64 \<Rightarrow> nat \<Rightarrow> mem" where
  "l1_copy 0 m t l1 i = m"
| "l1_copy (Suc k) m t l1 i =
     l1_copy k (store64 m (t + 8 * of_nat i) (load64 m (l1 + 8 * of_nat i))) t l1 (Suc i)"

definition vm_create_task_pagetable :: "u64 \<Rightarrow> cpu \<Rightarrow> kheap \<Rightarrow> (u64 \<times> cpu \<times> kheap) option" where
  "vm_create_task_pagetable l1 c h = do {
     (task_l1_table, h) \<leftarrow> kmalloc h PAGE_SIZE;
     if task_l1_table = 0
     then Some (0, kprint (''vm_create_task_pagetable: failed to allocate task l1 table'', []) c, h)
     else (let m = memset (mem h) task_l1_table 0 PAGE_SIZE
           in Some (task_l1_table, c, h\<lparr>mem := l1_copy 512 m task_l1_table l1 0\<rparr>))
   }"

section \<open>The translation table walk\<close>

text \<open>
  The walk of the architecture for a 4 KB granule, from a table of the given level on: a descriptor
  with bit 0 clear is invalid; with bit 1 set it names the next table, or a page on level 3; with
  bit 1 clear it maps a block on level 1 (1 GB) or level 2 (2 MB).  The result is the output address
  and the leaf descriptor.
\<close>

function walk :: "mem \<Rightarrow> nat \<Rightarrow> u64 \<Rightarrow> u64 \<Rightarrow> (u64 \<times> u64) option" where
  "walk m level table va =
     (let shift = 39 - 9 * level;
          d = load64 m (table + 8 * (drop_bit shift va AND 0x1FF));
          out = (d AND 0xFFFFFFFFF000 AND NOT (mask shift)) OR (va AND mask shift)
      in if \<not> bit d 0 \<or> 3 < level then None
         else if level = 3 then (if bit d 1 then Some (out, d) else None)
         else if bit d 1 then walk m (Suc level) (d AND 0xFFFFFFFFF000) va
         else if level = 0 then None
         else Some (out, d))"
  by auto
termination
  by (relation "measure (\<lambda>(m, level, t, va). 4 - level)") auto

text \<open>The level at which the walk starts for a value of \<open>TCR_EL1.T0SZ\<close>.\<close>

definition start_level :: "u64 \<Rightarrow> nat" where
  "start_level tcr = (let t0sz = unat (tcr AND 0x3F)
     in if t0sz \<le> 24 then 0 else if t0sz \<le> 33 then 1 else if t0sz \<le> 42 then 2 else 3)"

declare walk.simps [simp del]

section \<open>The boot tables\<close>

lemma unat_index_bound: "j < 512 \<Longrightarrow> j < (2 ^ 32 :: nat)"
  by simp

lemmas table_index = load64_store64_index [OF unat_index_bound unat_index_bound]

definition normal_block :: u64 where
  "normal_block = (PTE_VALID OR PTE_BLOCK OR PTE_AF OR PTE_SH_INNER_SHAREABLE OR PTE_AP_RW_EL1)
     OR push_bit 2 MT_NORMAL"

definition device_block :: u64 where
  "device_block = PTE_VALID OR PTE_BLOCK OR PTE_AF OR PTE_SH_INNER_SHAREABLE OR PTE_AP_RW_EL1
     OR PTE_PXN OR PTE_UXN OR push_bit 2 MT_DEVICE_NGNRNE"

lemma block_values: "normal_block = 0x709" "device_block = 0x60000000000701"
  by (simp_all add: normal_block_def device_block_def pte_defs)

lemma l2_fill_words:
  assumes "i + k \<le> 512" and "j < 512"
  shows "load64 (l2_fill k m t i) (t + 8 * of_nat j) =
         (if i \<le> j \<and> j < i + k then (of_nat j * BLOCK_SIZE) OR normal_block
          else load64 m (t + 8 * of_nat j))"
  using assms
proof (induction k arbitrary: m i)
  case 0
  then show ?case by auto
next
  case (Suc k)
  have "load64 (l2_fill (Suc k) m t i) (t + 8 * of_nat j) =
      (if Suc i \<le> j \<and> j < Suc i + k then (of_nat j * BLOCK_SIZE) OR normal_block
       else load64 (store64 m (t + 8 * of_nat i) ((of_nat i * BLOCK_SIZE) OR normal_block))
              (t + 8 * of_nat j))"
    unfolding l2_fill.simps Let_def using Suc.prems
    by (subst Suc.IH) (simp_all add: normal_block_def)
  then show ?case using Suc.prems table_index [of i j] by auto
qed

lemma l2_fill_frame:
  assumes "i + k \<le> 512" and "x \<notin> region t 4096"
  shows "l2_fill k m t i x = m x"
  using assms(1)
proof (induction k arbitrary: m i)
  case 0
  then show ?case by simp
next
  case (Suc k)
  have "x \<notin> region (t + 8 * of_nat i) 8"
    using region_index [of i 4096 t] Suc.prems assms(2) by auto
  with Suc show ?case by (simp add: Let_def store64_frame)
qed

lemma l1_copy_words:
  assumes "i + k \<le> 512" and "j < 512" and "region t 4096 \<inter> region s 4096 = {}"
  shows "load64 (l1_copy k m t s i) (t + 8 * of_nat j) =
         (if i \<le> j \<and> j < i + k then load64 m (s + 8 * of_nat j) else load64 m (t + 8 * of_nat j))"
  using assms(1,2)
proof (induction k arbitrary: m i)
  case 0
  then show ?case by auto
next
  case (Suc k)
  let ?m = "store64 m (t + 8 * of_nat i) (load64 m (s + 8 * of_nat i))"
  have "region (t + 8 * of_nat i) 8 \<subseteq> region t 4096" "region (s + 8 * of_nat j) 8 \<subseteq> region s 4096"
    using Suc.prems by (intro region_index; simp)+
  then have "load64 ?m (s + 8 * of_nat j) = load64 m (s + 8 * of_nat j)"
    using assms(3) by (intro load64_cong store64_frame) auto
  moreover have "i < 512" using Suc.prems by simp
  ultimately show ?case using Suc table_index [of i j] by auto
qed

lemma l1_copy_frame:
  assumes "i + k \<le> 512" and "x \<notin> region t 4096"
  shows "l1_copy k m t s i x = m x"
  using assms(1)
proof (induction k arbitrary: m i)
  case 0
  then show ?case by simp
next
  case (Suc k)
  have "x \<notin> region (t + 8 * of_nat i) 8"
    using region_index [of i 4096 t] Suc.prems assms(2) by auto
  with Suc show ?case by (simp add: store64_frame)
qed

lemma fb_fill_eq:
  "fb_fill m t a 0x41000000 MAPPING_BASE =
     Some (fold (\<lambda>j m. store64 m (t + 8 * of_nat j) ((MAPPING_BASE + of_nat j * BLOCK_SIZE) OR a)) [0..<8] m)"
proof -
  have "[0..<8] = [0, 1, 2, 3, 4, 5, 6, 7 :: nat]" by code_simp
  then show ?thesis by (simp add: fb_fill.simps Let_def)
qed

lemma store_fold_words:
  assumes "j < 512" and "\<forall>i \<in> set is. i < 512" and "distinct is"
  shows "load64 (fold (\<lambda>i m. store64 m (t + 8 * of_nat i) (f i)) is m) (t + 8 * of_nat j) =
         (if j \<in> set is then f j else load64 m (t + 8 * of_nat j))"
  using assms(2,3)
proof (induction "is" arbitrary: m)
  case (Cons i "is")
  then have "i < 512" by simp
  with Cons show ?case using table_index [OF \<open>i < 512\<close> assms(1)] by auto
qed simp

lemma store_fold_frame:
  assumes "x \<notin> region t 4096" and "\<forall>i \<in> set is. i < 512"
  shows "fold (\<lambda>i m. store64 m (t + 8 * of_nat i) (f i)) is m x = m x"
  using assms(2)
proof (induction "is" arbitrary: m)
  case (Cons i "is")
  then have "x \<notin> region (t + 8 * of_nat i) 8" using region_index [of i 4096 t] assms(1) by auto
  with Cons show ?case by (simp add: store64_frame)
qed simp


text \<open>The memory \<open>cpu_enable_mmu\<close> leaves when \<open>kmalloc\<close> returns null.\<close>

definition boot_mem :: "u64 \<Rightarrow> u64 \<Rightarrow> mem \<Rightarrow> mem" where
  "boot_mem l1 l2 m =
     fold (\<lambda>j m. store64 m (0 + 8 * of_nat j) ((MAPPING_BASE + of_nat j * BLOCK_SIZE) OR device_block)) [0..<8]
       (store64 (memset (l2_fill 512 (store64 (memset (memset m l1 0 4096) l2 0 4096) (l1 + 8 * of_nat 0) (l2 OR 3)) l2 0)
          0 0 PAGE_SIZE) (l1 + 8 * of_nat 1) 3)"

definition tables_apart :: "u64 \<Rightarrow> u64 \<Rightarrow> bool" where
  "tables_apart l1 l2 \<longleftrightarrow> region l1 4096 \<inter> region l2 4096 = {} \<and>
     region l1 4096 \<inter> region 0 4096 = {} \<and> region l2 4096 \<inter> region 0 4096 = {}"

lemma memset_table:
  "x \<notin> region t 4096 \<Longrightarrow> memset m t 0 PAGE_SIZE x = m x"
  "x \<in> region t 4096 \<Longrightarrow> memset m t 0 PAGE_SIZE x = 0"
  by (simp_all add: memset_eq write_bytes_def region_def)

lemma load64_memset_table: "j < 512 \<Longrightarrow> load64 (memset m t 0 PAGE_SIZE) (t + 8 * of_nat j) = 0"
  using region_index [of j 4096 t] by (intro load64_zero memset_table(2)) auto

text \<open>A word of a table does not change when memory changes outside the table only.\<close>

lemma table_word_frame:
  assumes "j < 512" and "\<And>x. x \<in> region t 4096 \<Longrightarrow> m' x = m x"
  shows "load64 m' (t + 8 * of_nat j) = load64 m (t + 8 * of_nat j)"
  using region_index [of j 4096 t] assms by (intro load64_cong) auto

lemma l1_before:
  assumes "tables_apart l1 l2" and "j < 512"
  shows "load64 (l2_fill 512 (store64 (memset (memset m l1 0 4096) l2 0 4096) (l1 + 8 * of_nat 0) (l2 OR 3)) l2 0)
           (l1 + 8 * of_nat j) = (if j = 0 then l2 OR 3 else 0)"
proof -
  let ?m = "memset (memset m l1 0 4096) l2 0 4096"
  have out: "x \<notin> region l2 4096" if "x \<in> region l1 4096" for x
    using that assms(1) by (auto simp: tables_apart_def)
  have "load64 (l2_fill 512 (store64 ?m (l1 + 8 * of_nat 0) (l2 OR 3)) l2 0) (l1 + 8 * of_nat j) =
      load64 (store64 ?m (l1 + 8 * of_nat 0) (l2 OR 3)) (l1 + 8 * of_nat j)"
    using out by (intro table_word_frame [OF assms(2)] l2_fill_frame) simp_all
  also have "\<dots> = (if 0 = j then l2 OR 3 else load64 ?m (l1 + 8 * of_nat j))"
    using assms(2) by (intro table_index) simp_all
  also have "load64 ?m (l1 + 8 * of_nat j) = load64 (memset m l1 0 4096) (l1 + 8 * of_nat j)"
    using out by (intro table_word_frame [OF assms(2)] memset_table(1)) simp
  finally show ?thesis using load64_memset_table [OF assms(2)] by auto
qed

lemma cpu_enable_mmu_boot:
  assumes "tables_apart l1 l2" and "heap_start_ptr h = 0"
  shows "cpu_enable_mmu l1 l2 c h =
    Some (c\<lparr>sysregs := (sysregs c)(MAIR_EL1 := MAIR_VALUE, TCR_EL1 := TCR_VALUE, TTBR0_EL1 := l1,
                SCTLR_EL1 := sysregs c SCTLR_EL1 OR 1),
            sys_trace := sys_trace c @ [MSR MAIR_EL1 MAIR_VALUE, MSR TCR_EL1 TCR_VALUE, MSR TTBR0_EL1 l1,
                TLBI_VMALLE1IS, DSB_SY, ISB_SY, MSR SCTLR_EL1 (sysregs c SCTLR_EL1 OR 1), ISB_SY]\<rparr>,
          h\<lparr>mem := boot_mem l1 l2 (mem h)\<rparr>)"
proof -
  let ?m = "l2_fill 512 (store64 (memset (memset (mem h) l1 0 4096) l2 0 4096) (l1 + 8 * of_nat 0) (l2 OR 3)) l2 0"
  have 1: "load64 ?m (l1 + 8 * 1) = 0" using l1_before [OF assms(1), of 1 "mem h"] by simp
  have 2: "kmalloc (h\<lparr>mem := ?m\<rparr>) PAGE_SIZE = Some (0, h\<lparr>mem := ?m\<rparr>)"
    using assms(2) by (simp add: kmalloc_def kmalloc_scan.simps)
  have 3: "PTE_TABLE OR PTE_VALID = 3" by (simp add: pte_defs)
  have 4: "drop_bit 30 MAPPING_BASE AND 0x1FF = 1" by simp
  have 5: "(3 :: u64) AND NOT 0xFFF = 0" by simp
  show ?thesis
    unfolding cpu_enable_mmu_def Let_def 3 4
    using 1 2
    by (simp add: load64_store64_same fb_fill_eq 5 flip: device_block_def)
      (simp add: boot_mem_def msr_def mrs_def flush_tlb_def sys_op_def fun_upd_twist)
qed


lemma boot_mem_words:
  assumes "tables_apart l1 l2" and "j < 512"
  shows "load64 (boot_mem l1 l2 m) (l1 + 8 * of_nat j) = (if j = 0 then l2 OR 3 else if j = 1 then 3 else 0)"
    and "load64 (boot_mem l1 l2 m) (l2 + 8 * of_nat j) = (of_nat j * BLOCK_SIZE) OR normal_block"
    and "load64 (boot_mem l1 l2 m) (0 + 8 * of_nat j) =
           (if j < 8 then (MAPPING_BASE + of_nat j * BLOCK_SIZE) OR device_block else 0)"
proof -
  let ?m1 = "store64 (memset (memset m l1 0 4096) l2 0 4096) (l1 + 8 * of_nat 0) (l2 OR 3)"
  let ?m2 = "l2_fill 512 ?m1 l2 0"
  let ?m3 = "memset ?m2 0 0 PAGE_SIZE"
  let ?m4 = "store64 ?m3 (l1 + 8 * of_nat 1) 3"
  have apart: "x \<notin> region 0 4096" "x \<notin> region l2 4096" if "x \<in> region l1 4096" for x
    using that assms(1) by (auto simp: tables_apart_def)
  have apart2: "x \<notin> region l1 4096" "x \<notin> region 0 4096" if "x \<in> region l2 4096" for x
    using that assms(1) by (auto simp: tables_apart_def)
  have l1w: "region (l1 + 8 * of_nat 1) 8 \<subseteq> region l1 4096" by (rule region_index) simp_all
  have fold: "boot_mem l1 l2 m x = ?m4 x" if "x \<notin> region 0 4096" for x
    unfolding boot_mem_def by (rule store_fold_frame [OF that]) simp
  have m4: "?m4 x = ?m3 x" if "x \<notin> region l1 4096" for x
    using that l1w by (intro store64_frame) auto
  have "load64 (boot_mem l1 l2 m) (l1 + 8 * of_nat j) = load64 ?m4 (l1 + 8 * of_nat j)"
    using fold apart by (intro table_word_frame [OF assms(2)]) auto
  also have "\<dots> = (if 1 = j then 3 else load64 ?m3 (l1 + 8 * of_nat j))"
    using assms(2) by (intro table_index) simp_all
  also have "load64 ?m3 (l1 + 8 * of_nat j) = load64 ?m2 (l1 + 8 * of_nat j)"
    using apart by (intro table_word_frame [OF assms(2)] memset_table(1)) auto
  finally show "load64 (boot_mem l1 l2 m) (l1 + 8 * of_nat j) =
      (if j = 0 then l2 OR 3 else if j = 1 then 3 else 0)"
    using l1_before [OF assms] by (cases "j = 1") (simp_all only: if_True if_False simp_thms, auto)
  have "load64 (boot_mem l1 l2 m) (l2 + 8 * of_nat j) = load64 ?m2 (l2 + 8 * of_nat j)"
    using fold m4 apart2 memset_table(1) by (intro table_word_frame [OF assms(2)]) metis
  then show "load64 (boot_mem l1 l2 m) (l2 + 8 * of_nat j) = (of_nat j * BLOCK_SIZE) OR normal_block"
    using l2_fill_words [of 0 512 j ?m1 l2] assms(2) by simp
  have apart0: "x \<notin> region l1 4096" if "x \<in> region 0 4096" for x
    using that assms(1) by (auto simp: tables_apart_def)
  have "load64 ?m4 (0 + 8 * of_nat j) = load64 ?m3 (0 + 8 * of_nat j)"
    using m4 apart0 by (intro table_word_frame [OF assms(2)]) auto
  also have "\<dots> = 0" by (rule load64_memset_table [OF assms(2)])
  finally show "load64 (boot_mem l1 l2 m) (0 + 8 * of_nat j) =
           (if j < 8 then (MAPPING_BASE + of_nat j * BLOCK_SIZE) OR device_block else 0)"
    unfolding boot_mem_def using assms(2) by (subst store_fold_words) simp_all
qed

text \<open>The walk reads the table entry with the index taken from the address.\<close>

definition walk_index :: "nat \<Rightarrow> u64 \<Rightarrow> nat" where
  "walk_index level va = unat va div 2 ^ (39 - 9 * level) mod 512"

lemma walk_index_word: "drop_bit (39 - 9 * level) va AND 0x1FF = of_nat (walk_index level va)"
proof -
  have "drop_bit (39 - 9 * level) va AND 0x1FF = take_bit 9 (drop_bit (39 - 9 * level) va)"
    by (simp add: take_bit_eq_mask mask_eq_exp_minus_1)
  also have "\<dots> = of_nat (unat (take_bit 9 (drop_bit (39 - 9 * level) va)))" by simp
  also have "unat (take_bit 9 (drop_bit (39 - 9 * level) va)) = walk_index level va"
    by (simp only: unsigned_take_bit_eq unat_drop_bit_eq) (simp add: walk_index_def take_bit_eq_mod drop_bit_eq_div)
  finally show ?thesis .
qed

lemma walk_step:
  assumes "load64 m (t + 8 * of_nat (walk_index level va)) = d"
  shows "walk m level t va =
     (let out = (d AND 0xFFFFFFFFF000 AND NOT (mask (39 - 9 * level))) OR (va AND mask (39 - 9 * level))
      in if \<not> bit d 0 \<or> 3 < level then None
         else if level = 3 then (if bit d 1 then Some (out, d) else None)
         else if bit d 1 then walk m (Suc level) (d AND 0xFFFFFFFFF000) va
         else if level = 0 then None
         else Some (out, d))"
  by (subst walk.simps) (simp only: walk_index_word assms Let_def)


lemma walk_table:
  assumes "load64 m (t + 8 * of_nat (walk_index level va)) = d" and "bit d 0" and "bit d 1" and "level < 3"
    and "d AND 0xFFFFFFFFF000 = t'"
  shows "walk m level t va = walk m (Suc level) t' va"
  using assms(2-) by (simp add: walk_step [OF assms(1)])

lemma walk_invalid:
  assumes "load64 m (t + 8 * of_nat (walk_index level va)) = 0"
  shows "walk m level t va = None"
  by (simp add: walk_step [OF assms])

lemma walk_leaf:
  assumes "load64 m (t + 8 * of_nat (walk_index level va)) = d" and "bit d 0" and "\<not> bit d 1"
    and "0 < level" and "level < 3"
    and "(d AND 0xFFFFFFFFF000 AND NOT (mask (39 - 9 * level))) OR (va AND mask (39 - 9 * level)) = out"
  shows "walk m level t va = Some (out, d)"
  using assms(2-) by (simp add: walk_step [OF assms(1)])

lemma addr_mask: "(0xFFFFFFFFF000 :: u64) = push_bit 12 (mask 36)"
  by (simp add: mask_eq_exp_minus_1 push_bit_eq_mult)

lemma high_bits:
  assumes "unat (va :: u64) < 2 ^ k" and "k \<le> n"
  shows "\<not> bit va n"
proof -
  have "take_bit k (unat va) = unat va" using assms(1) by (simp add: take_bit_nat_eq_self_iff)
  then have "bit (unat va) n \<longleftrightarrow> n < k \<and> bit (unat va) n" by (metis bit_take_bit_iff)
  then show ?thesis using assms(2) by (simp add: bit_unsigned_iff)
qed

lemma block_out:
  fixes va :: u64
  assumes "attr AND 0xFFFFFFFFF000 = 0" and "unat va < 2 ^ 48" and "12 \<le> s"
  shows "(((va AND NOT (mask s)) OR attr) AND 0xFFFFFFFFF000 AND NOT (mask s)) OR (va AND mask s) = va"
proof (rule bit_word_eqI)
  fix n assume "n < LENGTH(64)"
  then have n: "n < 64" by simp
  have "bit (attr AND 0xFFFFFFFFF000) n = False" using assms(1) by simp
  with n have attr: "\<not> (bit attr n \<and> 12 \<le> n \<and> n < 48)" unfolding addr_mask by (auto simp: bit_simps)
  have "n < 48 \<or> \<not> bit va n" using high_bits [OF assms(2)] not_le by blast
  with attr n show "bit ((((va AND NOT (mask s)) OR attr) AND 0xFFFFFFFFF000 AND NOT (mask s)) OR (va AND mask s)) n =
      bit va n"
    unfolding addr_mask using assms(3) by (auto simp: bit_simps)
qed

lemma table_entry:
  assumes "l2 AND 0xFFFFFFFFF000 = (l2 :: u64)"
  shows "(l2 OR 3) AND 0xFFFFFFFFF000 = l2" and "bit (l2 OR 3) 0" and "bit (l2 OR 3) 1"
proof -
  have "(l2 OR 3) AND 0xFFFFFFFFF000 = (l2 AND 0xFFFFFFFFF000) OR (3 AND 0xFFFFFFFFF000)"
    by (rule bit_word_eqI) (auto simp only: bit_and_iff bit_or_iff)
  also have "(3 :: u64) AND 0xFFFFFFFFF000 = 0" by simp
  finally show "(l2 OR 3) AND 0xFFFFFFFFF000 = l2" using assms by simp
  have "bit (3 :: u64) 0" "bit (3 :: u64) 1" by simp_all
  then show "bit (l2 OR 3) 0" "bit (l2 OR 3) 1" unfolding bit_or_iff by blast+
qed

text \<open>A level 2 block descriptor that maps the 2 MB around an address to themselves.\<close>

lemma walk_block:
  assumes "load64 m (t + 8 * of_nat (walk_index 2 va)) = A OR attr"
    and "unat A = unat va div 2 ^ 21 * 2 ^ 21" and "unat va < 2 ^ 48"
    and "attr AND 0xFFFFFFFFF000 = 0" and "bit attr 0" and "\<not> bit attr 1"
  shows "walk m 2 t va = Some (va, A OR attr)"
proof -
  have A: "A = va AND NOT (mask 21)"
    using assms(2) by (intro word_unat_eq_iff [THEN iffD2]) (simp only: unat_and_not_mask)
  have "\<not> bit A 1" unfolding A by (simp add: bit_simps)
  moreover have "((A OR attr) AND 0xFFFFFFFFF000 AND NOT (mask 21)) OR (va AND mask 21) = va"
    unfolding A by (rule block_out [OF assms(4,3)]) simp
  ultimately show ?thesis
    using assms(5,6) unfolding walk_step [OF assms(1)] by (simp add: bit_or_iff)
qed

lemma unat_table_pa:
  "j < 512 \<Longrightarrow> unat (of_nat j * BLOCK_SIZE) = j * 2 ^ 21"
  "j < 8 \<Longrightarrow> unat (MAPPING_BASE + of_nat j * BLOCK_SIZE) = 2 ^ 30 + j * 2 ^ 21"
  using unat_of_nat64 [of "j * 0x200000"] unat_of_nat64 [of "0x40000000 + j * 0x200000"] by simp_all

lemma block_attr_bits:
  "normal_block AND 0xFFFFFFFFF000 = 0" "bit normal_block 0" "\<not> bit normal_block 1"
  "device_block AND 0xFFFFFFFFF000 = 0" "bit device_block 0" "\<not> bit device_block 1"
  unfolding block_values by simp_all

text \<open>The start of the 2 MB block of an address.\<close>

definition block_base :: "u64 \<Rightarrow> u64" where
  "block_base va = of_nat (unat va div 2 ^ 21 * 2 ^ 21)"

lemma walk_normal:
  assumes "tables_apart l1 l2" and "l2 AND 0xFFFFFFFFF000 = l2" and "unat va < 2 ^ 30"
  shows "walk (boot_mem l1 l2 m) 1 l1 va = Some (va, block_base va OR normal_block)"
proof -
  let ?j = "walk_index 2 va" and ?m = "boot_mem l1 l2 m"
  have i: "walk_index 1 va = 0" and j: "?j < 512" "?j = unat va div 2 ^ 21"
    using assms(3) by (simp_all add: walk_index_def)
  have "load64 ?m (l1 + 8 * of_nat (walk_index 1 va)) = l2 OR 3"
    unfolding i using boot_mem_words(1) [OF assms(1), of 0] by simp
  from walk_table [OF this table_entry(2,3) [OF assms(2)] _ table_entry(1) [OF assms(2)]]
  have "walk ?m 1 l1 va = walk ?m 2 l2 va" by (simp add: numeral_2_eq_2)
  also have "\<dots> = Some (va, of_nat ?j * BLOCK_SIZE OR normal_block)"
  proof (rule walk_block)
    show "load64 ?m (l2 + 8 * of_nat ?j) = of_nat ?j * BLOCK_SIZE OR normal_block"
      by (rule boot_mem_words(2) [OF assms(1) j(1)])
    show "unat (of_nat ?j * BLOCK_SIZE) = unat va div 2 ^ 21 * 2 ^ 21"
      unfolding unat_table_pa(1) [OF j(1)] by (simp only: j(2))
  qed (use assms(3) block_attr_bits in simp_all)
  also have "of_nat ?j * BLOCK_SIZE = block_base va" unfolding block_base_def j(2) by simp
  finally show ?thesis .
qed


lemma second_gb_index:
  assumes "2 ^ 30 \<le> unat va" and "unat va < 2 ^ 31"
  shows "walk_index 1 va = 1" and "512 + walk_index 2 va = unat va div 2 ^ 21" and "walk_index 2 va < 512"
proof -
  have "unat va div 2 ^ 30 = 1" using assms by (intro div_nat_eqI) simp_all
  then show "walk_index 1 va = 1" by (simp add: walk_index_def)
  have q: "512 \<le> unat va div 2 ^ 21" "unat va div 2 ^ 21 < 1024"
    using assms div_le_mono [of "2 ^ 30" "unat va" "2 ^ 21"] by (simp_all add: less_mult_imp_div_less)
  then have "unat va div 2 ^ 21 mod 512 = unat va div 2 ^ 21 - 512" by (simp add: le_mod_geq)
  with q show "512 + walk_index 2 va = unat va div 2 ^ 21" by (simp add: walk_index_def)
  show "walk_index 2 va < 512" by (simp add: walk_index_def)
qed

lemma walk_device:
  assumes "tables_apart l1 l2" and "2 ^ 30 \<le> unat va" and "unat va < 2 ^ 30 + 2 ^ 24"
  shows "walk (boot_mem l1 l2 m) 1 l1 va = Some (va, block_base va OR device_block)"
proof -
  let ?j = "walk_index 2 va" and ?m = "boot_mem l1 l2 m"
  have hi: "unat va < 2 ^ 31" using assms(3) by simp
  note i = second_gb_index(1) [OF assms(2) hi] and q = second_gb_index(2) [OF assms(2) hi]
  have "unat va div 2 ^ 21 < 520" using assms(3) by (simp add: less_mult_imp_div_less)
  with q have j: "?j < 8" by linarith
  have qj: "2 ^ 30 + ?j * 2 ^ 21 = unat va div 2 ^ 21 * 2 ^ 21" unfolding q [symmetric] by simp
  have "load64 ?m (l1 + 8 * of_nat (walk_index 1 va)) = 3"
    unfolding i using boot_mem_words(1) [OF assms(1), of 1] by simp
  then have "walk ?m 1 l1 va = walk ?m (Suc 1) 0 va" by (rule walk_table) simp_all
  then have "walk ?m 1 l1 va = walk ?m 2 0 va" by (simp only: Suc_1)
  also have "\<dots> = Some (va, (MAPPING_BASE + of_nat ?j * BLOCK_SIZE) OR device_block)"
  proof (rule walk_block)
    show "load64 ?m (0 + 8 * of_nat ?j) = (MAPPING_BASE + of_nat ?j * BLOCK_SIZE) OR device_block"
      using boot_mem_words(3) [OF assms(1), of ?j] j by simp
    show "unat (MAPPING_BASE + of_nat ?j * BLOCK_SIZE) = unat va div 2 ^ 21 * 2 ^ 21"
      unfolding unat_table_pa(2) [OF j] by (rule qj)
  qed (use assms(3) block_attr_bits in simp_all)
  also have "MAPPING_BASE + of_nat ?j * BLOCK_SIZE = block_base va" unfolding block_base_def qj [symmetric] by simp
  finally show ?thesis .
qed

lemma walk_none:
  assumes "tables_apart l1 l2" and "2 ^ 30 + 2 ^ 24 \<le> unat va" and "unat va < 2 ^ 39"
  shows "walk (boot_mem l1 l2 m) 1 l1 va = None"
proof (cases "unat va < 2 ^ 31")
  case True
  let ?j = "walk_index 2 va" and ?m = "boot_mem l1 l2 m"
  have lo: "2 ^ 30 \<le> unat va" using assms(2) by simp
  note i = second_gb_index(1) [OF lo True] and q = second_gb_index(2,3) [OF lo True]
  have "520 \<le> unat va div 2 ^ 21"
    using div_le_mono [OF assms(2), of "2 ^ 21"] by simp
  with q have j: "8 \<le> ?j" "?j < 512" by linarith+
  have "load64 ?m (l1 + 8 * of_nat (walk_index 1 va)) = 3"
    unfolding i using boot_mem_words(1) [OF assms(1), of 1] by simp
  then have "walk ?m 1 l1 va = walk ?m (Suc 1) 0 va" by (rule walk_table) simp_all
  then have "walk ?m 1 l1 va = walk ?m 2 0 va" by (simp only: Suc_1)
  moreover have "load64 ?m (0 + 8 * of_nat ?j) = 0"
    using boot_mem_words(3) [OF assms(1) j(2)] j(1) by simp
  ultimately show ?thesis using walk_invalid [of ?m 0 2 va] by simp
next
  case False
  have "unat va div 2 ^ 30 < 512" "2 \<le> unat va div 2 ^ 30"
    using assms(3) False div_le_mono [of "2 ^ 31" "unat va" "2 ^ 30"]
    by (simp_all add: less_mult_imp_div_less)
  then have "walk_index 1 va \<noteq> 0" "walk_index 1 va \<noteq> 1" "walk_index 1 va < 512"
    by (simp_all add: walk_index_def)
  then have "load64 (boot_mem l1 l2 m) (l1 + 8 * of_nat (walk_index 1 va)) = 0"
    using boot_mem_words(1) [OF assms(1)] by simp
  then show ?thesis by (rule walk_invalid)
qed

lemma walk_level0:
  assumes "tables_apart l1 l2" and "l2 AND 0xFFFFFFFFF000 = l2" and "unat va < 2 ^ 39"
  shows "\<exists>d. walk (boot_mem l1 l2 m) 0 l1 va = Some (va AND mask 30, d)"
proof -
  let ?j = "walk_index 1 va" and ?m = "boot_mem l1 l2 m"
  have i: "walk_index 0 va = 0" and j: "?j < 512" using assms(3) by (simp_all add: walk_index_def)
  let ?d = "of_nat ?j * BLOCK_SIZE OR normal_block"
  have "load64 ?m (l1 + 8 * of_nat (walk_index 0 va)) = l2 OR 3"
    unfolding i using boot_mem_words(1) [OF assms(1), of 0] by simp
  from walk_table [OF this table_entry(2,3) [OF assms(2)] _ table_entry(1) [OF assms(2)]]
  have *: "walk ?m 0 l1 va = walk ?m 1 l2 va" by simp
  have ld: "load64 ?m (l2 + 8 * of_nat (walk_index 1 va)) = ?d"
    by (rule boot_mem_words(2) [OF assms(1) j])
  have "unat (of_nat ?j * BLOCK_SIZE) < 2 ^ 30" unfolding unat_table_pa(1) [OF j] using j by simp
  moreover have "unat normal_block < 2 ^ 30" unfolding block_values by simp
  ultimately have hi: "n < 30" if "bit ?d n" for n
    using high_bits that not_le unfolding bit_or_iff by blast
  have out: "(?d AND 0xFFFFFFFFF000 AND NOT (mask 30)) OR (va AND mask 30) = va AND mask 30"
  proof (rule bit_word_eqI)
    fix n
    show "bit ((?d AND 0xFFFFFFFFF000 AND NOT (mask 30)) OR (va AND mask 30)) n = bit (va AND mask 30) n"
      using hi [of n] unfolding bit_or_iff [of "_ AND _"] bit_and_iff bit_not_iff bit_mask_iff by blast
  qed
  have "of_nat ?j * BLOCK_SIZE = push_bit 21 (of_nat ?j :: u64)" by (simp add: push_bit_eq_mult)
  then have "bit ?d 0" "\<not> bit ?d 1" using block_attr_bits(2,3) by (simp_all add: bit_or_iff bit_push_bit_iff)
  from walk_leaf [OF ld this] out show ?thesis unfolding * by simp
qed


section \<open>Properties\<close>

text \<open>C13: \<open>cpu_enable_mmu\<close>, called as in \<open>kernel_main\<close> before the heap exists, builds tables whose walk
  from level 1 maps the first gigabyte to itself as normal memory and the 16 MB of the framebuffer
  at 0x40000000 to themselves as device memory that cannot be executed, and maps nothing else.  The leaf
  descriptors are given in full: the base of the 2 MB block with the attributes 0x709 (attribute index 2,
  which the value of \<open>MAIR_EL1\<close> makes normal memory) and with 0x701 (index 0, device memory) and both
  execute-never bits.  The
  registers are written in order, the TLB is invalidated after the table base is set, and the MMU is
  switched on last.\<close>

theorem cpu_enable_mmu_maps:
  assumes "tables_apart l1 l2" and "l2 AND 0xFFFFFFFFF000 = l2" and "heap_start_ptr h = 0"
  shows "\<exists>c' h'. cpu_enable_mmu l1 l2 c h = Some (c', h') \<and>
     (\<forall>va. unat va < 2 ^ 30 \<longrightarrow> walk (mem h') 1 l1 va = Some (va, block_base va OR 0x709)) \<and>
     (\<forall>va. 2 ^ 30 \<le> unat va \<and> unat va < 2 ^ 30 + 2 ^ 24 \<longrightarrow>
        walk (mem h') 1 l1 va = Some (va, block_base va OR 0x60000000000701)) \<and>
     (\<forall>va. 2 ^ 30 + 2 ^ 24 \<le> unat va \<and> unat va < 2 ^ 39 \<longrightarrow> walk (mem h') 1 l1 va = None) \<and>
     sys_trace c' = sys_trace c @ [MSR MAIR_EL1 0xFF4400, MSR TCR_EL1 0x53510, MSR TTBR0_EL1 l1,
       TLBI_VMALLE1IS, DSB_SY, ISB_SY, MSR SCTLR_EL1 (mrs SCTLR_EL1 c OR 1), ISB_SY]"
proof -
  have v: "MAIR_VALUE = 0xFF4400" "TCR_VALUE = 0x53510"
    by (simp_all add: MAIR_VALUE_def TCR_VALUE_def TCR_T0SZ_def pte_defs)
  show ?thesis
    unfolding block_values [symmetric]
    using cpu_enable_mmu_boot [OF assms(1,3), of c] walk_normal [OF assms(1,2), of _ "mem h"]
      walk_device [OF assms(1), of _ "mem h"] walk_none [OF assms(1), of _ "mem h"]
    by (simp add: v mrs_def)
qed

lemma sample_tables: "tables_apart 0x100000 0x101000" "(0x101000 :: u64) AND 0xFFFFFFFFF000 = 0x101000"
  using region_apart [of 4096 "0x101000" "0x100000" 4096 0] region_apart [of 4096 0 "0x100000" 4096 0]
    region_apart [of 4096 0 "0x101000" 4096 0]
  by (simp_all add: tables_apart_def)

abbreviation no_heap :: kheap where
  "no_heap \<equiv> \<lparr>mem = (\<lambda>_. 0), heap_start_ptr = 0, total_heap_size = 0\<rparr>"

theorem cpu_enable_mmu_maps_witness:
  "\<exists>c' h'. cpu_enable_mmu 0x100000 0x101000 (sample_cpu 0 0 0) no_heap = Some (c', h') \<and>
     walk (mem h') 1 0x100000 0x40000004 = Some (0x40000004, 0x60000040000701)"
proof -
  have "heap_start_ptr no_heap = 0" by simp
  moreover have "2 ^ 30 \<le> unat (0x40000004 :: u64) \<and> unat (0x40000004 :: u64) < 2 ^ 30 + 2 ^ 24" by simp
  moreover have "block_base 0x40000004 OR 0x60000000000701 = 0x60000040000701" by (simp add: block_base_def)
  ultimately show ?thesis
    using cpu_enable_mmu_maps [OF sample_tables, of no_heap "sample_cpu 0 0 0"] by metis
qed

text \<open>C29: the value written to \<open>TCR_EL1\<close> selects 48-bit addresses, for which the walk starts at level
  0.  Walked from there, the same tables map every address below 512 GB to the first gigabyte of
  physical memory: the framebuffer at 0x40000000 is reached at physical address 0.\<close>

theorem cpu_enable_mmu_aliases:
  assumes "tables_apart l1 l2" and "l2 AND 0xFFFFFFFFF000 = l2" and "heap_start_ptr h = 0"
    and "unat va < 2 ^ 39"
  shows "\<exists>c' h' d. cpu_enable_mmu l1 l2 c h = Some (c', h') \<and>
     walk (mem h') (start_level (mrs TCR_EL1 c')) (mrs TTBR0_EL1 c') va = Some (va AND mask 30, d)"
proof -
  have "start_level TCR_VALUE = 0"
    by (simp add: start_level_def TCR_VALUE_def TCR_T0SZ_def pte_defs)
  then show ?thesis
    using cpu_enable_mmu_boot [OF assms(1,3), of c] walk_level0 [OF assms(1,2,4), of "mem h"]
    by (simp add: mrs_def)
qed

theorem cpu_enable_mmu_aliases_witness:
  "\<exists>c' h' d. cpu_enable_mmu 0x100000 0x101000 (sample_cpu 0 0 0) no_heap = Some (c', h') \<and>
     walk (mem h') 0 (mrs TTBR0_EL1 c') 0x40000000 = Some (0, d)"
proof -
  have 1: "heap_start_ptr no_heap = 0" "unat (0x40000000 :: u64) < 2 ^ 39" by simp_all
  have 2: "(0x40000000 :: u64) AND mask 30 = 0" by (simp add: mask_eq_exp_minus_1)
  have 3: "start_level TCR_VALUE = 0" by (simp add: start_level_def TCR_VALUE_def TCR_T0SZ_def pte_defs)
  from cpu_enable_mmu_aliases [OF sample_tables 1, of "sample_cpu 0 0 0"] obtain c' h' d where
    r: "cpu_enable_mmu 0x100000 0x101000 (sample_cpu 0 0 0) no_heap = Some (c', h')"
    "walk (mem h') (start_level (mrs TCR_EL1 c')) (mrs TTBR0_EL1 c') 0x40000000 = Some (0, d)"
    unfolding 2 by blast
  have "mrs TCR_EL1 c' = TCR_VALUE"
    using r(1) cpu_enable_mmu_boot [OF sample_tables(1) 1(1), of "sample_cpu 0 0 0"] by (auto simp: mrs_def)
  with r 3 show ?thesis by auto
qed

lemma vm_create_task_pagetable_cases:
  assumes ok: "heap_ok h L" and l1: "region l1 4096 \<inter> heap_area h = {}"
  obtains (null) "vm_create_task_pagetable l1 c h =
        Some (0, kprint (''vm_create_task_pagetable: failed to allocate task l1 table'', []) c, h)"
  | (table) t h' k where "vm_create_task_pagetable l1 c h = Some (t, c, h')" and "t \<noteq> 0"
      and "4096 \<le> k" and "heap_ok h' (insert (unat t, k) L)" and "\<forall>j. (unat t, j) \<notin> L"
      and "unchanged L (mem h) (mem h')"
      and "\<forall>j<512. load64 (mem h') (t + 8 * of_nat j) = load64 (mem h) (l1 + 8 * of_nat j)"
      and "heap_area h' = heap_area h" and "\<forall>x. x \<notin> heap_area h \<longrightarrow> mem h' x = mem h x"
proof -
  have "0 < unat PAGE_SIZE" "unat PAGE_SIZE + 7 < 2 ^ 64" by simp_all
  with ok show thesis
  proof (cases rule: kheap.alloc_cases)
    case null
    then show thesis
      by (intro that(1)) (simp add: vm_create_task_pagetable_def)
  next
    case (block t h1 k)
    let ?m = "l1_copy 512 (memset (mem h1) t 0 PAGE_SIZE) t l1 0"
    let ?h = "h1\<lparr>mem := ?m\<rparr>"
    have k: "4096 \<le> k" using block(3) by simp
    have "unat t + k < 2 ^ 64" using kheap.live_bounds [OF block(4)] by blast
    have area: "heap_area h1 = heap_area h" "\<forall>x. x \<notin> heap_area h \<longrightarrow> mem h1 x = mem h x"
      using kheap.alloc_outside [OF ok block(1)] by auto
    have inside: "unat t \<le> unat x \<and> unat x < unat t + k" if "x \<in> region t 4096" for x
      using region_nat [of "unat t" 4096 x] that \<open>unat t + k < 2 ^ 64\<close> k by simp
    have same: "?m x = mem h1 x" if "unat x < unat t \<or> unat t + k \<le> unat x" for x
    proof -
      have "x \<notin> region t 4096" using inside that by (meson not_le)
      then show ?thesis by (simp add: l1_copy_frame memset_table(1))
    qed
    have ok': "heap_ok ?h (insert (unat t, k) L)" "unchanged (insert (unat t, k) L - {(unat t, k)}) (mem h1) ?m"
      using kheap.fill_block [OF block(4) insertI1 same] by simp_all
    have L: "insert (unat t, k) L - {(unat t, k)} = L" using block(5) by auto
    have sub: "region t 4096 \<subseteq> heap_area h"
      using inside kheap.live_area [OF block(4) insertI1] area(1) by blast
    have apart: "region t 4096 \<inter> region l1 4096 = {}" using sub l1 by blast
    have "load64 ?m (t + 8 * of_nat j) = load64 (mem h) (l1 + 8 * of_nat j)" if "j < 512" for j
    proof -
      have "load64 ?m (t + 8 * of_nat j) = load64 (memset (mem h1) t 0 PAGE_SIZE) (l1 + 8 * of_nat j)"
        using l1_copy_words [OF _ that apart, of 0 512] that by simp
      also have "\<dots> = load64 (mem h) (l1 + 8 * of_nat j)"
      proof (rule table_word_frame [OF that])
        fix x assume "x \<in> region l1 4096"
        then have "x \<notin> region t 4096" "x \<notin> heap_area h" using apart l1 by blast+
        with area(2) show "memset (mem h1) t 0 PAGE_SIZE x = mem h x" by (simp add: memset_table(1))
      qed
      finally show ?thesis .
    qed
    moreover have "?m x = mem h x" if "x \<notin> heap_area h" for x
    proof -
      have "x \<notin> region t 4096" using that sub by blast
      with that area(2) show ?thesis by (simp add: l1_copy_frame memset_table(1))
    qed
    moreover have "vm_create_task_pagetable l1 c h = Some (t, c, ?h)"
      using block(1,2) by (simp add: vm_create_task_pagetable_def Let_def)
    moreover have "unchanged L (mem h) (mem ?h)"
      using unchanged_trans [OF block(6)] ok'(2) unfolding L by simp
    moreover have "heap_area ?h = heap_area h" using area(1) kheap.area_put by simp
    ultimately show thesis using block(2,5) ok'(1) k by (intro that(2) [of t ?h k]) simp_all
  qed
qed


text \<open>\<open>vm_create_task_pagetable\<close> terminates on a well-formed heap; it returns null and changes only the
  console, or a fresh block of the heap that holds a copy of the 512 entries of the kernel table, with
  every other live block and the kernel table unchanged.\<close>

theorem vm_create_task_pagetable_copies:
  assumes "heap_ok h L" and "region l1 4096 \<inter> heap_area h = {}"
  shows "\<exists>t c' h'. vm_create_task_pagetable l1 c h = Some (t, c', h') \<and>
     (t = 0 \<and> h' = h \<and> c' = kprint (''vm_create_task_pagetable: failed to allocate task l1 table'', []) c \<or>
      t \<noteq> 0 \<and> c' = c \<and> (\<exists>k\<ge>4096. heap_ok h' (insert (unat t, k) L)) \<and> (\<forall>j. (unat t, j) \<notin> L) \<and>
      unchanged L (mem h) (mem h') \<and> (\<forall>x. x \<notin> heap_area h \<longrightarrow> mem h' x = mem h x) \<and>
      (\<forall>j<512. load64 (mem h') (t + 8 * of_nat j) = load64 (mem h) (l1 + 8 * of_nat j)))"
  using assms by (cases rule: vm_create_task_pagetable_cases [where c = c]) auto

theorem vm_create_task_pagetable_copies_witness:
  "\<exists>t c' h'. vm_create_task_pagetable 0x100000 (sample_cpu 0 0 0) small_heap = Some (t, c', h')"
proof -
  have "region 0x100000 4096 \<inter> heap_area small_heap = {}"
    using region_nat [of "0x100000" 4096]
    by (auto simp: heap_area_def) (auto simp: small_heap_def kmalloc_init_def)
  from vm_create_task_pagetable_copies [OF small_heap_ok this] show ?thesis by blast
qed

end
