(* ===== verification/Spinlock.thy ===== *)
theory Spinlock
  imports Prelude
begin

text \<open>
  The spinlock of \<^verbatim>\<open>src/kern/sched/astral_sched.c\<close> (lines 16--39) run by several cores at once.  Each
  instruction of the two assembly fragments is a step; \<open>ldaxr\<close> sets the exclusive monitor of the core,
  \<open>stxr\<close> stores only while it is set and may fail at any time, and every store to the lock word
  clears the monitors of all cores.  Rule induction shows mutual exclusion; the loop of one core, with the
  outcomes of its store-exclusives as an argument, is shown to agree with every run of the instructions.
\<close>

section \<open>Definitions\<close>

text \<open>Where a core is: outside, before an instruction of \<open>spinlock_acquire\<close> (with the value of the
  scratch register \<open>w0\<close> where it is live), or in the critical section before \<open>spinlock_release\<close>.\<close>

datatype lock_pc = Outside | Ldaxr | Cbnz1 u32 | Stxr | Cbnz2 u32 | Critical

record spinlock =
  lock :: u32
  monitor :: "nat \<Rightarrow> bool"
  at :: "nat \<Rightarrow> lock_pc"

definition spinlock_init :: "spinlock \<Rightarrow> spinlock" where
  "spinlock_init s = s\<lparr>lock := 0\<rparr>"

definition goto :: "nat \<Rightarrow> lock_pc \<Rightarrow> spinlock \<Rightarrow> spinlock" where
  "goto c l s = s\<lparr>at := (at s)(c := l)\<rparr>"

text \<open>The four instructions of \<open>spinlock_acquire\<close> and the one of \<open>spinlock_release\<close>.\<close>

inductive spin_step :: "nat \<Rightarrow> spinlock \<Rightarrow> spinlock \<Rightarrow> bool" where
  enter: "at s c = Outside \<Longrightarrow> spin_step c s (goto c Ldaxr s)"
| ldaxr: "at s c = Ldaxr \<Longrightarrow>
    spin_step c s (goto c (Cbnz1 (lock s)) (s\<lparr>monitor := (monitor s)(c := True)\<rparr>))"
| cbnz1: "at s c = Cbnz1 w \<Longrightarrow> spin_step c s (goto c (if w \<noteq> 0 then Ldaxr else Stxr) s)"
| stxr_ok: "at s c = Stxr \<Longrightarrow> monitor s c \<Longrightarrow>
    spin_step c s (goto c (Cbnz2 0) (s\<lparr>lock := 1, monitor := (\<lambda>_. False)\<rparr>))"
| stxr_fail: "at s c = Stxr \<Longrightarrow>
    spin_step c s (goto c (Cbnz2 1) (s\<lparr>monitor := (monitor s)(c := False)\<rparr>))"
| cbnz2: "at s c = Cbnz2 w \<Longrightarrow> spin_step c s (goto c (if w \<noteq> 0 then Ldaxr else Critical) s)"
| stlr: "at s c = Critical \<Longrightarrow>
    spin_step c s (goto c Outside (s\<lparr>lock := 0, monitor := (\<lambda>_. False)\<rparr>))"

inductive spin_reachable :: "spinlock \<Rightarrow> bool" where
  start: "(\<And>c. at s c = Outside) \<Longrightarrow> spin_reachable (spinlock_init s)"
| step: "spin_reachable s \<Longrightarrow> spin_step c s s' \<Longrightarrow> spin_reachable s'"

text \<open>The loop as one core runs it with no other core at the lock word: \<open>ok n\<close> says whether its \<open>n\<close>-th
  store-exclusive succeeds (the architecture lets it fail at any time), \<open>l\<close> is the lock word.  A loop that
  never ends is \<^term>\<open>None\<close>.\<close>

partial_function (option) spinlock_acquire :: "(nat \<Rightarrow> bool) \<Rightarrow> nat \<Rightarrow> u32 \<Rightarrow> u32 option" where
  "spinlock_acquire ok n l =
     (if l \<noteq> 0 then spinlock_acquire ok n l
      else if (if ok n then 0 else 1 :: u32) \<noteq> 0 then spinlock_acquire ok (Suc n) l
      else Some 1)"

definition spinlock_release :: "u32 \<Rightarrow> u32" where
  "spinlock_release l = 0"

section \<open>Mutual exclusion\<close>

text \<open>A core owns the lock from its successful store on.\<close>

definition owns :: "lock_pc \<Rightarrow> bool" where
  "owns l \<longleftrightarrow> l = Critical \<or> l = Cbnz2 0"

definition spin_inv :: "spinlock \<Rightarrow> bool" where
  "spin_inv s \<longleftrightarrow>
     (\<forall>c d. owns (at s c) \<longrightarrow> owns (at s d) \<longrightarrow> c = d) \<and>
     (lock s \<noteq> 0 \<longleftrightarrow> (\<exists>c. owns (at s c))) \<and>
     (\<forall>c. monitor s c \<longrightarrow> (at s c = Stxr \<or> at s c = Cbnz1 0) \<longrightarrow> lock s = 0)"

lemma spin_inv_start: "(\<And>c. at s c = Outside) \<Longrightarrow> spin_inv (spinlock_init s)"
  by (simp add: spin_inv_def spinlock_init_def owns_def)

text \<open>A step that takes and gives up nothing.\<close>

lemma spin_inv_move:
  assumes inv: "spin_inv s" and "owns l = owns (at s c)"
    and mon: "\<And>d. mon d \<Longrightarrow> d \<noteq> c \<Longrightarrow> monitor s d"
    and "mon c \<Longrightarrow> l = Stxr \<or> l = Cbnz1 0 \<Longrightarrow> lock s = 0"
  shows "spin_inv (goto c l (s\<lparr>monitor := mon\<rparr>))"
proof -
  let ?s = "goto c l (s\<lparr>monitor := mon\<rparr>)"
  have own: "owns (at ?s d) = owns (at s d)" for d using assms(2) by (simp add: goto_def)
  have "lock s = 0" if "mon d" "at ?s d = Stxr \<or> at ?s d = Cbnz1 0" for d
  proof (cases "d = c")
    case True
    with that assms(4) show ?thesis by (simp add: goto_def)
  next
    case False
    with that mon inv show ?thesis by (auto simp: spin_inv_def goto_def)
  qed
  with inv show ?thesis unfolding spin_inv_def own by (simp add: goto_def)
qed

lemma spin_inv_step:
  assumes "spin_inv s" and "spin_step c s s'"
  shows "spin_inv s'"
  using assms(2)
proof (cases rule: spin_step.cases)
  case stxr_ok
  then have "lock s = 0" using assms(1) by (auto simp: spin_inv_def)
  then have "\<not> owns (at s d)" for d using assms(1) by (auto simp: spin_inv_def)
  then show ?thesis using stxr_ok by (auto simp: spin_inv_def goto_def owns_def)
next
  case stlr
  then have "owns (at s c)" by (simp add: owns_def)
  then have "\<not> owns (at s d)" if "d \<noteq> c" for d using that assms(1) by (auto simp: spin_inv_def)
  then show ?thesis using stlr by (auto simp: spin_inv_def goto_def owns_def)
next
  case enter
  then show ?thesis using spin_inv_move [OF assms(1), of Ldaxr c "monitor s"] by (simp add: owns_def)
next
  case ldaxr
  then show ?thesis
    using spin_inv_move [OF assms(1), of "Cbnz1 (lock s)" c "(monitor s)(c := True)"] by (simp add: owns_def)
next
  case (cbnz1 w)
  have "monitor s c \<Longrightarrow> w = 0 \<Longrightarrow> lock s = 0" using assms(1) cbnz1 by (auto simp: spin_inv_def)
  with cbnz1 show ?thesis
    using spin_inv_move [OF assms(1), of "if w \<noteq> 0 then Ldaxr else Stxr" c "monitor s"]
    by (simp add: owns_def split: if_splits)
next
  case stxr_fail
  then show ?thesis
    using spin_inv_move [OF assms(1), of "Cbnz2 1" c "(monitor s)(c := False)"] by (simp add: owns_def)
next
  case (cbnz2 w)
  then show ?thesis
    using spin_inv_move [OF assms(1), of "if w \<noteq> 0 then Ldaxr else Critical" c "monitor s"]
    by (simp add: owns_def split: if_splits)
qed

lemma spin_inv_reachable: "spin_reachable s \<Longrightarrow> spin_inv s"
  by (induction rule: spin_reachable.induct) (auto intro: spin_inv_start spin_inv_step)

section \<open>Properties\<close>

text \<open>C15: in every interleaving of any number of cores at most one core is between
  \<open>spinlock_acquire\<close> and \<open>spinlock_release\<close>, and the lock word is nonzero while one is.\<close>

theorem spinlock_mutual_exclusion:
  assumes "spin_reachable s" and "at s c = Critical" and "at s d = Critical"
  shows "c = d \<and> lock s \<noteq> 0"
  using spin_inv_reachable [OF assms(1)] assms(2,3) by (auto simp: spin_inv_def owns_def)

abbreviation all_outside :: spinlock where
  "all_outside \<equiv> \<lparr>lock = 7, monitor = (\<lambda>_. False), at = (\<lambda>_. Outside)\<rparr>"

text \<open>What a core does alone from the entry to the critical section when the lock is free.\<close>

definition acquired :: "nat \<Rightarrow> spinlock \<Rightarrow> spinlock" where
  "acquired c s = s\<lparr>lock := 1, monitor := (\<lambda>_. False), at := (at s)(c := Critical)\<rparr>"

lemma spin_acquire_steps:
  assumes "at s c = Ldaxr" and "lock s = 0"
  shows "(spin_step c)\<^sup>*\<^sup>* s (acquired c s)"
proof -
  let ?s1 = "goto c (Cbnz1 0) (s\<lparr>monitor := (monitor s)(c := True)\<rparr>)"
  let ?s2 = "goto c Stxr ?s1"
  let ?s3 = "goto c (Cbnz2 0) (?s2\<lparr>lock := 1, monitor := (\<lambda>_. False)\<rparr>)"
  have "spin_step c s ?s1" using spin_step.ldaxr [of s c] assms by simp
  moreover have "spin_step c ?s1 ?s2" using spin_step.cbnz1 [of ?s1 c 0] by (simp add: goto_def)
  moreover have "spin_step c ?s2 ?s3" using spin_step.stxr_ok [of ?s2 c] by (simp add: goto_def)
  moreover have "spin_step c ?s3 (goto c Critical ?s3)"
    using spin_step.cbnz2 [of ?s3 c 0] by (simp add: goto_def)
  moreover have "goto c Critical ?s3 = acquired c s" by (simp add: goto_def acquired_def)
  ultimately show ?thesis by (auto intro: rtranclp.intros)
qed

theorem spinlock_mutual_exclusion_witness:
  "\<exists>s. spin_reachable s \<and> at s 3 = Critical \<and> (\<forall>d. at s d = Critical \<longrightarrow> 3 = d \<and> lock s \<noteq> 0)"
proof -
  let ?s0 = "spinlock_init all_outside"
  let ?s1 = "goto 3 Ldaxr ?s0"
  have "spin_reachable ?s0" by (rule spin_reachable.start) simp
  moreover have "spin_step 3 ?s0 ?s1" by (rule spin_step.enter) (simp add: spinlock_init_def)
  ultimately have 1: "spin_reachable ?s1" by (rule spin_reachable.step)
  have steps: "(spin_step 3)\<^sup>*\<^sup>* ?s1 (acquired 3 ?s1)"
    by (rule spin_acquire_steps) (simp_all add: goto_def spinlock_init_def)
  have "spin_reachable t" if "(spin_step 3)\<^sup>*\<^sup>* ?s1 t" for t
    using that by (induction rule: rtranclp_induct) (auto intro: 1 spin_reachable.step)
  with steps have "spin_reachable (acquired 3 ?s1)" by blast
  moreover have "at (acquired 3 ?s1) 3 = Critical" by (simp add: acquired_def)
  ultimately show ?thesis using spinlock_mutual_exclusion [of "acquired 3 ?s1" 3] by blast
qed

section \<open>The loop of one core\<close>

lemma spinlock_acquire_Some:
  assumes "spinlock_acquire ok n l = Some r"
  shows "l = 0 \<and> r = 1 \<and> (\<exists>k\<ge>n. ok k)"
  using assms
proof (induction rule: spinlock_acquire.raw_induct [rotated 1, consumes 1])
  case (1 acquire ok n l r)
  then show ?case by (auto split: if_splits dest!: 1(1) dest: Suc_leD)
qed

lemma spinlock_acquire_free:
  assumes "n \<le> k" and "ok k"
  shows "spinlock_acquire ok n 0 = Some 1"
  using assms(1)
proof (induction rule: inc_induct)
  case base
  then show ?case using assms(2) by (subst spinlock_acquire.simps) simp
next
  case (step m)
  then show ?case by (subst spinlock_acquire.simps) simp
qed

lemma spinlock_acquire_iff:
  "spinlock_acquire ok n l = (if l = 0 \<and> (\<exists>k\<ge>n. ok k) then Some 1 else None)"
proof (cases "spinlock_acquire ok n l")
  case None
  with spinlock_acquire_free [of n _ ok] show ?thesis by auto
next
  case (Some r)
  with spinlock_acquire_Some [OF Some] show ?thesis by simp
qed

lemma spinlock_acquire_at_once: "spinlock_acquire (\<lambda>_. True) n l = (if l = 0 then Some 1 else None)"
  by (auto simp: spinlock_acquire_iff)

text \<open>A run of the core alone.  With the lock taken it never leaves the first two instructions; with the lock free
  each round of four steps ends in the critical section or, after a failed store, at the start.\<close>

definition runs_alone :: "nat \<Rightarrow> (nat \<Rightarrow> spinlock) \<Rightarrow> bool" where
  "runs_alone c \<sigma> \<longleftrightarrow> at (\<sigma> 0) c = Ldaxr \<and> (\<forall>i. spin_step c (\<sigma> i) (\<sigma> (Suc i)))"

definition store_ok :: "nat \<Rightarrow> (nat \<Rightarrow> spinlock) \<Rightarrow> nat \<Rightarrow> bool" where
  "store_ok c \<sigma> n \<longleftrightarrow> at (\<sigma> (4 * n + 3)) c = Cbnz2 0"

inductive_cases ldaxr_cases: "spin_step c s s'"

lemma spin_step_at:
  assumes "spin_step c s s'"
  shows "at s c = Ldaxr \<Longrightarrow> at s' c = Cbnz1 (lock s) \<and> lock s' = lock s"
    and "at s c = Cbnz1 w \<Longrightarrow> at s' c = (if w \<noteq> 0 then Ldaxr else Stxr) \<and> lock s' = lock s"
    and "at s c = Stxr \<Longrightarrow> at s' c = Cbnz2 0 \<and> lock s' = 1 \<or> at s' c = Cbnz2 1 \<and> lock s' = lock s"
    and "at s c = Cbnz2 w \<Longrightarrow> at s' c = (if w \<noteq> 0 then Ldaxr else Critical) \<and> lock s' = lock s"
  using assms by (auto simp: goto_def elim!: ldaxr_cases)

lemma round_of_four:
  assumes run: "\<And>i. spin_step c (\<sigma> i) (\<sigma> (Suc i))" and at: "at (\<sigma> i) c = Ldaxr" and "lock (\<sigma> i) = 0"
  shows "at (\<sigma> (i + 1)) c = Cbnz1 0" and "at (\<sigma> (i + 2)) c = Stxr"
    and "at (\<sigma> (i + 3)) c = Cbnz2 0 \<and> at (\<sigma> (i + 4)) c = Critical \<and> lock (\<sigma> (i + 4)) = 1 \<or>
         at (\<sigma> (i + 3)) c = Cbnz2 1 \<and> at (\<sigma> (i + 4)) c = Ldaxr \<and> lock (\<sigma> (i + 4)) = 0"
proof -
  have step: "spin_step c (\<sigma> i) (\<sigma> (i + 1))" "spin_step c (\<sigma> (i + 1)) (\<sigma> (i + 2))"
    "spin_step c (\<sigma> (i + 2)) (\<sigma> (i + 3))" "spin_step c (\<sigma> (i + 3)) (\<sigma> (i + 4))"
    using run [of i] run [of "i + 1"] run [of "i + 2"] run [of "i + 3"] by (simp_all add: eval_nat_numeral)
  show 1: "at (\<sigma> (i + 1)) c = Cbnz1 0" using spin_step_at(1) [OF step(1) at] assms(3) by simp
  then show 2: "at (\<sigma> (i + 2)) c = Stxr" using spin_step_at(2) [OF step(2) 1] by simp
  have 0: "lock (\<sigma> (i + 2)) = 0"
    using spin_step_at(1) [OF step(1) at] spin_step_at(2) [OF step(2) 1] assms(3) by simp
  from spin_step_at(3) [OF step(3) 2]
  show "at (\<sigma> (i + 3)) c = Cbnz2 0 \<and> at (\<sigma> (i + 4)) c = Critical \<and> lock (\<sigma> (i + 4)) = 1 \<or>
         at (\<sigma> (i + 3)) c = Cbnz2 1 \<and> at (\<sigma> (i + 4)) c = Ldaxr \<and> lock (\<sigma> (i + 4)) = 0"
    using spin_step_at(4) [OF step(4)] 0 by auto
qed

lemma failed_rounds:
  assumes "runs_alone c \<sigma>" and "lock (\<sigma> 0) = 0" and "\<And>m. m < n \<Longrightarrow> \<not> store_ok c \<sigma> m"
  shows "at (\<sigma> (4 * n)) c = Ldaxr \<and> lock (\<sigma> (4 * n)) = 0"
  using assms(3)
proof (induction n)
  case (Suc n)
  have run: "\<And>i. spin_step c (\<sigma> i) (\<sigma> (Suc i))" using assms(1) by (simp add: runs_alone_def)
  from Suc have "at (\<sigma> (4 * n)) c = Ldaxr" "lock (\<sigma> (4 * n)) = 0" by simp_all
  from round_of_four(3) [of c \<sigma>, OF run this] Suc.prems [of n] show ?case
    by (auto simp: store_ok_def add.commute)
qed (use assms(1,2) in \<open>simp add: runs_alone_def\<close>)

lemma alone_takes:
  assumes "runs_alone c \<sigma>" and "lock (\<sigma> 0) = 0" and "store_ok c \<sigma> k"
  obtains i where "at (\<sigma> i) c = Critical" and "lock (\<sigma> i) = 1"
proof -
  define n where "n = (LEAST n. store_ok c \<sigma> n)"
  have n: "store_ok c \<sigma> n" unfolding n_def using assms(3) by (rule LeastI)
  have "\<And>m. m < n \<Longrightarrow> \<not> store_ok c \<sigma> m" unfolding n_def by (rule not_less_Least)
  from failed_rounds [OF assms(1,2) this] have "at (\<sigma> (4 * n)) c = Ldaxr" "lock (\<sigma> (4 * n)) = 0" by simp_all
  moreover have "\<And>i. spin_step c (\<sigma> i) (\<sigma> (Suc i))" using assms(1) by (simp add: runs_alone_def)
  ultimately show thesis using round_of_four(3) [of c \<sigma> "4 * n"] n that [of "4 * n + 4"] by (auto simp: store_ok_def)
qed

lemma alone_fails:
  assumes "runs_alone c \<sigma>" and "lock (\<sigma> 0) = 0" and "\<And>k. \<not> store_ok c \<sigma> k"
  shows "at (\<sigma> i) c \<noteq> Critical"
proof -
  have run: "\<And>i. spin_step c (\<sigma> i) (\<sigma> (Suc i))" using assms(1) by (simp add: runs_alone_def)
  let ?j = "4 * (i div 4)"
  have "at (\<sigma> ?j) c = Ldaxr \<and> lock (\<sigma> ?j) = 0" using failed_rounds [OF assms(1,2)] assms(3) by blast
  then have *: "at (\<sigma> ?j) c = Ldaxr" "lock (\<sigma> ?j) = 0" by simp_all
  have three: "at (\<sigma> (?j + 3)) c = Cbnz2 1"
    using round_of_four(3) [of c \<sigma>, OF run *] assms(3) [of "i div 4"] by (auto simp: store_ok_def)
  have "i = ?j + i mod 4" by simp
  moreover have "i mod 4 = 0 \<or> i mod 4 = 1 \<or> i mod 4 = 2 \<or> i mod 4 = 3" by auto
  ultimately have "i = ?j \<or> i = ?j + 1 \<or> i = ?j + 2 \<or> i = ?j + 3" by (metis add_0_right)
  then show ?thesis
    using *(1) round_of_four(1,2) [of c \<sigma>, OF run *] three by (elim disjE) (metis lock_pc.distinct)+
qed

lemma alone_waits:
  assumes "runs_alone c \<sigma>" and "lock (\<sigma> 0) \<noteq> 0"
  shows "at (\<sigma> i) c \<noteq> Critical \<and> lock (\<sigma> i) = lock (\<sigma> 0)"
proof -
  have "lock (\<sigma> i) = lock (\<sigma> 0) \<and> (at (\<sigma> i) c = Ldaxr \<or> at (\<sigma> i) c = Cbnz1 (lock (\<sigma> 0)))"
  proof (induction i)
    case (Suc i)
    have "spin_step c (\<sigma> i) (\<sigma> (Suc i))" using assms(1) by (simp add: runs_alone_def)
    from spin_step_at(1,2) [OF this] Suc assms(2) show ?case by auto
  qed (use assms(1) in \<open>simp add: runs_alone_def\<close>)
  then show ?thesis by auto
qed

text \<open>C37: take any infinite run of the instructions of one core that enters \<open>spinlock_acquire\<close> while no other core
  steps, and let \<open>store_ok\<close> say which of its store-exclusives succeed.  If the loop with these outcomes returns, the
  core reaches the critical section with the lock word the loop returns; if it does not, the core never gets
  there.  The loop returns exactly when the lock is free and some store succeeds, so a free lock is
  taken unless the stores fail for ever, and a taken one is waited for without end, also by its own holder.\<close>

theorem spinlock_acquire_alone:
  assumes "runs_alone c \<sigma>"
  shows "(case spinlock_acquire (store_ok c \<sigma>) 0 (lock (\<sigma> 0)) of
            Some l \<Rightarrow> \<exists>i. at (\<sigma> i) c = Critical \<and> lock (\<sigma> i) = l
          | None \<Rightarrow> \<forall>i. at (\<sigma> i) c \<noteq> Critical) \<and>
         spinlock_acquire (store_ok c \<sigma>) 0 (lock (\<sigma> 0)) =
           (if lock (\<sigma> 0) = 0 \<and> (\<exists>k. store_ok c \<sigma> k) then Some 1 else None)"
proof (cases "lock (\<sigma> 0) = 0 \<and> (\<exists>k. store_ok c \<sigma> k)")
  case True
  then obtain k where "store_ok c \<sigma> k" by blast
  with True obtain i where "at (\<sigma> i) c = Critical" "lock (\<sigma> i) = 1" by (metis alone_takes assms)
  with True show ?thesis by (auto simp: spinlock_acquire_iff)
next
  case False
  then have "at (\<sigma> i) c \<noteq> Critical" for i
    using alone_fails [OF assms] alone_waits [OF assms] by blast
  with False show ?thesis by (simp add: spinlock_acquire_iff)
qed

text \<open>A run of core 2 that acquires and releases the lock for ever.\<close>

definition cycle_pc :: "nat \<Rightarrow> lock_pc" where
  "cycle_pc k = [Ldaxr, Cbnz1 0, Stxr, Cbnz2 0, Critical, Outside] ! k"

definition cycle_state :: "nat \<Rightarrow> spinlock" where
  "cycle_state k =
     \<lparr>lock = (if k = 3 \<or> k = 4 then 1 else 0), monitor = (\<lambda>c. c = 2 \<and> (k = 1 \<or> k = 2)),
      at = (\<lambda>c. if c = 2 then cycle_pc k else Outside)\<rparr>"

lemma cycle_step:
  assumes "k < 6"
  shows "spin_step 2 (cycle_state k) (cycle_state (if Suc k = 6 then 0 else Suc k))"
proof -
  have succ: "cycle_state 1 = goto 2 (Cbnz1 (lock (cycle_state 0))) (cycle_state 0\<lparr>monitor := (monitor (cycle_state 0))(2 := True)\<rparr>)"
    "cycle_state 2 = goto 2 (if (0::u32) \<noteq> 0 then Ldaxr else Stxr) (cycle_state 1)"
    "cycle_state 3 = goto 2 (Cbnz2 0) (cycle_state 2\<lparr>lock := 1, monitor := (\<lambda>_. False)\<rparr>)"
    "cycle_state 4 = goto 2 (if (0::u32) \<noteq> 0 then Ldaxr else Critical) (cycle_state 3)"
    "cycle_state 5 = goto 2 Outside (cycle_state 4\<lparr>lock := 0, monitor := (\<lambda>_. False)\<rparr>)"
    "cycle_state 0 = goto 2 Ldaxr (cycle_state 5)"
    by (auto simp: cycle_state_def cycle_pc_def goto_def fun_eq_iff)
  have at: "at (cycle_state k) 2 = cycle_pc k" "monitor (cycle_state 2) 2" for k by (simp_all add: cycle_state_def)
  have steps: "spin_step 2 (cycle_state 0) (cycle_state 1)" "spin_step 2 (cycle_state 1) (cycle_state 2)"
    "spin_step 2 (cycle_state 2) (cycle_state 3)" "spin_step 2 (cycle_state 3) (cycle_state 4)"
    "spin_step 2 (cycle_state 4) (cycle_state 5)" "spin_step 2 (cycle_state 5) (cycle_state 0)"
    by (subst succ, rule spin_step.intros; simp add: at cycle_pc_def)+
  from assms have "k \<in> {0, 1, 2, 3, 4, 5}" by auto
  then show ?thesis using steps by (auto simp: eval_nat_numeral)
qed

definition sample_run :: "nat \<Rightarrow> spinlock" where
  "sample_run i = cycle_state (i mod 6)"

lemma sample_run_alone: "runs_alone 2 sample_run"
  using cycle_step [of "i mod 6" for i]
  by (auto simp: runs_alone_def sample_run_def mod_Suc) (simp add: cycle_state_def cycle_pc_def)

theorem spinlock_acquire_alone_witness:
  "runs_alone 2 sample_run \<and> spinlock_acquire (store_ok 2 sample_run) 0 (lock (sample_run 0)) = Some 1 \<and>
   (\<exists>i. at (sample_run i) 2 = Critical \<and> lock (sample_run i) = 1)"
proof -
  have "store_ok 2 sample_run 0" by (simp add: store_ok_def sample_run_def cycle_state_def cycle_pc_def)
  moreover have "lock (sample_run 0) = 0" by (simp add: sample_run_def cycle_state_def)
  ultimately have eq: "spinlock_acquire (store_ok 2 sample_run) 0 (lock (sample_run 0)) = Some 1"
    using spinlock_acquire_alone [OF sample_run_alone] by auto
  with spinlock_acquire_alone [OF sample_run_alone] sample_run_alone show ?thesis unfolding eq by simp
qed

end
