(* ===== verification/Heap_Client.thy ===== *)
theory Heap_Client
  imports Kmalloc
begin

text \<open>
  What the owners of heap objects share (the scheduler with its control blocks, the virtual file
  system with its nodes): storing a field of an object, and how the heap evolves while the other
  objects keep their contents.
\<close>

definition set_field :: "u64 \<Rightarrow> u64 \<Rightarrow> kheap \<Rightarrow> kheap" where
  "set_field a v h = h\<lparr>mem := store64 (mem h) a v\<rparr>"

text \<open>How the heap evolves for the owner of the blocks \<open>L\<close>: the blocks of \<open>L\<close> and everything outside the
  heap keep their contents.\<close>

definition evolves :: "kheap \<Rightarrow> (nat \<times> nat) set \<Rightarrow> kheap \<Rightarrow> (nat \<times> nat) set \<Rightarrow> bool" where
  "evolves h L h' L' \<longleftrightarrow> heap_ok h' L' \<and> unchanged L (mem h) (mem h') \<and> heap_area h' = heap_area h \<and>
     (\<forall>x. x \<notin> heap_area h \<longrightarrow> mem h' x = mem h x)"

lemma evolves_refl: "heap_ok h L \<Longrightarrow> evolves h L h L"
  by (simp add: evolves_def)

lemma evolves_trans:
  "evolves h L h1 L1 \<Longrightarrow> evolves h1 L1 h2 L2 \<Longrightarrow> L \<subseteq> L1 \<Longrightarrow> evolves h L h2 L2"
  unfolding evolves_def using unchanged_trans unchanged_mono by metis

lemma evolves_step: "evolves h K h1 L1 \<Longrightarrow> evolves h1 K h2 L2 \<Longrightarrow> evolves h K h2 L2"
  unfolding evolves_def by (auto intro: unchanged_trans)

lemma evolves_alloc:
  assumes "heap_ok h L" and "0 < unat sz" and "unat sz + 7 < 2 ^ 64"
  obtains (null) "kmalloc h sz = Some (0, h)"
  | (block) p k h' where "kmalloc h sz = Some (of_nat p, h')" and "0 < p" and "p < 2 ^ 64" and "unat sz \<le> k"
      and "evolves h L h' (insert (p, k) L)" and "\<forall>j. (p, j) \<notin> L"
  using assms
proof (cases rule: kheap.alloc_cases)
  case null
  then show ?thesis by (rule that(1))
next
  case (block q s k)
  moreover have "0 < unat q" using block(2) by (simp add: unat_gt_0)
  ultimately show ?thesis
    using kheap.alloc_outside [OF assms(1) block(1)] unat_lt64 [of q]
    by (intro that(2) [of "unat q" s k]) (simp_all add: evolves_def)
qed

lemma evolves_write:
  assumes "heap_ok h L" and "(p, n) \<in> L" and "unat off + length bs \<le> n"
  shows "evolves h (L - {(p, n)}) (h\<lparr>mem := write_bytes (mem h) (of_nat p + off) bs\<rparr>) L"
  using kheap.write_field [OF assms refl] by (simp add: evolves_def kheap.area_put)

lemma evolves_set:
  assumes "heap_ok h L" and "(p, n) \<in> L" and "unat off + 8 \<le> n"
  shows "evolves h (L - {(p, n)}) (set_field (of_nat p + off) v h) L"
  using evolves_write [OF assms(1,2), of off "le_bytes 8 v"] assms(3)
  by (simp add: set_field_def store64_def)

lemma evolves_free:
  assumes "heap_ok h L" and "(p, n) \<in> L"
  obtains h' where "kfree h (of_nat p) = Some h'" and "evolves h (L - {(p, n)}) h' (L - {(p, n)})"
  using kheap.release_spec [OF assms] kheap.release_outside [OF assms] by (auto simp: evolves_def)

lemma load64_set_field:
  assumes "8 \<le> unat (j - i)" and "8 \<le> unat (i - j)"
  shows "load64 (mem (set_field (a + i) v h)) (a + j) = load64 (mem h) (a + j)"
  using load64_store64_off [OF assms] by (simp add: set_field_def)

lemma load64_set_field_same: "load64 (mem (set_field a v h)) a = v"
  by (simp add: set_field_def load64_store64_same)

lemma evolves_mono: "evolves h L h' L' \<Longrightarrow> K \<subseteq> L \<Longrightarrow> evolves h K h' L'"
  unfolding evolves_def by (auto intro: unchanged_mono)

lemma evolves_ok: "evolves h L h' L' \<Longrightarrow> heap_ok h' L'"
  by (simp add: evolves_def)

text \<open>A field of an object that is live in both heaps.\<close>

lemma evolves_read:
  assumes "heap_ok h L" and "(p, n) \<in> K" and "K \<subseteq> L" and "unat off + 8 \<le> n" and "evolves h K h' L'"
  shows "load64 (mem h') (of_nat p + off) = load64 (mem h) (of_nat p + off)"
proof (rule load64_cong)
  fix x assume "x \<in> region (of_nat p + off) 8"
  from kheap.live_field [OF assms(1) _ assms(4) this] assms(2,3,5) show "mem h' x = mem h x"
    by (fastforce simp: evolves_def unchanged_def)
qed

lemma evolves_read32:
  assumes "heap_ok h L" and "(p, n) \<in> K" and "K \<subseteq> L" and "unat off + 4 \<le> n" and "evolves h K h' L'"
  shows "load32 (mem h') (of_nat p + off) = load32 (mem h) (of_nat p + off)"
proof (rule load32_cong)
  fix x assume "x \<in> region (of_nat p + off) 4"
  from kheap.live_field [OF assms(1) _ assms(4) this] assms(2,3,5) show "mem h' x = mem h x"
    by (fastforce simp: evolves_def unchanged_def)
qed

text \<open>Writing into a live object does not touch the free blocks.\<close>

lemma heap_room_write:
  assumes "heap_ok h L" and "(p, n) \<in> L" and "unat off + length bs \<le> n" and "heap_room h r"
  shows "heap_room (h\<lparr>mem := write_bytes (mem h) (of_nat p + off) bs\<rparr>) r"
proof (rule write_heap_room [OF assms(1,2,4)])
  fix x :: u64 assume "unat x < p \<or> p + n \<le> unat x"
  then have "x \<notin> region (of_nat p + off) (length bs)"
    using kheap.live_field [OF assms(1,2,3), of x] by (meson not_le)
  then show "write_bytes (mem h) (of_nat p + off) bs x = mem h x" by (rule write_bytes_frame)
qed

lemma heap_room_set:
  assumes "heap_ok h L" and "(p, n) \<in> L" and "unat off + 8 \<le> n" and "heap_room h r"
  shows "heap_room (set_field (of_nat p + off) v h) r"
  using heap_room_write [OF assms(1,2), of off "le_bytes 8 v" r] assms(3,4)
  by (simp add: set_field_def store64_def)

lemma load32_set_field:
  assumes "4 \<le> unat (j - i)" and "8 \<le> unat (i - j)"
  shows "load32 (mem (set_field (a + j) v h)) (a + i) = load32 (mem h) (a + i)"
  using region_apart [of 4 j i 8, OF assms, of a]
  by (intro load32_cong) (auto simp: set_field_def store64_frame disjoint_iff)

end
