(* ===== verification/Sched.thy ===== *)
theory Sched
  imports Mmu Spinlock Heap_Client "HOL-Library.Signed_Division"
begin

text \<open>
  The round-robin scheduler of \<^verbatim>\<open>src/kern/sched/astral_sched.c\<close> and the timer of
  \<^verbatim>\<open>src/kern/drivers/timer/timer.c\<close> that drives it.  Task control blocks are structs of 144 bytes in
  the kernel heap; the scheduler keeps their addresses in a table of eight.  The lock is in its
  single-core view (\<^verbatim>\<open>Spinlock.thy\<close>), so an operation that would wait for ever is \<open>None\<close>.
\<close>

section \<open>State\<close>

abbreviation MAX_TASKS :: int where "MAX_TASKS \<equiv> 8"
abbreviation SIZEOF_TCB :: u64 where "SIZEOF_TCB \<equiv> 144"

text \<open>Offsets of the fields of \<open>tcb_t\<close> (and of \<open>cpu_context_t\<close> in it).\<close>

abbreviation tcb_id :: u64 where "tcb_id \<equiv> 0"
abbreviation tcb_context :: u64 where "tcb_context \<equiv> 8"
abbreviation tcb_context_sp :: u64 where "tcb_context_sp \<equiv> 8"
abbreviation tcb_context_lr :: u64 where "tcb_context_lr \<equiv> 16"
abbreviation tcb_context_fp :: u64 where "tcb_context_fp \<equiv> 104"
abbreviation tcb_stack_base :: u64 where "tcb_stack_base \<equiv> 120"
abbreviation tcb_stack_size :: u64 where "tcb_stack_size \<equiv> 128"
abbreviation tcb_ttbr0_el1 :: u64 where "tcb_ttbr0_el1 \<equiv> 136"

text \<open>The static variables of both files, and the core and the heap the functions work on.\<close>

record sched_state =
  current_task :: u64
  task_list :: "u64 list"
  num_tasks :: int
  current_task_index :: int
  sched_lock :: u32
  core :: cpu
  heap :: kheap
  timer_frequency :: u64

text \<open>How a call ends: it returns, parks the core for ever, or leaves for another task at \<open>pc\<close>.\<close>

datatype 's control = Back 's | Stop 's | Switch 's

text \<open>The scheduler's lock, taken by a core whose first store-exclusive succeeds; by
  \<open>spinlock_acquire_iff\<close> retries would not change the outcome.\<close>

definition lock_sched :: "sched_state \<Rightarrow> sched_state option" where
  "lock_sched st = map_option (\<lambda>l. st\<lparr>sched_lock := l\<rparr>) (spinlock_acquire (\<lambda>_. True) 0 (sched_lock st))"

definition unlock_sched :: "sched_state \<Rightarrow> sched_state" where
  "unlock_sched st = st\<lparr>sched_lock := spinlock_release (sched_lock st)\<rparr>"

abbreviation smem :: "sched_state \<Rightarrow> mem" where "smem st \<equiv> mem (heap st)"

section \<open>\<^verbatim>\<open>astral_sched.c\<close>\<close>

definition sched_init :: "sched_state \<Rightarrow> sched_state" where
  "sched_init st = st\<lparr>task_list := replicate 8 0, num_tasks := 0, current_task_index := -1, sched_lock := 0\<rparr>"

definition sched_add_task :: "u64 \<Rightarrow> sched_state \<Rightarrow> sched_state option" where
  "sched_add_task task st = do {
     st \<leftarrow> lock_sched st;
     if num_tasks st \<ge> MAX_TASKS then Some (unlock_sched st)
     else Some (unlock_sched (st\<lparr>task_list := (task_list st)[nat (num_tasks st) := task],
                                num_tasks := num_tasks st + 1\<rparr>))
   }"

text \<open>\<open>ret\<close> is the return address of the call of \<open>context_switch\<close> in \<open>sched_yield\<close>.\<close>

definition sched_yield :: "u64 \<Rightarrow> sched_state \<Rightarrow> sched_state control option" where
  "sched_yield ret st = do {
     st \<leftarrow> lock_sched st;
     if num_tasks st \<le> 1 then Some (Back (unlock_sched st))
     else (let old_context = current_task st + tcb_context;
               st = st\<lparr>current_task_index := (current_task_index st + 1) smod num_tasks st\<rparr>;
               st = st\<lparr>current_task := task_list st ! nat (current_task_index st)\<rparr>;
               new_context = current_task st + tcb_context;
               st = st\<lparr>core := msr TTBR0_EL1 (load64 (smem st) (current_task st + tcb_ttbr0_el1)) (core st)\<rparr>;
               st = unlock_sched st;
               c = (core st)\<lparr>xreg := (xreg (core st))(0 := old_context, 1 := new_context, 30 := ret)\<rparr>;
               (c', m') = context_switch (c, smem st)
           in Some (Switch (st\<lparr>core := c', heap := (heap st)\<lparr>mem := m'\<rparr>\<rparr>)))
   }"

definition sched_schedule :: "u64 \<Rightarrow> sched_state \<Rightarrow> sched_state control option" where
  "sched_schedule ret st = do {
     st \<leftarrow> lock_sched st;
     if num_tasks st = 0
     then (let st = unlock_sched st
           in case cpu_halt (core st) of
                Returns c \<Rightarrow> Some (Back (st\<lparr>core := c\<rparr>)) | Parked c \<Rightarrow> Some (Stop (st\<lparr>core := c\<rparr>)))
     else if current_task st = 0
     then (let st = st\<lparr>current_task_index := 0\<rparr>;
               st = st\<lparr>current_task := task_list st ! nat (current_task_index st)\<rparr>;
               st = st\<lparr>core := msr TTBR0_EL1 (load64 (smem st) (current_task st + tcb_ttbr0_el1)) (core st)\<rparr>;
               st = unlock_sched st;
               sp = load64 (smem st) (current_task st + tcb_context_sp);
               lr = load64 (smem st) (current_task st + tcb_context_lr)
           in Some (Switch (st\<lparr>core := (core st)\<lparr>sp_reg := sp, xreg := (xreg (core st))(30 := lr), pc := lr\<rparr>\<rparr>)))
     else sched_yield ret (unlock_sched st)
   }"

text \<open>\<open>sched_create_task\<close> for a function at address \<open>func\<close>; \<open>l1\<close> is the kernel page table.\<close>

definition sched_create_task :: "u64 \<Rightarrow> u64 \<Rightarrow> u64 \<Rightarrow> sched_state \<Rightarrow> sched_state option" where
  "sched_create_task l1 func stack_size st = do {
     (new_task, h) \<leftarrow> kmalloc (heap st) SIZEOF_TCB;
     if new_task = 0 then Some (st\<lparr>heap := h\<rparr>)
     else do {
       let h = h\<lparr>mem := store32 (mem h) (new_task + tcb_id) (word_of_int (num_tasks st))\<rparr>;
       (stack, h) \<leftarrow> kmalloc h stack_size;
       let h = set_field (new_task + tcb_stack_base) stack h;
       if stack = 0 then do { h \<leftarrow> kfree h new_task; Some (st\<lparr>heap := h\<rparr>) }
       else do {
         let h = set_field (new_task + tcb_stack_size) stack_size h;
         let h = set_field (new_task + tcb_context_sp) (stack + stack_size - 16) h;
         let h = set_field (new_task + tcb_context_lr) func h;
         let h = set_field (new_task + tcb_context_fp) (stack + stack_size - 16) h;
         (table, c, h) \<leftarrow> vm_create_task_pagetable l1 (core st) h;
         let h = set_field (new_task + tcb_ttbr0_el1) table h;
         if table = 0
         then do { h \<leftarrow> kfree h stack; h \<leftarrow> kfree h new_task; Some (st\<lparr>core := c, heap := h\<rparr>) }
         else sched_add_task new_task (st\<lparr>core := c, heap := h\<rparr>)
       }
     }
   }"

section \<open>\<^verbatim>\<open>timer.c\<close>\<close>

text \<open>The registers are plain memory accesses in the code.\<close>

abbreviation CNTFRQ_EL0 :: u64 where "CNTFRQ_EL0 \<equiv> 0x40000000"
abbreviation CNTP_CTL_EL0 :: u64 where "CNTP_CTL_EL0 \<equiv> 0x40000008"
abbreviation CNTP_TVAL_EL0 :: u64 where "CNTP_TVAL_EL0 \<equiv> 0x4000000C"

definition timer_init :: "sched_state \<Rightarrow> sched_state" where
  "timer_init st = st\<lparr>timer_frequency := load64 (mem (heap st)) CNTFRQ_EL0\<rparr>"

definition set_timer :: "u64 \<Rightarrow> u32 \<Rightarrow> sched_state \<Rightarrow> sched_state" where
  "set_timer a v st = st\<lparr>heap := (heap st)\<lparr>mem := store32 (mem (heap st)) a v\<rparr>\<rparr>"

definition timer_enable_interrupt :: "sched_state \<Rightarrow> sched_state" where
  "timer_enable_interrupt st =
     set_timer CNTP_CTL_EL0 1 (set_timer CNTP_TVAL_EL0 (ucast (timer_frequency st div 100)) st)"

definition timer_disable_interrupt :: "sched_state \<Rightarrow> sched_state" where
  "timer_disable_interrupt st = set_timer CNTP_CTL_EL0 0 st"

text \<open>The interrupt handler: rearm the timer and give the core to the next task.\<close>

definition timer_handle_interrupt :: "u64 \<Rightarrow> sched_state \<Rightarrow> sched_state control option" where
  "timer_handle_interrupt ret st =
     sched_yield ret (set_timer CNTP_TVAL_EL0 (ucast (timer_frequency st div 100)) st)"

section \<open>Scheduling\<close>

definition sched_inv :: "sched_state \<Rightarrow> bool" where
  "sched_inv st \<longleftrightarrow>
     length (task_list st) = 8 \<and> 0 \<le> num_tasks st \<and> num_tasks st \<le> MAX_TASKS \<and> sched_lock st = 0 \<and>
     (\<forall>i < nat (num_tasks st). task_list st ! i \<noteq> 0) \<and>
     (current_task st = 0 \<and> current_task_index st = -1 \<or>
      0 \<le> current_task_index st \<and> current_task_index st < num_tasks st \<and>
      current_task st = task_list st ! nat (current_task_index st))"

lemmas lock_defs = lock_sched_def unlock_sched_def spinlock_acquire_at_once spinlock_release_def

lemma smod_next:
  assumes "-1 \<le> i" and "0 < n"
  shows "(i + 1) smod n = (i + 1) mod (n :: int)"
  using assms by (cases "i = -1") (simp_all add: smod_int_alt_def sgn_if)

text \<open>The core as \<open>sched_yield\<close> hands it to \<open>context_switch\<close>: the page table of the task that comes next, and the
  addresses of both contexts and the return address in the argument and link registers.\<close>

definition yield_core :: "u64 \<Rightarrow> u64 \<Rightarrow> sched_state \<Rightarrow> cpu" where
  "yield_core ret new st =
     (let c = msr TTBR0_EL1 (load64 (smem st) (new + tcb_ttbr0_el1)) (core st)
      in c\<lparr>xreg := (xreg c)(0 := current_task st + tcb_context, 1 := new + tcb_context, 30 := ret)\<rparr>)"

text \<open>One switch of \<open>sched_yield\<close>.\<close>

lemma sched_yield_switch:
  assumes "sched_inv st" and "1 < num_tasks st"
  obtains st' where "sched_yield ret st = Some (Switch st')"
    and "current_task_index st' = (current_task_index st + 1) mod num_tasks st"
    and "current_task st' = task_list st ! nat ((current_task_index st + 1) mod num_tasks st)"
    and "task_list st' = task_list st" and "num_tasks st' = num_tasks st" and "sched_lock st' = 0"
    and "sysregs (core st') TTBR0_EL1 = load64 (smem st) (current_task st' + tcb_ttbr0_el1)"
    and "context_switch (yield_core ret (current_task st') st, smem st) = (core st', smem st')"
proof -
  have idx: "(current_task_index st + 1) smod num_tasks st = (current_task_index st + 1) mod num_tasks st"
    using assms by (intro smod_next) (auto simp: sched_inv_def)
  let ?j = "(current_task_index st + 1) mod num_tasks st"
  let ?t = "task_list st ! nat ?j"
  let ?c = "msr TTBR0_EL1 (load64 (smem st) (?t + tcb_ttbr0_el1)) (core st)"
  let ?c1 = "?c\<lparr>xreg := (xreg ?c)(0 := current_task st + tcb_context, 1 := ?t + tcb_context, 30 := ret)\<rparr>"
  obtain c m where cm: "context_switch (?c1, smem st) = (c, m)" by (cases "context_switch (?c1, smem st)")
  let ?st = "st\<lparr>current_task_index := ?j, current_task := ?t, sched_lock := 0, core := c,
    heap := (heap st)\<lparr>mem := m\<rparr>\<rparr>"
  have "sysregs c TTBR0_EL1 = sysregs ?c1 TTBR0_EL1"
    using context_switch_ttbr0 [of "(?c1, smem st)"] cm by simp
  then have ttbr: "sysregs c TTBR0_EL1 = load64 (smem st) (?t + tcb_ttbr0_el1)"
    by (simp add: msr_def sys_op_def)
  have "sched_lock st = 0" using assms(1) by (simp add: sched_inv_def)
  then have "sched_yield ret st = Some (Switch ?st)"
    using assms(2) idx cm by (simp add: sched_yield_def lock_defs Let_def)
  with ttbr cm show ?thesis by (intro that [of ?st]) (simp_all add: yield_core_def Let_def)
qed

lemma sched_yield_alone:
  assumes "sched_inv st" and "num_tasks st \<le> 1"
  shows "sched_yield ret st = Some (Back st)"
  using assms by (simp add: sched_yield_def lock_defs sched_inv_def)

lemma sched_inv_cong:
  assumes "sched_inv st" and "task_list st' = task_list st" and "num_tasks st' = num_tasks st"
    and "sched_lock st' = 0" and "0 \<le> current_task_index st'" and "current_task_index st' < num_tasks st"
    and "current_task st' = task_list st ! nat (current_task_index st')"
  shows "sched_inv st'"
  using assms by (simp add: sched_inv_def)

lemma sched_inv_env: "sched_inv (st\<lparr>core := c, heap := h\<rparr>) = sched_inv st"
  by (simp add: sched_inv_def)

lemma sched_yield_inv:
  assumes "sched_inv st" and "sched_yield ret st = Some (Switch st') \<or> sched_yield ret st = Some (Back st')"
  shows "sched_inv st'"
proof (cases "num_tasks st \<le> 1")
  case True
  with assms sched_yield_alone [OF assms(1)] show ?thesis by simp
next
  case False
  then have "1 < num_tasks st" by simp
  with assms(1) obtain u where u: "sched_yield ret st = Some (Switch u)"
    "current_task_index u = (current_task_index st + 1) mod num_tasks st"
    "current_task u = task_list st ! nat ((current_task_index st + 1) mod num_tasks st)"
    "task_list u = task_list st" "num_tasks u = num_tasks st" "sched_lock u = 0"
    by (rule sched_yield_switch)
  then have "sched_inv u" using False by (intro sched_inv_cong [OF assms(1)]) simp_all
  with u(1) assms(2) show ?thesis by auto
qed

lemma sched_add_task_inv:
  assumes "sched_inv st" and "t \<noteq> 0"
  shows "\<exists>st'. sched_add_task t st = Some st' \<and> sched_inv st' \<and> core st' = core st \<and> heap st' = heap st \<and>
    (if num_tasks st < MAX_TASKS
     then num_tasks st' = num_tasks st + 1 \<and> task_list st' = (task_list st)[nat (num_tasks st) := t]
     else num_tasks st' = num_tasks st \<and> task_list st' = task_list st)"
proof (cases "num_tasks st < MAX_TASKS")
  case True
  let ?n = "nat (num_tasks st)"
  have "?n < 8" "nat (num_tasks st + 1) = Suc ?n" using assms(1) True by (auto simp: sched_inv_def)
  then have "\<forall>i < nat (num_tasks st + 1). (task_list st)[?n := t] ! i \<noteq> 0"
    using assms by (auto simp: sched_inv_def nth_list_update less_Suc_eq)
  moreover have "(task_list st)[?n := t] ! nat (current_task_index st) = task_list st ! nat (current_task_index st)"
    if "0 \<le> current_task_index st" "current_task_index st < num_tasks st"
    using that by (simp add: nth_list_update)
  ultimately show ?thesis
    using True assms by (auto simp: sched_add_task_def lock_defs sched_inv_def)
next
  case False
  then show ?thesis using assms by (auto simp: sched_add_task_def lock_defs sched_inv_def)
qed

text \<open>A run of \<open>k\<close> calls of \<open>sched_yield\<close>; before each, the running task may have changed the core and
  the memory in any way: \<open>env i\<close> is what it leaves.\<close>

primrec run_yields :: "u64 \<Rightarrow> (nat \<Rightarrow> cpu \<times> kheap) \<Rightarrow> nat \<Rightarrow> sched_state \<Rightarrow> sched_state option" where
  "run_yields ret env 0 st = Some st"
| "run_yields ret env (Suc k) st = do {
     st \<leftarrow> run_yields ret env k st;
     r \<leftarrow> sched_yield ret (st\<lparr>core := fst (env k), heap := snd (env k)\<rparr>);
     case r of Back st' \<Rightarrow> Some st' | Switch st' \<Rightarrow> Some st' | Stop st' \<Rightarrow> None
   }"

lemma run_yields_index:
  assumes "sched_inv st" and "1 < num_tasks st"
  shows "\<exists>st'. run_yields ret env k st = Some st' \<and> sched_inv st' \<and> task_list st' = task_list st \<and>
    num_tasks st' = num_tasks st \<and>
    (0 < k \<longrightarrow> current_task_index st' = (current_task_index st + int k) mod num_tasks st \<and>
      sysregs (core st') TTBR0_EL1 = load64 (mem (snd (env (k - 1)))) (current_task st' + tcb_ttbr0_el1)) \<and>
    (k = 0 \<longrightarrow> st' = st)"
proof (induction k)
  case 0
  with assms show ?case by simp
next
  case (Suc k)
  then obtain u where u: "run_yields ret env k st = Some u" "sched_inv u" "task_list u = task_list st"
    "num_tasks u = num_tasks st"
    "0 < k \<longrightarrow> current_task_index u = (current_task_index st + int k) mod num_tasks st" "k = 0 \<longrightarrow> u = st"
    by blast
  let ?u = "u\<lparr>core := fst (env k), heap := snd (env k)\<rparr>"
  have "sched_inv ?u" "1 < num_tasks ?u" using u(2,4) assms(2) by (simp_all add: sched_inv_env)
  then obtain v where v: "sched_yield ret ?u = Some (Switch v)"
    "current_task_index v = (current_task_index ?u + 1) mod num_tasks ?u" "task_list v = task_list ?u"
    "num_tasks v = num_tasks ?u"
    "sysregs (core v) TTBR0_EL1 = load64 (smem ?u) (current_task v + tcb_ttbr0_el1)"
    by (rule sched_yield_switch)
  have "sched_inv v" using sched_yield_inv [OF \<open>sched_inv ?u\<close>] v(1) by blast
  moreover have "current_task_index v = (current_task_index st + int (Suc k)) mod num_tasks st"
    using u(4-6) v(2) by (cases "k = 0") (simp_all add: mod_add_right_eq algebra_simps)
  ultimately show ?case using u v by auto
qed


section \<open>Creating tasks\<close>

text \<open>The five fields that are set before the page table is made.\<close>

definition init_tcb :: "u64 \<Rightarrow> u64 \<Rightarrow> u64 \<Rightarrow> u64 \<Rightarrow> kheap \<Rightarrow> kheap" where
  "init_tcb t stack sz func h =
     set_field (t + tcb_context_fp) (stack + sz - 16) (set_field (t + tcb_context_lr) func
       (set_field (t + tcb_context_sp) (stack + sz - 16) (set_field (t + tcb_stack_size) sz
         (set_field (t + tcb_stack_base) stack h))))"

definition tcb_fields :: "mem \<Rightarrow> u64 \<Rightarrow> int \<Rightarrow> u64 \<Rightarrow> u64 \<Rightarrow> u64 \<Rightarrow> bool" where
  "tcb_fields m t n stack sz func \<longleftrightarrow>
     load32 m (t + tcb_id) = word_of_int n \<and>
     load64 m (t + tcb_context_sp) = stack + sz - 16 \<and> load64 m (t + tcb_context_lr) = func \<and>
     load64 m (t + tcb_context_fp) = stack + sz - 16 \<and> load64 m (t + tcb_stack_base) = stack \<and>
     load64 m (t + tcb_stack_size) = sz"

text \<open>A complete control block: every field the function sets, the page table last.\<close>

definition tcb_started :: "mem \<Rightarrow> u64 \<Rightarrow> int \<Rightarrow> u64 \<Rightarrow> u64 \<Rightarrow> u64 \<Rightarrow> u64 \<Rightarrow> bool" where
  "tcb_started m t n stack sz func table \<longleftrightarrow>
     tcb_fields m t n stack sz func \<and> load64 m (t + tcb_ttbr0_el1) = table"

lemmas load32_id = load32_set_field [where i = tcb_id, simplified]

lemma load32_init_tcb: "load32 (mem (init_tcb t stack sz func h)) (t + tcb_id) = load32 (mem h) (t + tcb_id)"
  by (simp add: init_tcb_def load32_id)

lemma init_tcb_fields:
  assumes "load32 (mem h) (t + tcb_id) = word_of_int n"
  shows "tcb_fields (mem (init_tcb t stack sz func h)) t n stack sz func"
  unfolding tcb_fields_def load32_init_tcb assms
  by (simp add: init_tcb_def load64_set_field load64_set_field_same)

lemma tcb_fields_ttbr0:
  "tcb_fields (mem (set_field (t + tcb_ttbr0_el1) v h)) t n stack sz func = tcb_fields (mem h) t n stack sz func"
  unfolding tcb_fields_def by (simp add: load64_set_field load32_id)

lemma init_tcb_evolves:
  assumes "heap_ok h L" and "(p, n) \<in> L" and "144 \<le> n" and "heap_room h r \<or> \<not> R"
  shows "evolves h (L - {(p, n)}) (init_tcb (of_nat p) stack sz func h) L \<and>
    (heap_room (init_tcb (of_nat p) stack sz func h) r \<or> \<not> R)"
proof -
  let ?P = "\<lambda>h'. evolves h (L - {(p, n)}) h' L \<and> (heap_room h' r \<or> \<not> R)"
  have step: "?P (set_field (of_nat p + off) v h')" if "?P h'" "unat off + 8 \<le> 144" for h' off v
  proof -
    have ok: "heap_ok h' L" using that(1) by (simp add: evolves_def)
    have off: "unat off + 8 \<le> n" using that(2) assms(3) by simp
    have "evolves h' (L - {(p, n)}) (set_field (of_nat p + off) v h') L"
      using assms(2) ok off by (intro evolves_set)
    then have "evolves h (L - {(p, n)}) (set_field (of_nat p + off) v h') L"
      using that(1) evolves_step by blast
    with heap_room_set [OF ok assms(2) off] that(1) show ?thesis by blast
  qed
  have "?P h" using assms(1,4) by (simp add: evolves_def)
  then show ?thesis unfolding init_tcb_def by (intro step) simp_all
qed

lemma tcb_fields_unchanged:
  assumes "heap_ok h L" and "(p, n) \<in> L" and "144 \<le> n" and "evolves h L h' L'"
    and "tcb_fields (mem h) (of_nat p) k stack sz func"
  shows "tcb_fields (mem h') (of_nat p) k stack sz func"
proof -
  have "load64 (mem h') (of_nat p + off) = load64 (mem h) (of_nat p + off)" if "unat off + 8 \<le> 144" for off
    using that assms(3) by (intro evolves_read [OF assms(1,2) _ _ assms(4)]) simp_all
  moreover have "load32 (mem h') (of_nat p + tcb_id) = load32 (mem h) (of_nat p + tcb_id)"
    using assms(3) by (intro evolves_read32 [OF assms(1,2) _ _ assms(4)]) simp_all
  ultimately show ?thesis using assms(5) unfolding tcb_fields_def by simp
qed


text \<open>The new control block with its task number, and the rest of the function from there on.\<close>

definition numbered :: "u64 \<Rightarrow> int \<Rightarrow> kheap \<Rightarrow> kheap" where
  "numbered t n h = h\<lparr>mem := store32 (mem h) (t + tcb_id) (word_of_int n)\<rparr>"

lemma evolves_numbered:
  assumes "heap_ok h L" and "(p, n) \<in> L" and "144 \<le> n"
  shows "evolves h (L - {(p, n)}) (numbered (of_nat p) k h) L"
  using evolves_write [OF assms(1,2), of 0 "le_bytes 4 (word_of_int k :: u32)"] assms(3)
  by (simp add: numbered_def store32_def)

lemma numbered_room:
  assumes "heap_ok h L" and "(p, n) \<in> L" and "144 \<le> n" and "heap_room h r"
  shows "heap_room (numbered (of_nat p) k h) r"
  using heap_room_write [OF assms(1,2), of 0 "le_bytes 4 (word_of_int k :: u32)"] assms(3,4)
  by (simp add: numbered_def store32_def)

text \<open>One free block that holds a control block, a stack and a page table with the two headers between them.\<close>

definition task_room :: "u64 \<Rightarrow> nat" where
  "task_room sz = 144 + HDR + (unat (align8 sz) + HDR + 4096)"

lemma align8_task: "unat (align8 SIZEOF_TCB) = 144" "unat (align8 PAGE_SIZE) = 4096"
  by (simp_all add: unat_align8)

lemma pagetable_room:
  assumes "heap_room h 4096" and "heap_ok h L" and "vm_create_task_pagetable l1 c h = Some (p, c', h')"
  shows "p \<noteq> 0"
proof -
  have fits: "heap_fits h PAGE_SIZE" using assms(1) by (simp add: heap_room_fits align8_task)
  obtain a h1 where a: "kmalloc h PAGE_SIZE = Some (a, h1)" using kheap.alloc_spec [OF assms(2), of PAGE_SIZE] by auto
  with kmalloc_fits [OF fits _ a] assms(3) show ?thesis by (auto simp: vm_create_task_pagetable_def Let_def)
qed

lemma create_no_memory:
  assumes "kmalloc (heap st) SIZEOF_TCB = Some (0, heap st)"
  shows "sched_create_task l1 func sz st = Some st"
  using assms by (simp add: sched_create_task_def)

lemma create_no_stack:
  assumes "kmalloc (heap st) SIZEOF_TCB = Some (t, h1)" and "t \<noteq> 0"
    and "kmalloc (numbered t (num_tasks st) h1) sz = Some (0, h2)"
    and "kfree (set_field (t + tcb_stack_base) 0 h2) t = Some h3"
  shows "sched_create_task l1 func sz st = Some (st\<lparr>heap := h3\<rparr>)"
  using assms by (simp add: sched_create_task_def numbered_def Let_def)

lemma create_with_stack:
  assumes "kmalloc (heap st) SIZEOF_TCB = Some (t, h1)" and "t \<noteq> 0"
    and "kmalloc (numbered t (num_tasks st) h1) sz = Some (stack, h2)" and "stack \<noteq> 0"
    and "vm_create_task_pagetable l1 (core st) (init_tcb t stack sz func h2) = Some (table, c, h3)"
  shows "sched_create_task l1 func sz st =
    (let h = set_field (t + tcb_ttbr0_el1) table h3
     in if table = 0
        then do { h \<leftarrow> kfree h stack; h \<leftarrow> kfree h t; Some (st\<lparr>core := c, heap := h\<rparr>) }
        else sched_add_task t (st\<lparr>core := c, heap := h\<rparr>))"
  using assms by (simp add: sched_create_task_def numbered_def init_tcb_def Let_def)

text \<open>The blocks of a complete task: control block, stack and page table.\<close>

definition task_blocks :: "nat \<Rightarrow> nat \<Rightarrow> nat \<Rightarrow> nat \<Rightarrow> (nat \<times> nat) set \<Rightarrow> bool" where
  "task_blocks t s p sz B \<longleftrightarrow> (\<exists>kt ks kp. B = {(t, kt), (s, ks), (p, kp)} \<and> 144 \<le> kt \<and> sz \<le> ks \<and> 4096 \<le> kp)"

text \<open>The task's page table is a copy of the kernel's.\<close>

definition table_copied :: "mem \<Rightarrow> u64 \<Rightarrow> mem \<Rightarrow> u64 \<Rightarrow> bool" where
  "table_copied m l1 m' p \<longleftrightarrow> (\<forall>j<512. load64 m' (p + 8 * of_nat j) = load64 m (l1 + 8 * of_nat j))"

text \<open>The three ways on from a control block \<open>t\<close>: no stack, no page table, or a complete task.\<close>

lemma create_releases_task:
  assumes tcb: "kmalloc (heap st) SIZEOF_TCB = Some (of_nat t, h1)" "(of_nat t :: u64) \<noteq> 0" "144 \<le> kt" "(t, kt) \<notin> L"
    and e: "evolves (heap st) L (numbered (of_nat t) (num_tasks st) h1) (insert (t, kt) L)"
    and null: "kmalloc (numbered (of_nat t) (num_tasks st) h1) sz = Some (0, numbered (of_nat t) (num_tasks st) h1)"
  shows "\<exists>h. sched_create_task l1 func sz st = Some (st\<lparr>heap := h\<rparr>) \<and> evolves (heap st) L h L"
proof -
  let ?t = "of_nat t :: u64" and ?L1 = "insert (t, kt) L" and ?h2 = "numbered (of_nat t) (num_tasks st) h1"
  let ?h3 = "set_field (?t + tcb_stack_base) 0 ?h2"
  have L1: "?L1 - {(t, kt)} = L" using tcb(4) by simp
  have "evolves ?h2 L ?h3 ?L1"
    using evolves_set [OF evolves_ok [OF e] insertI1, of tcb_stack_base] tcb(3) unfolding L1 by simp
  with e have e3: "evolves (heap st) L ?h3 ?L1" by (rule evolves_step)
  obtain h4 where h4: "kfree ?h3 ?t = Some h4" "evolves ?h3 L h4 L"
    using evolves_free [OF evolves_ok [OF e3] insertI1] unfolding L1 by blast
  from create_no_stack [OF tcb(1,2) null h4(1)] evolves_step [OF e3 h4(2)] show ?thesis by blast
qed

lemma create_releases_stack:
  assumes tcb: "kmalloc (heap st) SIZEOF_TCB = Some (of_nat t, h1)" "(of_nat t :: u64) \<noteq> 0" "144 \<le> kt" "(t, kt) \<notin> L"
    and stack: "kmalloc (numbered (of_nat t) (num_tasks st) h1) sz = Some (of_nat s, h3)" "(of_nat s :: u64) \<noteq> 0"
      "(s, ks) \<notin> insert (t, kt) L"
    and e: "evolves (heap st) L (init_tcb (of_nat t) (of_nat s) sz func h3) (insert (s, ks) (insert (t, kt) L))"
    and null: "vm_create_task_pagetable l1 (core st) (init_tcb (of_nat t) (of_nat s) sz func h3) =
      Some (0, c, init_tcb (of_nat t) (of_nat s) sz func h3)"
  shows "\<exists>h. sched_create_task l1 func sz st = Some (st\<lparr>core := c, heap := h\<rparr>) \<and> evolves (heap st) L h L"
proof -
  let ?t = "of_nat t :: u64" and ?s = "of_nat s :: u64" and ?L1 = "insert (t, kt) L"
  let ?L2 = "insert (s, ks) ?L1" and ?h4 = "init_tcb ?t ?s sz func h3"
  let ?h5 = "set_field (?t + tcb_ttbr0_el1) 0 ?h4"
  have L1: "?L1 - {(t, kt)} = L" and L2: "?L2 - {(s, ks)} = ?L1" using tcb(4) stack(3) by auto
  have "evolves ?h4 (?L2 - {(t, kt)}) ?h5 ?L2"
    using evolves_set [OF evolves_ok [OF e], of t kt tcb_ttbr0_el1] tcb(3) by simp
  then have "evolves ?h4 L ?h5 ?L2" using tcb(4) by (elim evolves_mono) blast
  with e have e5: "evolves (heap st) L ?h5 ?L2" by (rule evolves_step)
  obtain h6 where h6: "kfree ?h5 ?s = Some h6" "evolves ?h5 ?L1 h6 ?L1"
    using evolves_free [OF evolves_ok [OF e5] insertI1] unfolding L2 by blast
  have e6: "evolves (heap st) L h6 ?L1"
    using e5 evolves_mono [OF h6(2), of L] evolves_step by blast
  obtain h7 where h7: "kfree h6 ?t = Some h7" "evolves h6 L h7 L"
    using evolves_free [OF evolves_ok [OF e6] insertI1] unfolding L1 by blast
  from create_with_stack [OF tcb(1,2) stack(1,2) null] h6(1) h7(1) evolves_step [OF e6 h7(2)]
  show ?thesis by (auto simp: Let_def)
qed

lemma create_completes:
  assumes tcb: "kmalloc (heap st) SIZEOF_TCB = Some (of_nat t, h1)" "(of_nat t :: u64) \<noteq> 0" "144 \<le> kt" "(t, kt) \<notin> L"
    and stack: "kmalloc (numbered (of_nat t) (num_tasks st) h1) sz = Some (of_nat s, h3)" "(of_nat s :: u64) \<noteq> 0"
    and nr: "load32 (mem h3) (of_nat t + tcb_id) = word_of_int (num_tasks st)"
    and e: "evolves (heap st) L (init_tcb (of_nat t) (of_nat s) sz func h3) (insert (s, ks) (insert (t, kt) L))"
    and table: "vm_create_task_pagetable l1 (core st) (init_tcb (of_nat t) (of_nat s) sz func h3) = Some (p, core st, h5)"
      "p \<noteq> 0" "4096 \<le> kp" "\<forall>j. (unat p, j) \<notin> insert (s, ks) (insert (t, kt) L)"
      "evolves (init_tcb (of_nat t) (of_nat s) sz func h3) (insert (s, ks) (insert (t, kt) L)) h5
        (insert (unat p, kp) (insert (s, ks) (insert (t, kt) L)))"
      "table_copied (mem (heap st)) l1 (mem h5) p"
  shows "\<exists>h. sched_create_task l1 func sz st = sched_add_task (of_nat t) (st\<lparr>core := core st, heap := h\<rparr>) \<and>
    evolves (heap st) L h ({(t, kt), (s, ks), (unat p, kp)} \<union> L) \<and>
    tcb_started (mem h) (of_nat t) (num_tasks st) (of_nat s) sz func p \<and> table_copied (mem (heap st)) l1 (mem h) p"
proof -
  let ?t = "of_nat t :: u64" and ?s = "of_nat s :: u64" and ?L2 = "insert (s, ks) (insert (t, kt) L)"
  let ?h4 = "init_tcb ?t ?s sz func h3" and ?L3 = "insert (unat p, kp) ?L2" and ?h6 = "set_field (?t + tcb_ttbr0_el1) p h5"
  have e5: "evolves (heap st) L h5 ?L3" using evolves_trans [OF e table(5)] by blast
  have set: "evolves h5 (?L3 - {(t, kt)}) ?h6 ?L3"
    using evolves_set [OF evolves_ok [OF e5], of t kt tcb_ttbr0_el1] tcb(3) by simp
  then have "evolves h5 L ?h6 ?L3" using tcb(4) by (elim evolves_mono) blast
  with e5 have e6: "evolves (heap st) L ?h6 ?L3" by (rule evolves_step)
  have "tcb_fields (mem h5) ?t (num_tasks st) ?s sz func"
    by (rule tcb_fields_unchanged [OF evolves_ok [OF e] _ tcb(3) table(5) init_tcb_fields [OF nr]]) simp
  then have started: "tcb_started (mem ?h6) ?t (num_tasks st) ?s sz func p"
    by (simp only: tcb_started_def tcb_fields_ttbr0 load64_set_field_same)
  have in3: "(unat p, kp) \<in> ?L3 - {(t, kt)}" using table(4) by blast
  have "load64 (mem ?h6) (p + 8 * of_nat j) = load64 (mem h5) (p + 8 * of_nat j)" if "j < 512" for j
  proof -
    have "unat (8 * of_nat j :: u64) = 8 * j" using unat_of_nat64 [of "8 * j"] that by simp
    then have "unat (8 * of_nat j :: u64) + 8 \<le> kp" using that table(3) by simp
    from evolves_read [OF evolves_ok [OF e5] in3 _ this set] show ?thesis by (simp add: Diff_subset)
  qed
  with table(6) have "table_copied (mem (heap st)) l1 (mem ?h6) p" by (simp add: table_copied_def)
  moreover have "?L3 = {(t, kt), (s, ks), (unat p, kp)} \<union> L" by auto
  moreover have "sched_create_task l1 func sz st = sched_add_task ?t (st\<lparr>core := core st, heap := ?h6\<rparr>)"
    using create_with_stack [OF tcb(1,2) stack table(1)] table(2) by (simp add: Let_def)
  ultimately show ?thesis using e6 started by metis
qed

text \<open>The part after the stack was allocated.\<close>

lemma create_from_stack:
  assumes l1: "region l1 4096 \<inter> heap_area (heap st) = {}"
    and tcb: "kmalloc (heap st) SIZEOF_TCB = Some (of_nat t, h1)" "(of_nat t :: u64) \<noteq> 0" "144 \<le> kt" "\<forall>j. (t, j) \<notin> L"
    and stack: "kmalloc (numbered (of_nat t) (num_tasks st) h1) sz = Some (of_nat s, h3)" "(of_nat s :: u64) \<noteq> 0"
      "unat sz \<le> ks" "\<forall>j. (s, j) \<notin> insert (t, kt) L"
    and e2: "evolves (heap st) L (numbered (of_nat t) (num_tasks st) h1) (insert (t, kt) L)"
    and e3: "evolves (numbered (of_nat t) (num_tasks st) h1) (insert (t, kt) L) h3 (insert (s, ks) (insert (t, kt) L))"
    and room: "heap_room h3 4096 \<or> \<not> R"
  obtains (no_table) c h where "sched_create_task l1 func sz st = Some (st\<lparr>core := c, heap := h\<rparr>)"
      and "evolves (heap st) L h L" and "\<not> R"
  | (complete) p B h where
      "sched_create_task l1 func sz st = sched_add_task (of_nat t) (st\<lparr>core := core st, heap := h\<rparr>)"
      and "evolves (heap st) L h (B \<union> L)" and "task_blocks t s p (unat sz) B" and "B \<inter> L = {}"
      and "tcb_started (mem h) (of_nat t) (num_tasks st) (of_nat s) sz func (of_nat p)"
      and "table_copied (smem st) l1 (mem h) (of_nat p)"
proof -
  let ?t = "of_nat t :: u64" and ?s = "of_nat s :: u64" and ?L1 = "insert (t, kt) L"
  let ?L2 = "insert (s, ks) ?L1" and ?h2 = "numbered (of_nat t) (num_tasks st) h1"
  let ?h4 = "init_tcb ?t ?s sz func h3"
  have e13: "evolves (heap st) L h3 ?L2" using evolves_trans [OF e2 e3] by blast
  have "evolves h3 (?L2 - {(t, kt)}) ?h4 ?L2 \<and> (heap_room ?h4 4096 \<or> \<not> R)"
    using init_tcb_evolves [OF evolves_ok [OF e3] _ tcb(3) room] by blast
  then have "evolves h3 (?L2 - {(t, kt)}) ?h4 ?L2" and room4: "heap_room ?h4 4096 \<or> \<not> R" by simp_all
  then have "evolves h3 L ?h4 ?L2" using tcb(4) by (elim evolves_mono) blast
  with e13 have e4: "evolves (heap st) L ?h4 ?L2" by (rule evolves_step)
  have "load32 (mem ?h2) (?t + tcb_id) = word_of_int (num_tasks st)"
    by (simp add: numbered_def load32_store32_same)
  then have nr: "load32 (mem h3) (?t + tcb_id) = word_of_int (num_tasks st)"
    using evolves_read32 [OF evolves_ok [OF e2] insertI1 order.refl _ e3, of tcb_id] tcb(3) by simp
  have "region l1 4096 \<inter> heap_area ?h4 = {}" using l1 e4 by (simp add: evolves_def)
  with evolves_ok [OF e4] show thesis
  proof (cases rule: vm_create_task_pagetable_cases [where c = "core st"])
    case null
    from create_releases_stack [OF tcb(1-3) spec [OF tcb(4)] stack(1,2) spec [OF stack(4)] e4 null] obtain h where
      "sched_create_task l1 func sz st = Some (st\<lparr>core := kprint (''vm_create_task_pagetable: failed to allocate task l1 table'', []) (core st), heap := h\<rparr>)"
      "evolves (heap st) L h L" by blast
    moreover have "\<not> R" using pagetable_room [OF _ evolves_ok [OF e4] null] room4 by blast
    ultimately show thesis by (rule no_table)
  next
    case (table p h5 kp)
    have e5: "evolves ?h4 ?L2 h5 (insert (unat p, kp) ?L2)" using table by (simp add: evolves_def)
    have "load64 (mem ?h4) (l1 + 8 * of_nat j) = load64 (smem st) (l1 + 8 * of_nat j)" if "j < 512" for j
      using l1 e4 by (intro table_word_frame [OF that]) (auto simp: evolves_def)
    with table(7) have "table_copied (smem st) l1 (mem h5) p" by (simp add: table_copied_def)
    from create_completes [OF tcb(1-3) spec [OF tcb(4)] stack(1,2) nr e4 table(1-3,5) e5 this] obtain h where
      h: "sched_create_task l1 func sz st = sched_add_task ?t (st\<lparr>core := core st, heap := h\<rparr>)"
      "evolves (heap st) L h ({(t, kt), (s, ks), (unat p, kp)} \<union> L)"
      "tcb_started (mem h) ?t (num_tasks st) ?s sz func p" "table_copied (smem st) l1 (mem h) p" by blast
    have "{(t, kt), (s, ks), (unat p, kp)} \<inter> L = {}" using tcb(4) stack(4) table(5) by blast
    moreover have "task_blocks t s (unat p) (unat sz) {(t, kt), (s, ks), (unat p, kp)}"
      using tcb(3) stack(3) table(3) unfolding task_blocks_def by blast
    ultimately show thesis using h by (intro complete [of h "{(t, kt), (s, ks), (unat p, kp)}" "unat p"]) simp_all
  qed
qed

lemma sched_create_task_cases:
  assumes ok: "heap_ok (heap st) L" and l1: "region l1 4096 \<inter> heap_area (heap st) = {}"
    and sz: "0 < unat sz" "unat sz + 7 < 2 ^ 64"
  obtains (failed) c h where "sched_create_task l1 func sz st = Some (st\<lparr>core := c, heap := h\<rparr>)"
      and "evolves (heap st) L h L" and "\<not> heap_room (heap st) (task_room sz)"
  | (created) t s p B h where
      "sched_create_task l1 func sz st = sched_add_task (of_nat t) (st\<lparr>core := core st, heap := h\<rparr>)"
      and "0 < t" and "t < 2 ^ 64" and "evolves (heap st) L h (B \<union> L)" and "task_blocks t s p (unat sz) B"
      and "B \<inter> L = {}" and "tcb_started (mem h) (of_nat t) (num_tasks st) (of_nat s) sz func (of_nat p)"
      and "table_copied (smem st) l1 (mem h) (of_nat p)"
proof -
  have tcb: "0 < unat SIZEOF_TCB" "unat SIZEOF_TCB + 7 < 2 ^ 64" by simp_all
  have nz: "sz \<noteq> 0" "SIZEOF_TCB \<noteq> 0" using sz by auto
  let ?R = "heap_room (heap st) (task_room sz)" and ?r = "unat (align8 sz) + HDR + 4096"
  have room1: "a \<noteq> 0 \<and> heap_room h1 ?r" if "kmalloc (heap st) SIZEOF_TCB = Some (a, h1)" ?R for a h1
    using that kmalloc_room [of "heap st" SIZEOF_TCB ?r a h1] nz(2) by (simp add: align8_task task_room_def)
  from ok tcb show thesis
  proof (cases rule: evolves_alloc)
    case null
    with room1 have "\<not> ?R" by blast
    with null show thesis using failed [of "heap st" "core st"] create_no_memory evolves_refl [OF ok] by simp
  next
    case (block t kt h1)
    let ?t = "of_nat t :: u64" and ?L1 = "insert (t, kt) L" and ?h2 = "numbered (of_nat t) (num_tasks st) h1"
    have kt: "144 \<le> kt" and t0: "?t \<noteq> 0" and L1: "?L1 - {(t, kt)} = L"
      using block by (simp_all add: of_nat_lt64)
    have "evolves h1 L ?h2 ?L1"
      using evolves_numbered [OF evolves_ok [OF block(5)] insertI1 kt] unfolding L1 .
    then have e2: "evolves (heap st) L ?h2 ?L1" using block(5) evolves_step by blast
    have room2: "b \<noteq> 0 \<and> heap_room h3 4096" if "kmalloc ?h2 sz = Some (b, h3)" ?R for b h3
    proof -
      have "heap_room h1 ?r" using room1 [OF block(1) that(2)] by blast
      from numbered_room [OF evolves_ok [OF block(5)] insertI1 kt this]
      show ?thesis by (rule kmalloc_room [OF _ _ nz(1) that(1)]) simp
    qed
    from evolves_ok [OF e2] sz show thesis
    proof (cases rule: evolves_alloc)
      case null
      from create_releases_task [OF block(1) t0 kt spec [OF block(6)] e2 null, of l1 func] obtain h where
        "sched_create_task l1 func sz st = Some (st\<lparr>heap := h\<rparr>)" "evolves (heap st) L h L" by blast
      moreover have "\<not> ?R" using room2 [OF null] by blast
      ultimately show thesis using failed [of h "core st"] by simp
    next
      case stack: (block s ks h3)
      have s0: "(of_nat s :: u64) \<noteq> 0" using stack by (simp add: of_nat_lt64)
      have room: "heap_room h3 4096 \<or> \<not> ?R" using room2 [OF stack(1)] by blast
      show thesis
      proof (rule create_from_stack [where R = ?R, OF l1 block(1) t0 kt block(6) stack(1) s0 stack(4,6) e2 stack(5) room])
        show thesis if "sched_create_task l1 func sz st = Some (st\<lparr>core := c, heap := h\<rparr>)" "evolves (heap st) L h L" "\<not> ?R" for c h
          using failed that .
      next
        show thesis if "sched_create_task l1 func sz st = sched_add_task ?t (st\<lparr>core := core st, heap := h\<rparr>)"
          "evolves (heap st) L h (B \<union> L)" "task_blocks t s p (unat sz) B" "B \<inter> L = {}"
          "tcb_started (mem h) ?t (num_tasks st) (of_nat s) sz func (of_nat p)"
          "table_copied (smem st) l1 (mem h) (of_nat p)" for p B h
          using created [of t h B s p] that block(2,3) by blast
      qed
    qed
  qed
qed

section \<open>Reachable states\<close>

lemma sched_schedule_inv:
  assumes "sched_inv st" and "sched_schedule ret st = Some r" and "r = Back st' \<or> r = Stop st' \<or> r = Switch st'"
  shows "sched_inv st'"
proof -
  have lk: "sched_lock st = 0" using assms(1) by (simp add: sched_inv_def)
  consider "num_tasks st = 0" | "num_tasks st \<noteq> 0" "current_task st = 0" | "num_tasks st \<noteq> 0" "current_task st \<noteq> 0"
    by blast
  then show ?thesis
  proof cases
    case 1
    with assms lk show ?thesis
      by (auto simp: sched_schedule_def lock_defs sched_inv_def Let_def split: outcome.splits)
  next
    case 2
    with assms lk show ?thesis
      by (auto simp: sched_schedule_def lock_defs Let_def sched_inv_def)
  next
    case 3
    have "sched_schedule ret st = sched_yield ret (st\<lparr>sched_lock := 0\<rparr>)"
      using 3 lk by (simp add: sched_schedule_def lock_defs)
    also have "st\<lparr>sched_lock := 0\<rparr> = st" using lk by (cases st) simp
    finally have "sched_schedule ret st = sched_yield ret st" .
    with assms have "sched_yield ret st = Some r" by simp
    moreover have "\<not> (\<exists>u. sched_yield ret st = Some (Stop u))"
      using sched_yield_alone [OF assms(1)] sched_yield_switch [OF assms(1)]
      by (metis control.distinct(3,5) control.distinct(4,6) control.distinct option.inject not_le)
    ultimately show ?thesis using sched_yield_inv [OF assms(1)] assms(3) by auto
  qed
qed

text \<open>
  The life of the scheduler: between its calls other code changes the core and the memory, and
  tasks are added by \<open>sched_create_task\<close> or directly.
\<close>

inductive sched_step :: "sched_state \<Rightarrow> sched_state \<Rightarrow> bool" where
  env: "sched_step st (st\<lparr>core := c, heap := h\<rparr>)"
| add: "t \<noteq> 0 \<Longrightarrow> sched_add_task t st = Some st' \<Longrightarrow> sched_step st st'"
| create: "heap_ok (heap st) L \<Longrightarrow> region l1 4096 \<inter> heap_area (heap st) = {} \<Longrightarrow> 0 < unat sz \<Longrightarrow>
    unat sz + 7 < 2 ^ 64 \<Longrightarrow> sched_create_task l1 func sz st = Some st' \<Longrightarrow> sched_step st st'"
| yield: "sched_yield ret st = Some (Switch st') \<or> sched_yield ret st = Some (Back st') \<Longrightarrow> sched_step st st'"
| schedule: "sched_schedule ret st = Some r \<Longrightarrow> r = Back st' \<or> r = Stop st' \<or> r = Switch st' \<Longrightarrow>
    sched_step st st'"

inductive sched_reachable :: "sched_state \<Rightarrow> bool" where
  boot: "current_task st = 0 \<Longrightarrow> sched_reachable (sched_init st)"
| step: "sched_reachable st \<Longrightarrow> sched_step st st' \<Longrightarrow> sched_reachable st'"

lemma sched_inv_init: "current_task st = 0 \<Longrightarrow> sched_inv (sched_init st)"
  by (simp add: sched_init_def sched_inv_def)

lemma sched_step_inv:
  assumes "sched_step st st'" and "sched_inv st"
  shows "sched_inv st'"
  using assms(1)
proof (cases rule: sched_step.cases)
  case (add t)
  with sched_add_task_inv [OF assms(2)] show ?thesis by fastforce
next
  case (create L l1 sz func)
  from create(1-4) show ?thesis
  proof (cases rule: sched_create_task_cases [where func = func])
    case (failed c h)
    with create(5) assms(2) show ?thesis by (auto simp: sched_inv_env)
  next
    case (created t s p B h)
    have "of_nat t \<noteq> (0 :: u64)" using created(2,3) by (simp add: of_nat_lt64)
    moreover have "sched_inv (st\<lparr>core := core st, heap := h\<rparr>)" using assms(2) by (simp only: sched_inv_env)
    ultimately obtain u where
      "sched_add_task (of_nat t) (st\<lparr>core := core st, heap := h\<rparr>) = Some u" "sched_inv u"
      using sched_add_task_inv by blast
    with created(1) create(5) show ?thesis by simp
  qed
next
  case (schedule ret r)
  with sched_schedule_inv [OF assms(2)] show ?thesis by blast
qed (use assms(2) sched_yield_inv in \<open>auto simp: sched_inv_env\<close>)

lemma sched_reachable_inv: "sched_reachable st \<Longrightarrow> sched_inv st"
  by (induction rule: sched_reachable.induct) (auto intro: sched_inv_init sched_step_inv)

section \<open>Properties\<close>

text \<open>C17: from \<open>sched_init\<close> with no current task on, whatever the tasks do to the core and the memory, the
  scheduler never leaves its lock taken, keeps between 0 and 8 tasks with nonzero addresses, and its
  current task is the table entry its index names.\<close>

theorem sched_invariant:
  assumes "sched_reachable st"
  shows "sched_lock st = 0 \<and> length (task_list st) = 8 \<and> 0 \<le> num_tasks st \<and> num_tasks st \<le> MAX_TASKS \<and>
    (\<forall>i < nat (num_tasks st). task_list st ! i \<noteq> 0) \<and>
    (current_task st \<noteq> 0 \<longrightarrow> 0 \<le> current_task_index st \<and> current_task_index st < num_tasks st \<and>
       current_task st = task_list st ! nat (current_task_index st))"
  using sched_reachable_inv [OF assms] by (auto simp: sched_inv_def)

definition boot_sched :: "kheap \<Rightarrow> sched_state" where
  "boot_sched h = \<lparr>current_task = 0, task_list = replicate 8 0, num_tasks = 0, current_task_index = -1,
     sched_lock = 0, core = sample_cpu 0 0 0, heap = h, timer_frequency = 0\<rparr>"

theorem sched_invariant_witness:
  "\<exists>st. sched_add_task 0x5000 (sched_init (boot_sched small_heap)) = Some st \<and> num_tasks st = 1 \<and>
     sched_lock st = 0 \<and> task_list st ! 0 \<noteq> 0"
proof -
  have "sched_reachable (sched_init (boot_sched small_heap))"
    by (rule sched_reachable.boot) (simp add: boot_sched_def)
  moreover obtain st where st: "sched_add_task 0x5000 (sched_init (boot_sched small_heap)) = Some st" "num_tasks st = 1"
    by (simp add: sched_add_task_def sched_init_def lock_defs)
  ultimately have "sched_reachable st"
    using sched_step.add [of "0x5000"] sched_reachable.step by simp
  from sched_invariant [OF this] st show ?thesis by auto
qed

text \<open>C4: with at least two tasks, \<open>sched_yield\<close> selects the tasks in the order of the table.  One call makes the
  next entry the current task, installs its page table and ends in \<open>context_switch\<close> with the contexts
  of the old and the new task as arguments; after \<open>k\<close> calls the current task is the one \<open>k\<close> places on
  and its page table is installed, whatever the tasks do to the core and the memory in between; and every
  entry is selected within as many calls as there are tasks.\<close>

theorem sched_round_robin:
  assumes "sched_reachable st" and "1 < num_tasks st"
  shows "(\<exists>st'. sched_yield ret st = Some (Switch st') \<and>
           current_task_index st' = (current_task_index st + 1) mod num_tasks st \<and>
           current_task st' = task_list st ! nat (current_task_index st') \<and> task_list st' = task_list st \<and>
           context_switch (yield_core ret (current_task st') st, smem st) = (core st', smem st')) \<and>
         (\<forall>k. 0 < k \<longrightarrow> (\<exists>st'. run_yields ret env k st = Some st' \<and>
           current_task st' = task_list st ! nat ((current_task_index st + int k) mod num_tasks st) \<and>
           sysregs (core st') TTBR0_EL1 =
             load64 (mem (snd (env (k - 1)))) (current_task st' + tcb_ttbr0_el1))) \<and>
         (\<forall>i < nat (num_tasks st). \<exists>k st'. 0 < k \<and> int k \<le> num_tasks st \<and>
           run_yields ret env k st = Some st' \<and> current_task st' = task_list st ! i)"
proof -
  let ?n = "num_tasks st" and ?i = "current_task_index st"
  have inv: "sched_inv st" by (rule sched_reachable_inv [OF assms(1)])
  have 1: "\<exists>st'. run_yields ret env k st = Some st' \<and>
      current_task st' = task_list st ! nat ((?i + int k) mod ?n) \<and>
      sysregs (core st') TTBR0_EL1 = load64 (mem (snd (env (k - 1)))) (current_task st' + tcb_ttbr0_el1)"
    if k: "0 < k" for k
  proof -
    obtain st' where st': "run_yields ret env k st = Some st'" "sched_inv st'" "task_list st' = task_list st"
      "num_tasks st' = ?n" "current_task_index st' = (?i + int k) mod ?n"
      "sysregs (core st') TTBR0_EL1 = load64 (mem (snd (env (k - 1)))) (current_task st' + tcb_ttbr0_el1)"
      using run_yields_index [OF inv assms(2), of ret env k] k by blast
    have "0 \<le> (?i + int k) mod ?n" using assms(2) by simp
    then have "current_task st' = task_list st ! nat ((?i + int k) mod ?n)"
      using st'(2-5) by (auto simp: sched_inv_def)
    with st' show ?thesis by blast
  qed
  have "\<exists>k st'. 0 < k \<and> int k \<le> ?n \<and> run_yields ret env k st = Some st' \<and> current_task st' = task_list st ! i"
    if "i < nat ?n" for i
  proof -
    define k where "k = (if int i > ?i then nat (int i - ?i) else nat (?n + int i - ?i))"
    have lo: "-1 \<le> ?i" "?i < ?n" using inv by (auto simp: sched_inv_def)
    have "0 < k" "int k \<le> ?n" "?i + int k = int i \<or> ?i + int k = ?n + int i"
      using that lo by (auto simp: k_def)
    moreover from this(3) have "(?i + int k) mod ?n = int i" using that by (auto simp: mod_pos_pos_trivial)
    ultimately show ?thesis using 1 [of k] by auto
  qed
  moreover obtain u where "sched_yield ret st = Some (Switch u)" "current_task_index u = (?i + 1) mod ?n"
    "current_task u = task_list st ! nat ((?i + 1) mod ?n)" "task_list u = task_list st"
    "context_switch (yield_core ret (current_task u) st, smem st) = (core u, smem u)"
    using sched_yield_switch [OF inv assms(2)] by blast
  ultimately show ?thesis using 1 by auto
qed

text \<open>Two tasks, ready to run.\<close>

definition two_tasks :: sched_state where
  "two_tasks = (boot_sched small_heap)\<lparr>task_list := [0x5000, 0x6000, 0, 0, 0, 0, 0, 0], num_tasks := 2\<rparr>"

lemma two_tasks_reachable: "sched_reachable two_tasks"
proof -
  let ?s0 = "sched_init (boot_sched small_heap)"
  let ?s1 = "?s0\<lparr>task_list := [0x5000, 0, 0, 0, 0, 0, 0, 0], num_tasks := 1\<rparr>"
  have "sched_reachable ?s0" by (rule sched_reachable.boot) (simp add: boot_sched_def)
  moreover have "sched_step ?s0 ?s1"
    by (rule sched_step.add [of "0x5000"])
      (simp_all add: sched_add_task_def sched_init_def boot_sched_def lock_defs replicate_numeral)
  ultimately have "sched_reachable ?s1" by (rule sched_reachable.step)
  moreover have "sched_step ?s1 two_tasks"
    by (rule sched_step.add [of "0x6000"])
      (simp_all add: sched_add_task_def sched_init_def boot_sched_def lock_defs two_tasks_def)
  ultimately show ?thesis by (rule sched_reachable.step)
qed

theorem sched_round_robin_witness:
  "\<exists>st'. run_yields 0x80 (\<lambda>_. (sample_cpu 0 0 0, small_heap)) 4 two_tasks = Some st' \<and> current_task st' = 0x6000"
proof -
  have "1 < num_tasks two_tasks" by (simp add: two_tasks_def)
  from sched_round_robin [OF two_tasks_reachable this, of "0x80" "\<lambda>_. (sample_cpu 0 0 0, small_heap)"]
  have "\<exists>st'. run_yields 0x80 (\<lambda>_. (sample_cpu 0 0 0, small_heap)) 4 two_tasks = Some st' \<and>
     current_task st' = task_list two_tasks ! nat ((current_task_index two_tasks + int 4) mod num_tasks two_tasks)"
    using zero_less_numeral by blast
  then show ?thesis by (simp add: two_tasks_def boot_sched_def)
qed

text \<open>C12: \<open>sched_create_task\<close> on a well-formed heap terminates.  It fails only when no free block can hold a
  control block, the stack and a page table, and then it has released everything it took and leaves
  the table alone.  Otherwise it owns three fresh blocks, for the control block, a stack of the
  requested size and the page table; the control block has the task number, starts the function with
  the stack pointer 16 bytes below the end of the stack and names the page table, which is a copy of the
  512 entries of the kernel's; and the task is appended to the table.  When the table is full the three
  blocks stay allocated and nothing refers to them.\<close>

theorem sched_create_task_correct:
  assumes "sched_inv st" and "heap_ok (heap st) L" and "region l1 4096 \<inter> heap_area (heap st) = {}"
    and "0 < unat sz" and "unat sz + 7 < 2 ^ 64"
  shows "\<exists>st'. sched_create_task l1 func sz st = Some st' \<and> unchanged L (smem st) (smem st') \<and>
    (\<not> heap_room (heap st) (task_room sz) \<and> heap_ok (heap st') L \<and>
       task_list st' = task_list st \<and> num_tasks st' = num_tasks st \<or>
     (\<exists>t s p B. task_blocks t s p (unat sz) B \<and> B \<inter> L = {} \<and> heap_ok (heap st') (B \<union> L) \<and>
        tcb_started (smem st') (of_nat t) (num_tasks st) (of_nat s) sz func (of_nat p) \<and>
        table_copied (smem st) l1 (smem st') (of_nat p) \<and>
        (if num_tasks st < MAX_TASKS
         then num_tasks st' = num_tasks st + 1 \<and> task_list st' = (task_list st)[nat (num_tasks st) := of_nat t]
         else num_tasks st' = num_tasks st \<and> task_list st' = task_list st)))"
  using assms(2-5)
proof (cases rule: sched_create_task_cases [where func = func])
  case (failed c h)
  then show ?thesis by (auto simp: evolves_def)
next
  case (created t s p B h)
  let ?st = "st\<lparr>core := core st, heap := h\<rparr>"
  have "of_nat t \<noteq> (0 :: u64)" using created(2,3) by (simp add: of_nat_lt64)
  moreover have "sched_inv ?st" using assms(1) by (simp only: sched_inv_env)
  ultimately obtain u where u: "sched_add_task (of_nat t) ?st = Some u" "heap u = heap ?st"
    "if num_tasks ?st < MAX_TASKS
     then num_tasks u = num_tasks ?st + 1 \<and> task_list u = (task_list ?st)[nat (num_tasks ?st) := of_nat t]
     else num_tasks u = num_tasks ?st \<and> task_list u = task_list ?st"
    using sched_add_task_inv [of ?st "of_nat t"] by blast
  from u(3) have "if num_tasks st < MAX_TASKS
     then num_tasks u = num_tasks st + 1 \<and> task_list u = (task_list st)[nat (num_tasks st) := of_nat t]
     else num_tasks u = num_tasks st \<and> task_list u = task_list st" by simp
  moreover have "unchanged L (smem st) (smem u)" "heap_ok (heap u) (B \<union> L)"
    using created(4) u(2) by (simp_all add: evolves_def)
  moreover have "tcb_started (smem u) (of_nat t) (num_tasks st) (of_nat s) sz func (of_nat p)"
    "table_copied (smem st) l1 (smem u) (of_nat p)" using created(7,8) u(2) by simp_all
  moreover have "sched_create_task l1 func sz st = Some u" using created(1) u(1) by simp
  ultimately show ?thesis using created(5,6) by blast
qed

text \<open>A heap of a megabyte has room for a task.\<close>

definition large_heap :: kheap where
  "large_heap = kmalloc_init \<lparr>mem = (\<lambda>_. 0), heap_start_ptr = 0, total_heap_size = 0\<rparr> 0x200000 0x100000"

lemma large_heap_rep: "heap_rep large_heap [(0xFFFE8, True)]"
  using kmalloc_init_heap_rep [of "0x200000" "0x100000"] by (simp add: large_heap_def)

theorem sched_create_task_correct_witness:
  "\<exists>st' t s p. sched_create_task 0x100000 0x80000 512 (boot_sched large_heap) = Some st' \<and>
     num_tasks st' = 1 \<and> task_list st' = (replicate 8 0)[0 := of_nat t] \<and>
     tcb_started (smem st') (of_nat t) 0 (of_nat s) 512 0x80000 (of_nat p)"
proof -
  have "region 0x100000 4096 \<inter> heap_area (heap (boot_sched large_heap)) = {}"
    using region_nat [of "0x100000" 4096]
    by (auto simp: heap_area_def heap_base_def boot_sched_def) (auto simp: large_heap_def kmalloc_init_def)
  moreover have "sched_inv (boot_sched large_heap)" by (simp add: sched_inv_def boot_sched_def)
  moreover have "heap_ok (heap (boot_sched large_heap)) {}"
    using large_heap_rep by (force simp: heap_ok_def boot_sched_def)
  moreover have "0 < unat (512 :: u64)" "unat (512 :: u64) + 7 < 2 ^ 64" by simp_all
  moreover have "heap_room (heap (boot_sched large_heap)) (task_room 512)"
    unfolding heap_room_def using large_heap_rep
    by (intro exI [of _ "[(0xFFFE8, True)]"]) (simp add: boot_sched_def task_room_def unat_align8 has_room_def)
  moreover have "num_tasks (boot_sched large_heap) = 0" "task_list (boot_sched large_heap) = replicate 8 0"
    by (simp_all add: boot_sched_def)
  ultimately show ?thesis using sched_create_task_correct [of "boot_sched large_heap" "{}" "0x100000" 512 "0x80000"] by auto
qed

end
