(* ===== verification/Codec.thy ===== *)
theory Codec
  imports Prelude
begin

text \<open>
  Structs in byte buffers: the bytes at an offset, copying bytes to an offset, and the interface (a
  locale) of a struct with a fixed-size encoding, as the file system keeps them in blocks.
\<close>

text \<open>The bytes \<open>[off, off + n)\<close> of a buffer, and the buffer with bytes copied to an offset.\<close>

definition slice :: "nat \<Rightarrow> nat \<Rightarrow> u8 list \<Rightarrow> u8 list" where
  "slice off n buf = take n (drop off buf)"

definition splice :: "nat \<Rightarrow> u8 list \<Rightarrow> u8 list \<Rightarrow> u8 list" where
  "splice off bs buf = take off buf @ bs @ drop (off + length bs) buf"

lemma length_slice [simp]: "length (slice off n buf) = min n (length buf - off)"
  by (simp add: slice_def)

lemma length_splice [simp]: "off + length bs \<le> length buf \<Longrightarrow> length (splice off bs buf) = length buf"
  by (simp add: splice_def)

lemma nth_slice: "i < n \<Longrightarrow> off + n \<le> length buf \<Longrightarrow> slice off n buf ! i = buf ! (off + i)"
  by (simp add: slice_def)

lemma nth_splice:
  assumes "off + length bs \<le> length buf" and "i < length buf"
  shows "splice off bs buf ! i = (if off \<le> i \<and> i < off + length bs then bs ! (i - off) else buf ! i)"
  using assms by (auto simp: splice_def nth_append min_def)

lemma slice_splice:
  "off + length bs \<le> length buf \<Longrightarrow> slice off (length bs) (splice off bs buf) = bs"
  by (simp add: slice_def splice_def)

lemma slice_splice_other:
  assumes "off + length bs \<le> length buf" and "off' + n \<le> off \<or> off + length bs \<le> off'"
    and "off' + n \<le> length buf"
  shows "slice off' n (splice off bs buf) = slice off' n buf"
  using assms by (intro nth_equalityI) (auto simp: nth_slice nth_splice)

lemma slice_append: "slice off (n + k) buf = slice off n buf @ slice (off + n) k buf"
  unfolding slice_def take_add by (simp add: add.commute)

lemma slice_split: "n \<le> m \<Longrightarrow> slice off n buf @ slice (off + n) (m - n) buf = slice off m buf"
  using slice_append [of off n "m - n" buf] by simp

lemma slice_slice: "i + k \<le> n \<Longrightarrow> slice i k (slice off n buf) = slice (off + i) k buf"
  by (simp add: slice_def take_drop add.commute min_def)

lemma slice_append_left: "off + n \<le> length xs \<Longrightarrow> slice off n (xs @ ys) = slice off n xs"
  by (simp add: slice_def)

lemma slice_append_right: "length xs \<le> off \<Longrightarrow> slice off n (xs @ ys) = slice (off - length xs) n ys"
  by (simp add: slice_def)

lemma slice_all: "length xs = n \<Longrightarrow> slice 0 n xs = xs"
  by (simp add: slice_def)

lemmas slice_simps = slice_append_left slice_append_right slice_all

text \<open>Blocks of equal size, one after the other.\<close>

lemma slice_concat:
  assumes "\<forall>x \<in> set xs. length x = w" and "k < length xs"
  shows "slice (w * k) w (concat xs) = xs ! k"
  using assms
proof (induction xs arbitrary: k)
  case (Cons x xs)
  show ?case
  proof (cases k)
    case 0
    with Cons.prems show ?thesis by (simp add: slice_def)
  next
    case (Suc j)
    with Cons show ?thesis by (simp add: slice_append_right)
  qed
qed simp

lemma length_concat_blocks: "\<forall>x \<in> set xs. length x = w \<Longrightarrow> length (concat xs) = w * length xs"
  by (induction xs) auto

text \<open>A struct: valid values, their encoding in \<open>w\<close> bytes, and the way back.\<close>

locale codec =
  fixes enc :: "'v \<Rightarrow> u8 list"
    and dec :: "u8 list \<Rightarrow> 'v"
    and valid :: "'v \<Rightarrow> bool"
    and w :: nat
  assumes length_enc: "valid v \<Longrightarrow> length (enc v) = w"
    and dec_enc: "valid v \<Longrightarrow> dec (enc v) = v"
begin

lemma dec_splice:
  assumes "valid v" and "off + w \<le> length buf"
  shows "dec (slice off w (splice off (enc v) buf)) = v"
  using slice_splice [of off "enc v" buf] assms by (simp add: length_enc dec_enc)

lemma splice_length:
  assumes "valid v" and "off + w \<le> length buf"
  shows "length (splice off (enc v) buf) = length buf"
  using assms by (simp add: length_enc)

lemma dec_splice_other:
  assumes "valid v" and "off + w \<le> length buf" and "off' + w \<le> off \<or> off + w \<le> off'" and "off' + w \<le> length buf"
  shows "dec (slice off' w (splice off (enc v) buf)) = dec (slice off' w buf)"
  using slice_splice_other [of off "enc v" buf off' w] assms by (simp add: length_enc)

end

end
