(* ===== verification/Fs.thy ===== *)
theory Fs
  imports Kmalloc Lib Codec
begin

text \<open>
  The file system of \<^verbatim>\<open>src/kern/fs/fs.c\<close>.  Blocks of 4096 bytes are byte lists; inodes, directory
  entries and the superblock have their C layout.  The block device is an argument: a pair of
  operations on a device state \<open>'d\<close>.  Local arrays are values that start with arbitrary bytes
  (\<open>stack_bytes\<close>); an inode copy in the heap is held as its address and its value, and the heap is
  threaded through \<open>kmalloc\<close> and \<open>kfree\<close>; the bitmaps are byte lists, \<open>None\<close> for a null pointer.
  \<open>None\<close> as a result means that the code does not return or that its behaviour is undefined (a null
  pointer or an index outside an array is used).
\<close>

section \<open>Layout\<close>

abbreviation FS_MAGIC :: u32 where "FS_MAGIC \<equiv> 0xDEADBEEF"
abbreviation FS_MAX_FILENAME_LEN :: nat where "FS_MAX_FILENAME_LEN \<equiv> 28"
abbreviation FS_BLOCK_SIZE :: nat where "FS_BLOCK_SIZE \<equiv> 4096"
abbreviation FS_INODE_TYPE_FILE :: u16 where "FS_INODE_TYPE_FILE \<equiv> 0x8000"
abbreviation FS_INODE_TYPE_DIR :: u16 where "FS_INODE_TYPE_DIR \<equiv> 0x4000"

record inode =
  i_id :: u32
  i_type :: u16
  i_permissions :: u16
  i_owner_id :: u32
  i_group_id :: u32
  i_size :: u64
  i_creation_time :: u64
  i_modification_time :: u64
  i_direct_blocks :: "u32 list"
  i_indirect_block :: u32
  i_double_indirect_block :: u32

record superblock =
  magic :: u32
  block_size :: u32
  total_blocks :: u32
  free_blocks :: u32
  total_inodes :: u32
  free_inodes :: u32
  root_inode :: u32
  inode_bitmap_block :: u32
  block_bitmap_block :: u32
  inode_table_start_block :: u32
  data_start_block :: u32

text \<open>Sizes of the structs; a directory entry of 33 bytes is padded to 36.\<close>

abbreviation SIZEOF_INODE :: nat where "SIZEOF_INODE \<equiv> 88"
abbreviation SIZEOF_DIR_ENTRY :: nat where "SIZEOF_DIR_ENTRY \<equiv> 36"
abbreviation SIZEOF_SUPERBLOCK :: nat where "SIZEOF_SUPERBLOCK \<equiv> 44"
abbreviation INODES_PER_BLOCK :: nat where "INODES_PER_BLOCK \<equiv> 46"
abbreviation ENTRIES_PER_BLOCK :: nat where "ENTRIES_PER_BLOCK \<equiv> 113"

definition inode_bytes :: "inode \<Rightarrow> u8 list" where
  "inode_bytes i =
     le_bytes 4 (i_id i) @ le_bytes 2 (i_type i) @ le_bytes 2 (i_permissions i) @
     le_bytes 4 (i_owner_id i) @ le_bytes 4 (i_group_id i) @ le_bytes 8 (i_size i) @
     le_bytes 8 (i_creation_time i) @ le_bytes 8 (i_modification_time i) @
     concat (map (le_bytes 4) (i_direct_blocks i)) @
     le_bytes 4 (i_indirect_block i) @ le_bytes 4 (i_double_indirect_block i)"

definition inode_of :: "u8 list \<Rightarrow> inode" where
  "inode_of b =
     \<lparr>i_id = le_word (slice 0 4 b), i_type = le_word (slice 4 2 b), i_permissions = le_word (slice 6 2 b),
      i_owner_id = le_word (slice 8 4 b), i_group_id = le_word (slice 12 4 b), i_size = le_word (slice 16 8 b),
      i_creation_time = le_word (slice 24 8 b), i_modification_time = le_word (slice 32 8 b),
      i_direct_blocks = map (\<lambda>k. le_word (slice (40 + 4 * k) 4 b)) [0..<10],
      i_indirect_block = le_word (slice 80 4 b), i_double_indirect_block = le_word (slice 84 4 b)\<rparr>"

definition superblock_bytes :: "superblock \<Rightarrow> u8 list" where
  "superblock_bytes s = concat (map (le_bytes 4)
     [magic s, block_size s, total_blocks s, free_blocks s, total_inodes s, free_inodes s, root_inode s,
      inode_bitmap_block s, block_bitmap_block s, inode_table_start_block s, data_start_block s])"

definition superblock_of :: "u8 list \<Rightarrow> superblock" where
  "superblock_of b =
     \<lparr>magic = le_word (slice 0 4 b), block_size = le_word (slice 4 4 b), total_blocks = le_word (slice 8 4 b),
      free_blocks = le_word (slice 12 4 b), total_inodes = le_word (slice 16 4 b),
      free_inodes = le_word (slice 20 4 b), root_inode = le_word (slice 24 4 b),
      inode_bitmap_block = le_word (slice 28 4 b), block_bitmap_block = le_word (slice 32 4 b),
      inode_table_start_block = le_word (slice 36 4 b), data_start_block = le_word (slice 40 4 b)\<rparr>"

definition zero_inode :: inode where
  "zero_inode = \<lparr>i_id = 0, i_type = 0, i_permissions = 0, i_owner_id = 0, i_group_id = 0, i_size = 0,
     i_creation_time = 0, i_modification_time = 0, i_direct_blocks = replicate 10 0,
     i_indirect_block = 0, i_double_indirect_block = 0\<rparr>"

section \<open>State\<close>

text \<open>The operations of the block device on buffers, and what uninitialised local arrays hold.\<close>

record 'd fs_env =
  bd_read :: "u64 \<Rightarrow> u32 \<Rightarrow> u8 list \<Rightarrow> 'd \<Rightarrow> (int \<times> u8 list \<times> 'd) option"
  bd_write :: "u64 \<Rightarrow> u32 \<Rightarrow> u8 list \<Rightarrow> 'd \<Rightarrow> (int \<times> 'd) option"
  stack_bytes :: "u8 list"

record 'd fs_state =
  current_superblock :: superblock
  inode_bitmap :: "u8 list option"
  block_bitmap :: "u8 list option"
  disk :: 'd
  fs_heap :: kheap

definition read_block :: "'d fs_env \<Rightarrow> u32 \<Rightarrow> u8 list \<Rightarrow> 'd fs_state \<Rightarrow> (int \<times> u8 list \<times> 'd fs_state) option" where
  "read_block env block_num buffer st = do {
     (rc, buffer, d) \<leftarrow> bd_read env (ucast block_num) 1 buffer (disk st);
     Some (rc, buffer, st\<lparr>disk := d\<rparr>)
   }"

definition write_block :: "'d fs_env \<Rightarrow> u32 \<Rightarrow> u8 list \<Rightarrow> 'd fs_state \<Rightarrow> (int \<times> 'd fs_state) option" where
  "write_block env block_num buffer st = do {
     (rc, d) \<leftarrow> bd_write env (ucast block_num) 1 buffer (disk st);
     Some (rc, st\<lparr>disk := d\<rparr>)
   }"

definition fs_kfree :: "u64 \<Rightarrow> 'd fs_state \<Rightarrow> 'd fs_state option" where
  "fs_kfree p st = do { h \<leftarrow> kfree (fs_heap st) p; Some (st\<lparr>fs_heap := h\<rparr>) }"

definition fs_kmalloc :: "u64 \<Rightarrow> 'd fs_state \<Rightarrow> (u64 \<times> 'd fs_state) option" where
  "fs_kmalloc n st = do { (p, h) \<leftarrow> kmalloc (fs_heap st) n; Some (p, st\<lparr>fs_heap := h\<rparr>) }"

text \<open>A pointer to an inode: null, or the address of the copy and its value.\<close>

type_synonym inode_ptr = "(u64 \<times> inode) option"

definition kfree_inode :: "inode_ptr \<Rightarrow> 'd fs_state \<Rightarrow> 'd fs_state option" where
  "kfree_inode p st = fs_kfree (case p of None \<Rightarrow> 0 | Some (a, i) \<Rightarrow> a) st"

section \<open>Inodes and bitmaps\<close>

definition inode_block :: "superblock \<Rightarrow> u32 \<Rightarrow> u32" where
  "inode_block sb inode_id = inode_table_start_block sb + (inode_id - 1) div 46"

definition inode_offset :: "u32 \<Rightarrow> nat" where
  "inode_offset inode_id = unat ((inode_id - 1) mod 46) * SIZEOF_INODE"

definition get_inode :: "'d fs_env \<Rightarrow> u32 \<Rightarrow> 'd fs_state \<Rightarrow> (inode_ptr \<times> 'd fs_state) option" where
  "get_inode env inode_id st =
     (if inode_id = 0 \<or> inode_id > total_inodes (current_superblock st) then Some (None, st)
      else do {
        (rc, block_buffer, st) \<leftarrow> read_block env (inode_block (current_superblock st) inode_id) (stack_bytes env) st;
        if rc \<noteq> 0 then Some (None, st)
        else do {
          (p, st) \<leftarrow> fs_kmalloc (of_nat SIZEOF_INODE) st;
          Some (if p = 0 then None
                else Some (p, inode_of (slice (inode_offset inode_id) SIZEOF_INODE block_buffer)), st)
        }
      })"

definition write_inode :: "'d fs_env \<Rightarrow> u32 \<Rightarrow> inode \<Rightarrow> 'd fs_state \<Rightarrow> (int \<times> 'd fs_state) option" where
  "write_inode env inode_id i st =
     (if inode_id = 0 \<or> inode_id > total_inodes (current_superblock st) then Some (-1, st)
      else do {
        let inode_block_num = inode_block (current_superblock st) inode_id;
        (rc, block_buffer, st) \<leftarrow> read_block env inode_block_num (stack_bytes env) st;
        if rc \<noteq> 0 then Some (-1, st)
        else write_block env inode_block_num
               (splice (inode_offset inode_id) (inode_bytes i) block_buffer) st
      })"

text \<open>Bits of a bitmap; \<open>bitmap_find k i bm\<close> is the loop over the indices from \<open>i\<close> on with \<open>k\<close> left, and
  \<open>None\<close> when it reads past the bitmap.\<close>

definition bitmap_bit :: "u8 list \<Rightarrow> nat \<Rightarrow> bool" where
  "bitmap_bit bm i = bit (bm ! (i div 8)) (i mod 8)"

definition bitmap_set :: "nat \<Rightarrow> u8 list \<Rightarrow> u8 list" where
  "bitmap_set i bm = bm[i div 8 := (bm ! (i div 8)) OR push_bit (i mod 8) 1]"

definition bitmap_clear :: "nat \<Rightarrow> u8 list \<Rightarrow> u8 list" where
  "bitmap_clear i bm = bm[i div 8 := (bm ! (i div 8)) AND NOT (push_bit (i mod 8) 1)]"

primrec bitmap_find :: "nat \<Rightarrow> nat \<Rightarrow> u8 list \<Rightarrow> nat option option" where
  "bitmap_find 0 i bm = Some None"
| "bitmap_find (Suc k) i bm =
     (if i div 8 \<ge> length bm then None
      else if \<not> bitmap_bit bm i then Some (Some i)
      else bitmap_find k (Suc i) bm)"

definition allocate_inode :: "'d fs_env \<Rightarrow> 'd fs_state \<Rightarrow> (u32 \<times> 'd fs_state) option" where
  "allocate_inode env st = do {
     bm \<leftarrow> inode_bitmap st;
     r \<leftarrow> bitmap_find (unat (total_inodes (current_superblock st))) 0 bm;
     case r of
       None \<Rightarrow> Some (0, st)
     | Some i \<Rightarrow> do {
         let bm = bitmap_set i bm;
         let sb = current_superblock st;
         let st = st\<lparr>inode_bitmap := Some bm, current_superblock := sb\<lparr>free_inodes := free_inodes sb - 1\<rparr>\<rparr>;
         (rc, st) \<leftarrow> write_block env (inode_bitmap_block sb) (take FS_BLOCK_SIZE bm) st;
         Some (of_nat i + 1, st)
       }
   }"

definition free_inode :: "'d fs_env \<Rightarrow> u32 \<Rightarrow> 'd fs_state \<Rightarrow> 'd fs_state option" where
  "free_inode env inode_id st =
     (if inode_id = 0 \<or> inode_id > total_inodes (current_superblock st) then Some st
      else do {
        bm \<leftarrow> inode_bitmap st;
        let i = unat (inode_id - 1);
        if i div 8 \<ge> length bm then None
        else do {
          let bm = bitmap_clear i bm;
          let sb = current_superblock st;
          let st = st\<lparr>inode_bitmap := Some bm, current_superblock := sb\<lparr>free_inodes := free_inodes sb + 1\<rparr>\<rparr>;
          (rc, st) \<leftarrow> write_block env (inode_bitmap_block sb) (take FS_BLOCK_SIZE bm) st;
          Some st
        }
      })"

definition allocate_block :: "'d fs_env \<Rightarrow> 'd fs_state \<Rightarrow> (u32 \<times> 'd fs_state) option" where
  "allocate_block env st = do {
     bm \<leftarrow> block_bitmap st;
     r \<leftarrow> bitmap_find (unat (total_blocks (current_superblock st))) 0 bm;
     case r of
       None \<Rightarrow> Some (0, st)
     | Some i \<Rightarrow> do {
         let bm = bitmap_set i bm;
         let sb = current_superblock st;
         let st = st\<lparr>block_bitmap := Some bm, current_superblock := sb\<lparr>free_blocks := free_blocks sb - 1\<rparr>\<rparr>;
         (rc, st) \<leftarrow> write_block env (block_bitmap_block sb) (take FS_BLOCK_SIZE bm) st;
         Some (of_nat i + 1, st)
       }
   }"

definition free_block :: "'d fs_env \<Rightarrow> u32 \<Rightarrow> 'd fs_state \<Rightarrow> 'd fs_state option" where
  "free_block env block_num st =
     (if block_num = 0 \<or> block_num > total_blocks (current_superblock st) then Some st
      else do {
        bm \<leftarrow> block_bitmap st;
        let i = unat (block_num - 1);
        if i div 8 \<ge> length bm then None
        else do {
          let bm = bitmap_clear i bm;
          let sb = current_superblock st;
          let st = st\<lparr>block_bitmap := Some bm, current_superblock := sb\<lparr>free_blocks := free_blocks sb + 1\<rparr>\<rparr>;
          (rc, st) \<leftarrow> write_block env (block_bitmap_block sb) (take FS_BLOCK_SIZE bm) st;
          Some st
        }
      })"

section \<open>Initialisation\<close>

definition bitmap_blocks :: "u32 \<Rightarrow> u32" where
  "bitmap_blocks n = (n div 8 + 4096 - 1) div 4096"

text \<open>\<open>kmalloc\<close> of a bitmap: null, or a buffer of that many bytes with arbitrary contents.\<close>

definition new_bitmap :: "'d fs_env \<Rightarrow> u32 \<Rightarrow> 'd fs_state \<Rightarrow> (u8 list option \<times> 'd fs_state) option" where
  "new_bitmap env blocks st = do {
     (p, st) \<leftarrow> fs_kmalloc (ucast (blocks * 4096)) st;
     Some (if p = 0 then None else Some (read_bytes (mem (fs_heap st)) p (unat (blocks * 4096))), st)
   }"

text \<open>The loop that marks the metadata blocks, from index \<open>i\<close> on with \<open>k\<close> iterations left.\<close>

primrec mark_blocks :: "nat \<Rightarrow> nat \<Rightarrow> u8 list \<times> superblock \<Rightarrow> (u8 list \<times> superblock) option" where
  "mark_blocks 0 i s = Some s"
| "mark_blocks (Suc k) i s =
     (let (bm, sb) = s
      in if i div 8 \<ge> length bm then None
         else mark_blocks k (Suc i) (bitmap_set i bm, sb\<lparr>free_blocks := free_blocks sb - 1\<rparr>))"

definition formatted_superblock :: superblock where
  "formatted_superblock =
     (let total_blocks = 1024; total_inodes = 128;
          inode_table_blocks = (total_inodes * of_nat SIZEOF_INODE + 4096 - 1) div 4096;
          block_bitmap_block = 1 + bitmap_blocks total_inodes;
          inode_table_start_block = block_bitmap_block + bitmap_blocks total_blocks;
          data_start_block = inode_table_start_block + inode_table_blocks
      in \<lparr>magic = FS_MAGIC, block_size = of_nat FS_BLOCK_SIZE, total_blocks = total_blocks,
          free_blocks = total_blocks - data_start_block, total_inodes = total_inodes,
          free_inodes = total_inodes, root_inode = 0, inode_bitmap_block = 1,
          block_bitmap_block = block_bitmap_block, inode_table_start_block = inode_table_start_block,
          data_start_block = data_start_block\<rparr>)"

text \<open>The body of the first branch of \<open>fs_init\<close>; the guard, that block 0 cannot be read, is in \<open>fs_init\<close>.\<close>

definition fs_format :: "'d fs_env \<Rightarrow> u8 list \<Rightarrow> 'd fs_state \<Rightarrow> 'd fs_state option" where
  "fs_format env superblock_buffer st = do {
     let sb = formatted_superblock;
     let st = st\<lparr>current_superblock := sb\<rparr>;
     let superblock_buffer = splice 0 (superblock_bytes sb) superblock_buffer;
     (rc, st) \<leftarrow> write_block env 0 superblock_buffer st;
     (ib, st) \<leftarrow> new_bitmap env (bitmap_blocks (total_inodes sb)) st;
     (bb, st) \<leftarrow> new_bitmap env (bitmap_blocks (total_blocks sb)) st;
     ib \<leftarrow> ib;
     bb \<leftarrow> bb;
     let ib = replicate (length ib) 0;
     (bb, sb) \<leftarrow> mark_blocks (Suc (unat (data_start_block sb))) 0 (replicate (length bb) 0, sb);
     let st = st\<lparr>inode_bitmap := Some ib, block_bitmap := Some bb, current_superblock := sb\<rparr>;
     (rc, st) \<leftarrow> write_block env (inode_bitmap_block sb) (take FS_BLOCK_SIZE ib) st;
     (rc, st) \<leftarrow> write_block env (block_bitmap_block sb) (take FS_BLOCK_SIZE bb) st;
     (root_inode_id, st) \<leftarrow> allocate_inode env st;
     let root = zero_inode\<lparr>i_id := root_inode_id, i_type := FS_INODE_TYPE_DIR, i_permissions := 0x1ED\<rparr>;
     (rc, st) \<leftarrow> write_inode env root_inode_id root st;
     let st = st\<lparr>current_superblock := (current_superblock st)\<lparr>root_inode := root_inode_id\<rparr>\<rparr>;
     (rc, st) \<leftarrow> write_block env 0
                   (splice 0 (superblock_bytes (current_superblock st)) superblock_buffer) st;
     Some st
   }"

definition fs_init :: "'d fs_env \<Rightarrow> 'd fs_state \<Rightarrow> 'd fs_state option" where
  "fs_init env st = do {
     (rc, superblock_buffer, st) \<leftarrow> read_block env 0 (stack_bytes env) st;
     if rc \<noteq> 0 then fs_format env superblock_buffer st
     else do {
       let sb = superblock_of superblock_buffer;
       let st = st\<lparr>current_superblock := sb\<rparr>;
       if magic sb \<noteq> FS_MAGIC then Some st
       else do {
         (ib, st) \<leftarrow> new_bitmap env (bitmap_blocks (total_inodes sb)) st;
         (bb, st) \<leftarrow> new_bitmap env (bitmap_blocks (total_blocks sb)) st;
         ib \<leftarrow> ib;
         bb \<leftarrow> bb;
         (rc, ib', st) \<leftarrow> read_block env (inode_bitmap_block sb) (take FS_BLOCK_SIZE ib) st;
         (rc, bb', st) \<leftarrow> read_block env (block_bitmap_block sb) (take FS_BLOCK_SIZE bb) st;
         Some (st\<lparr>inode_bitmap := Some (splice 0 ib' ib), block_bitmap := Some (splice 0 bb' bb)\<rparr>)
       }
     }
   }"

section \<open>Directories\<close>

definition entry_id :: "u8 list \<Rightarrow> nat \<Rightarrow> u32" where
  "entry_id buf j = le_word (slice (j * SIZEOF_DIR_ENTRY) 4 buf)"

text \<open>\<open>strcmp(entry->name, name) == 0\<close> for a name of at most 28 bytes without a zero: the comparison
  stops at the first difference or at the end of the name.\<close>

definition entry_named :: "u8 list \<Rightarrow> nat \<Rightarrow> u8 list \<Rightarrow> bool" where
  "entry_named buf j name \<longleftrightarrow> slice (j * SIZEOF_DIR_ENTRY + 4) (Suc (length name)) buf = name @ [0]"

text \<open>The entry of a new file: id, name cut or padded to 28 bytes, terminator, and the three padding
  bytes of the struct, which are whatever the stack holds.\<close>

definition entry_bytes :: "u32 \<Rightarrow> u8 list \<Rightarrow> u8 list \<Rightarrow> u8 list" where
  "entry_bytes inode_id name pad = le_bytes 4 inode_id @ strncpy_bytes FS_MAX_FILENAME_LEN name @ [0] @ pad"

definition find_entry :: "u8 list \<Rightarrow> u8 list \<Rightarrow> nat option" where
  "find_entry buf name = find (\<lambda>j. entry_id buf j \<noteq> 0 \<and> entry_named buf j name) [0..<ENTRIES_PER_BLOCK]"

definition find_free_entry :: "u8 list \<Rightarrow> nat option" where
  "find_free_entry buf = find (\<lambda>j. entry_id buf j = 0) [0..<ENTRIES_PER_BLOCK]"

fun lookup_blocks :: "'d fs_env \<Rightarrow> u8 list \<Rightarrow> u32 list \<Rightarrow> u8 list \<Rightarrow> 'd fs_state \<Rightarrow> (u32 \<times> 'd fs_state) option" where
  "lookup_blocks env name [] buf st = Some (0, st)"
| "lookup_blocks env name (b # bs) buf st =
     (if b = 0 then lookup_blocks env name bs buf st
      else do {
        (rc, buf, st) \<leftarrow> read_block env b buf st;
        case find_entry buf name of
          Some j \<Rightarrow> Some (entry_id buf j, st)
        | None \<Rightarrow> lookup_blocks env name bs buf st
      })"

definition is_dir :: "inode_ptr \<Rightarrow> bool" where
  "is_dir p = (case p of None \<Rightarrow> False | Some (a, i) \<Rightarrow> i_type i AND FS_INODE_TYPE_DIR \<noteq> 0)"

definition is_file :: "inode_ptr \<Rightarrow> bool" where
  "is_file p = (case p of None \<Rightarrow> False | Some (a, i) \<Rightarrow> i_type i AND FS_INODE_TYPE_FILE \<noteq> 0)"

text \<open>Names are the bytes of a C string; \<open>strlen(name)\<close> is their number.\<close>

definition fs_lookup :: "'d fs_env \<Rightarrow> u32 \<Rightarrow> u8 list \<Rightarrow> 'd fs_state \<Rightarrow> (u32 \<times> 'd fs_state) option" where
  "fs_lookup env parent_inode_id name st =
     (if length name > FS_MAX_FILENAME_LEN then Some (0, st)
      else do {
        (parent, st) \<leftarrow> get_inode env parent_inode_id st;
        if \<not> is_dir parent then do { st \<leftarrow> kfree_inode parent st; Some (0, st) }
        else do {
          (found, st) \<leftarrow> lookup_blocks env name (i_direct_blocks (snd (the parent))) (stack_bytes env) st;
          st \<leftarrow> kfree_inode parent st;
          Some (found, st)
        }
      })"

text \<open>The loop of \<open>fs_create\<close> over the direct blocks from index \<open>i\<close> on, with \<open>k\<close> left.\<close>

fun insert_entry :: "'d fs_env \<Rightarrow> u32 \<Rightarrow> u8 list \<Rightarrow> nat \<Rightarrow> nat \<Rightarrow> u8 list \<Rightarrow> inode \<Rightarrow> 'd fs_state \<Rightarrow> 'd fs_state option" where
  "insert_entry env parent_id e 0 i buf parent st = Some st"
| "insert_entry env parent_id e (Suc k) i buf parent st = do {
     (b, buf, parent, st) \<leftarrow>
       (if i_direct_blocks parent ! i = 0
        then do {
          (b, st) \<leftarrow> allocate_block env st;
          let parent = parent\<lparr>i_direct_blocks := (i_direct_blocks parent)[i := b]\<rparr>;
          Some (b, if b = 0 then buf else replicate FS_BLOCK_SIZE 0, parent, st)
        }
        else do {
          let b = i_direct_blocks parent ! i;
          (rc, buf, st) \<leftarrow> read_block env b buf st;
          Some (b, buf, parent, st)
        });
     if b = 0 then Some st
     else case find_free_entry buf of
       Some j \<Rightarrow> do {
         (rc, st) \<leftarrow> write_block env b (splice (j * SIZEOF_DIR_ENTRY) e buf) st;
         let parent = parent\<lparr>i_size := i_size parent + of_nat SIZEOF_DIR_ENTRY\<rparr>;
         (rc, st) \<leftarrow> write_inode env parent_id parent st;
         Some st
       }
     | None \<Rightarrow> insert_entry env parent_id e k (Suc i) buf parent st
   }"

definition fs_create :: "'d fs_env \<Rightarrow> u32 \<Rightarrow> u8 list \<Rightarrow> u16 \<Rightarrow> 'd fs_state \<Rightarrow> (u32 \<times> 'd fs_state) option" where
  "fs_create env parent_inode_id name type st =
     (if length name > FS_MAX_FILENAME_LEN then Some (0, st)
      else do {
        (parent, st) \<leftarrow> get_inode env parent_inode_id st;
        if \<not> is_dir parent then do { st \<leftarrow> kfree_inode parent st; Some (0, st) }
        else do {
          (existing, st) \<leftarrow> fs_lookup env parent_inode_id name st;
          if existing \<noteq> 0 then do { st \<leftarrow> kfree_inode parent st; Some (0, st) }
          else do {
            (new_inode_id, st) \<leftarrow> allocate_inode env st;
            if new_inode_id = 0 then do { st \<leftarrow> kfree_inode parent st; Some (0, st) }
            else do {
              let new_inode = zero_inode\<lparr>i_id := new_inode_id, i_type := type, i_permissions := 0x1A4\<rparr>;
              (rc, st) \<leftarrow> write_inode env new_inode_id new_inode st;
              let new_entry = entry_bytes new_inode_id name (take 3 (stack_bytes env));
              st \<leftarrow> insert_entry env parent_inode_id new_entry 10 0 (stack_bytes env) (snd (the parent)) st;
              st \<leftarrow> kfree_inode parent st;
              Some (new_inode_id, st)
            }
          }
        }
      })"

text \<open>The loop of \<open>fs_delete\<close> over the parent's blocks: the id of the removed entry, or 0.\<close>

fun remove_entry :: "'d fs_env \<Rightarrow> u32 \<Rightarrow> inode \<Rightarrow> u8 list \<Rightarrow> u32 list \<Rightarrow> u8 list \<Rightarrow> 'd fs_state \<Rightarrow> (u32 \<times> 'd fs_state) option" where
  "remove_entry env parent_id parent name [] buf st = Some (0, st)"
| "remove_entry env parent_id parent name (b # bs) buf st =
     (if b = 0 then remove_entry env parent_id parent name bs buf st
      else do {
        (rc, buf, st) \<leftarrow> read_block env b buf st;
        case find_entry buf name of
          Some j \<Rightarrow> do {
            let target = entry_id buf j;
            (rc, st) \<leftarrow> write_block env b (splice (j * SIZEOF_DIR_ENTRY) (replicate SIZEOF_DIR_ENTRY 0) buf) st;
            let parent = parent\<lparr>i_size := i_size parent - of_nat SIZEOF_DIR_ENTRY\<rparr>;
            (rc, st) \<leftarrow> write_inode env parent_id parent st;
            Some (target, st)
          }
        | None \<Rightarrow> remove_entry env parent_id parent name bs buf st
      })"

fun free_blocks_of :: "'d fs_env \<Rightarrow> u32 list \<Rightarrow> 'd fs_state \<Rightarrow> 'd fs_state option" where
  "free_blocks_of env [] st = Some st"
| "free_blocks_of env (b # bs) st =
     (if b \<noteq> 0 then do { st \<leftarrow> free_block env b st; free_blocks_of env bs st }
      else free_blocks_of env bs st)"

definition fs_delete :: "'d fs_env \<Rightarrow> u32 \<Rightarrow> u8 list \<Rightarrow> 'd fs_state \<Rightarrow> (int \<times> 'd fs_state) option" where
  "fs_delete env parent_inode_id name st =
     (if length name > FS_MAX_FILENAME_LEN then Some (-1, st)
      else do {
        (parent, st) \<leftarrow> get_inode env parent_inode_id st;
        if \<not> is_dir parent then do { st \<leftarrow> kfree_inode parent st; Some (-1, st) }
        else do {
          (target_inode_id, st) \<leftarrow> remove_entry env parent_inode_id (snd (the parent)) name
             (i_direct_blocks (snd (the parent))) (stack_bytes env) st;
          st \<leftarrow> kfree_inode parent st;
          if target_inode_id = 0 then Some (-1, st)
          else do {
            (target, st) \<leftarrow> get_inode env target_inode_id st;
            case target of
              None \<Rightarrow> Some (-1, st)
            | Some (p, target_inode) \<Rightarrow> do {
                st \<leftarrow> free_blocks_of env (i_direct_blocks target_inode) st;
                st \<leftarrow> free_inode env target_inode_id st;
                st \<leftarrow> kfree_inode target st;
                Some (0, st)
              }
          }
        }
      })"

section \<open>Files\<close>

text \<open>The loop of \<open>fs_read\<close>; \<open>out\<close> is what has been copied to the caller's buffer so far.\<close>

partial_function (option) read_loop ::
  "'d fs_env \<Rightarrow> inode \<Rightarrow> u64 \<Rightarrow> u64 \<Rightarrow> u8 list \<Rightarrow> u64 \<Rightarrow> u8 list \<Rightarrow> 'd fs_state \<Rightarrow>
     (bool \<times> u64 \<times> u8 list \<times> 'd fs_state) option" where
  "read_loop env inode offset count buf bytes_read out st =
     (if bytes_read < count
      then (let current_file_offset = offset + bytes_read;
                block_idx = ucast (current_file_offset div 4096) :: u32;
                block_offset = ucast (current_file_offset mod 4096) :: u32
            in if block_idx < 10
               then (let data_block_num = i_direct_blocks inode ! unat block_idx
                     in if data_block_num = 0 then Some (True, bytes_read, out, st)
                        else do {
                          (rc, buf, st) \<leftarrow> read_block env data_block_num buf st;
                          if rc \<noteq> 0 then Some (False, bytes_read, out, st)
                          else (let bytes_to_copy = ucast (4096 - block_offset);
                                    bytes_to_copy = (if bytes_to_copy > count - bytes_read
                                                     then count - bytes_read else bytes_to_copy)
                                in read_loop env inode offset count buf (bytes_read + bytes_to_copy)
                                     (out @ slice (unat block_offset) (unat bytes_to_copy) buf) st)
                        })
               else Some (True, bytes_read, out, st))
      else Some (True, bytes_read, out, st))"

text \<open>\<open>fs_read\<close> returns its result and the bytes it copied to the buffer.\<close>

definition fs_read :: "'d fs_env \<Rightarrow> u32 \<Rightarrow> u64 \<Rightarrow> u64 \<Rightarrow> 'd fs_state \<Rightarrow> (int \<times> u8 list \<times> 'd fs_state) option" where
  "fs_read env inode_id offset count st = do {
     (ip, st) \<leftarrow> get_inode env inode_id st;
     if \<not> is_file ip then do { st \<leftarrow> kfree_inode ip st; Some (-1, [], st) }
     else do {
       let inode = snd (the ip);
       let count = (if offset + count > i_size inode then i_size inode - offset else count);
       if count = 0 then do { st \<leftarrow> kfree_inode ip st; Some (0, [], st) }
       else do {
         (done_ok, bytes_read, out, st) \<leftarrow> read_loop env inode offset count (stack_bytes env) 0 [] st;
         st \<leftarrow> kfree_inode ip st;
         Some (if done_ok then c_int bytes_read else -1, out, st)
       }
     }
   }"

text \<open>The block of \<open>fs_write\<close> for a block index below 10: the number in the inode, or a newly allocated one
  that is entered in the inode on the disk; 0 when there is none.\<close>

definition file_block :: "'d fs_env \<Rightarrow> u32 \<Rightarrow> nat \<Rightarrow> inode \<Rightarrow> 'd fs_state \<Rightarrow> (u32 \<times> inode \<times> 'd fs_state) option" where
  "file_block env inode_id block_idx inode st =
     (if i_direct_blocks inode ! block_idx = 0
      then do {
        (data_block_num, st) \<leftarrow> allocate_block env st;
        if data_block_num = 0 then Some (0, inode, st)
        else do {
          let inode = inode\<lparr>i_direct_blocks := (i_direct_blocks inode)[block_idx := data_block_num]\<rparr>;
          (rc, st) \<leftarrow> write_inode env inode_id inode st;
          Some (data_block_num, inode, st)
        }
      }
      else Some (i_direct_blocks inode ! block_idx, inode, st))"

partial_function (option) write_loop ::
  "'d fs_env \<Rightarrow> u32 \<Rightarrow> u64 \<Rightarrow> u8 list \<Rightarrow> u64 \<Rightarrow> u8 list \<Rightarrow> u64 \<Rightarrow> inode \<Rightarrow> 'd fs_state \<Rightarrow>
     (bool \<times> u64 \<times> inode \<times> 'd fs_state) option" where
  "write_loop env inode_id offset buffer count buf bytes_written inode st =
     (if bytes_written < count
      then (let current_file_offset = offset + bytes_written;
                block_idx = ucast (current_file_offset div 4096) :: u32;
                block_offset = ucast (current_file_offset mod 4096) :: u32
            in if block_idx < 10
               then do {
                 (data_block_num, inode, st) \<leftarrow> file_block env inode_id (unat block_idx) inode st;
                 if data_block_num = 0 then Some (True, bytes_written, inode, st)
                 else do {
                   (rc, buf, st) \<leftarrow> read_block env data_block_num buf st;
                   if rc \<noteq> 0 then Some (False, bytes_written, inode, st)
                   else do {
                     let bytes_to_copy = ucast (4096 - block_offset);
                     let bytes_to_copy = (if bytes_to_copy > count - bytes_written
                                          then count - bytes_written else bytes_to_copy);
                     let buf = splice (unat block_offset)
                                 (slice (unat bytes_written) (unat bytes_to_copy) buffer) buf;
                     (rc, st) \<leftarrow> write_block env data_block_num buf st;
                     write_loop env inode_id offset buffer count buf (bytes_written + bytes_to_copy) inode st
                   }
                 }
               }
               else Some (True, bytes_written, inode, st))
      else Some (True, bytes_written, inode, st))"

text \<open>The caller's buffer holds at least \<open>count\<close> bytes.\<close>

definition fs_write :: "'d fs_env \<Rightarrow> u32 \<Rightarrow> u64 \<Rightarrow> u8 list \<Rightarrow> u64 \<Rightarrow> 'd fs_state \<Rightarrow> (int \<times> 'd fs_state) option" where
  "fs_write env inode_id offset buffer count st = do {
     (ip, st) \<leftarrow> get_inode env inode_id st;
     if \<not> is_file ip then do { st \<leftarrow> kfree_inode ip st; Some (-1, st) }
     else do {
       (done_ok, bytes_written, inode, st) \<leftarrow>
         write_loop env inode_id offset buffer count (stack_bytes env) 0 (snd (the ip)) st;
       if \<not> done_ok then do { st \<leftarrow> kfree_inode ip st; Some (-1, st) }
       else do {
         st \<leftarrow> (if offset + bytes_written > i_size inode
                then do {
                  (rc, st) \<leftarrow> write_inode env inode_id (inode\<lparr>i_size := offset + bytes_written\<rparr>) st;
                  Some st
                }
                else Some st);
         st \<leftarrow> kfree_inode ip st;
         Some (c_int bytes_written, st)
       }
     }
   }"


section \<open>Encodings\<close>

lemma length_concat_words [simp]: "length (concat (map (le_bytes 4) ws)) = 4 * length ws"
  by (induction ws) auto

lemma slice_words:
  "k < length ws \<Longrightarrow> slice (4 * k) 4 (concat (map (le_bytes 4) ws)) = le_bytes 4 (ws ! k)"
  using slice_concat [of "map (le_bytes 4) ws" 4 k] by simp

lemma le_word_le_bytes_sizes:
  "le_word (le_bytes 4 (x :: u32)) = x" "le_word (le_bytes 2 (y :: u16)) = y" "le_word (le_bytes 8 (z :: u64)) = z"
  by (simp_all add: le_word_le_bytes)

lemma inode_of_inode_bytes:
  assumes "length (i_direct_blocks i) = 10"
  shows "inode_of (inode_bytes i) = i"
proof -
  have "slice (40 + 4 * k) 4 (inode_bytes i) = le_bytes 4 (i_direct_blocks i ! k)" if "k < 10" for k
    using that assms by (simp add: inode_bytes_def slice_append_right slice_append_left slice_words)
  then have "map (\<lambda>k. le_word (slice (40 + 4 * k) 4 (inode_bytes i))) [0..<10] = i_direct_blocks i"
    using assms by (intro nth_equalityI) (simp_all add: le_word_le_bytes_sizes)
  moreover have "slice 0 4 (inode_bytes i) = le_bytes 4 (i_id i)" "slice 4 2 (inode_bytes i) = le_bytes 2 (i_type i)"
    "slice 6 2 (inode_bytes i) = le_bytes 2 (i_permissions i)" "slice 8 4 (inode_bytes i) = le_bytes 4 (i_owner_id i)"
    "slice 12 4 (inode_bytes i) = le_bytes 4 (i_group_id i)" "slice 16 8 (inode_bytes i) = le_bytes 8 (i_size i)"
    "slice 24 8 (inode_bytes i) = le_bytes 8 (i_creation_time i)"
    "slice 32 8 (inode_bytes i) = le_bytes 8 (i_modification_time i)"
    "slice 80 4 (inode_bytes i) = le_bytes 4 (i_indirect_block i)"
    "slice 84 4 (inode_bytes i) = le_bytes 4 (i_double_indirect_block i)"
    using assms by (simp_all add: inode_bytes_def slice_simps)
  ultimately show ?thesis by (simp add: inode_of_def le_word_le_bytes_sizes)
qed

interpretation inode: codec inode_bytes inode_of "\<lambda>i. length (i_direct_blocks i) = 10" SIZEOF_INODE
proof
  show "length (inode_bytes i) = SIZEOF_INODE" if "length (i_direct_blocks i) = 10" for i
    using that by (simp add: inode_bytes_def)
qed (rule inode_of_inode_bytes)

lemma superblock_slice:
  assumes "k < 11"
  shows "slice (4 * k) 4 (superblock_bytes s) =
    le_bytes 4 ([magic s, block_size s, total_blocks s, free_blocks s, total_inodes s, free_inodes s, root_inode s,
      inode_bitmap_block s, block_bitmap_block s, inode_table_start_block s, data_start_block s] ! k)"
  unfolding superblock_bytes_def using assms by (intro slice_words) simp

interpretation superblock: codec superblock_bytes superblock_of "\<lambda>_. True" SIZEOF_SUPERBLOCK
proof
  fix s
  show "length (superblock_bytes s) = SIZEOF_SUPERBLOCK" unfolding superblock_bytes_def by simp
  show "superblock_of (superblock_bytes s) = s"
    using superblock_slice [of 0 s] superblock_slice [of 1 s] superblock_slice [of 2 s] superblock_slice [of 3 s]
      superblock_slice [of 4 s] superblock_slice [of 5 s] superblock_slice [of 6 s] superblock_slice [of 7 s]
      superblock_slice [of 8 s] superblock_slice [of 9 s] superblock_slice [of 10 s]
    by (simp add: superblock_of_def le_word_le_bytes_sizes)
qed

section \<open>Bitmaps\<close>

lemma bitmap_bit_set:
  assumes "i div 8 < length bm" and "j div 8 < length bm"
  shows "bitmap_bit (bitmap_set i bm) j \<longleftrightarrow> i = j \<or> bitmap_bit bm j"
proof (cases "i div 8 = j div 8")
  case True
  have "i mod 8 = j mod 8 \<longleftrightarrow> i = j" using True by (metis div_mult_mod_eq)
  with True assms show ?thesis
    by (auto simp: bitmap_bit_def bitmap_set_def bit_simps)
next
  case False
  then show ?thesis using assms by (auto simp: bitmap_bit_def bitmap_set_def)
qed

lemma bitmap_bit_clear:
  assumes "i div 8 < length bm" and "j div 8 < length bm"
  shows "bitmap_bit (bitmap_clear i bm) j \<longleftrightarrow> i \<noteq> j \<and> bitmap_bit bm j"
proof (cases "i div 8 = j div 8")
  case True
  have "i mod 8 = j mod 8 \<longleftrightarrow> i = j" using True by (metis div_mult_mod_eq)
  with True assms show ?thesis
    by (auto simp: bitmap_bit_def bitmap_clear_def bit_simps)
next
  case False
  then show ?thesis using assms by (auto simp: bitmap_bit_def bitmap_clear_def)
qed

lemma length_bitmap [simp]: "length (bitmap_set i bm) = length bm" "length (bitmap_clear i bm) = length bm"
  by (simp_all add: bitmap_set_def bitmap_clear_def)

lemma bitmap_find_spec:
  assumes "i + k \<le> 8 * length bm"
  shows "(bitmap_find k i bm = Some None \<and> (\<forall>j. i \<le> j \<and> j < i + k \<longrightarrow> bitmap_bit bm j)) \<or>
    (\<exists>r. bitmap_find k i bm = Some (Some r) \<and> i \<le> r \<and> r < i + k \<and> \<not> bitmap_bit bm r \<and>
       (\<forall>j. i \<le> j \<and> j < r \<longrightarrow> bitmap_bit bm j))"
  using assms
proof (induction k arbitrary: i)
  case (Suc k)
  have in_range: "i div 8 < length bm" using Suc.prems by simp
  show ?case
  proof (cases "bitmap_bit bm i")
    case True
    have "Suc i + k \<le> 8 * length bm" using Suc.prems by simp
    from Suc.IH [OF this] True in_range show ?thesis
      by (auto simp: not_le) (metis Suc_leI le_eq_less_or_eq)+
  next
    case False
    with in_range show ?thesis by auto
  qed
qed auto


end
