(* ===== verification/Fs_Spec.thy ===== *)
theory Fs_Spec
  imports Fs
begin

text \<open>
  What the file system operations do, for a block device that stores what is written to it.  The
  contract of the device is the locale \<open>block_store\<close>; the lemmas about inodes, bitmaps, files and
  directories are proved in it once.
\<close>

locale block_store =
  fixes env :: "'d fs_env"
    and blk :: "'d \<Rightarrow> u32 \<Rightarrow> u8 list"
    and dok :: "'d \<Rightarrow> bool"
  assumes rd: "dok d \<Longrightarrow> length buf = FS_BLOCK_SIZE \<Longrightarrow>
      \<exists>d'. bd_read env (ucast b) 1 buf d = Some (0, blk d b, d') \<and> dok d' \<and> blk d' = blk d"
    and wr: "dok d \<Longrightarrow> length buf = FS_BLOCK_SIZE \<Longrightarrow>
      \<exists>d'. bd_write env (ucast b) 1 buf d = Some (0, d') \<and> dok d' \<and> blk d' = (blk d)(b := buf)"
    and len: "dok d \<Longrightarrow> length (blk d b) = FS_BLOCK_SIZE"
    and stack: "length (stack_bytes env) = FS_BLOCK_SIZE"
begin

lemma read_block_ok:
  assumes "dok (disk st)" and "length buf = FS_BLOCK_SIZE"
  obtains d where "read_block env b buf st = Some (0, blk (disk st) b, st\<lparr>disk := d\<rparr>)" and "dok d"
    and "blk d = blk (disk st)"
proof -
  from rd [OF assms] obtain d where "bd_read env (ucast b) 1 buf (disk st) = Some (0, blk (disk st) b, d)"
    "dok d" "blk d = blk (disk st)" by blast
  then show thesis by (intro that [of d]) (simp_all add: read_block_def)
qed

lemma write_block_ok:
  assumes "dok (disk st)" and "length buf = FS_BLOCK_SIZE"
  obtains d where "write_block env b buf st = Some (0, st\<lparr>disk := d\<rparr>)" and "dok d"
    and "blk d = (blk (disk st))(b := buf)"
proof -
  from wr [OF assms] obtain d where "bd_write env (ucast b) 1 buf (disk st) = Some (0, d)"
    "dok d" "blk d = (blk (disk st))(b := buf)" by blast
  then show thesis by (intro that [of d]) (simp_all add: write_block_def)
qed

end

section \<open>Inodes\<close>

text \<open>The inode the table on the disk holds for an id.\<close>

definition inode_at :: "(u32 \<Rightarrow> u8 list) \<Rightarrow> superblock \<Rightarrow> u32 \<Rightarrow> inode" where
  "inode_at bl sb i = inode_of (slice (inode_offset i) SIZEOF_INODE (bl (inode_block sb i)))"

definition inode_put :: "u32 \<Rightarrow> inode \<Rightarrow> superblock \<Rightarrow> (u32 \<Rightarrow> u8 list) \<Rightarrow> (u32 \<Rightarrow> u8 list)" where
  "inode_put i v sb bl =
     bl(inode_block sb i := splice (inode_offset i) (inode_bytes v) (bl (inode_block sb i)))"

definition valid_id :: "superblock \<Rightarrow> u32 \<Rightarrow> bool" where
  "valid_id sb i \<longleftrightarrow> i \<noteq> 0 \<and> i \<le> total_inodes sb"

text \<open>The table does not wrap around the block numbers.\<close>

definition table_ok :: "superblock \<Rightarrow> bool" where
  "table_ok sb \<longleftrightarrow> unat (inode_table_start_block sb) + unat (total_inodes sb) div 46 < 2 ^ 32"

lemma inode_offset_bound: "inode_offset i + SIZEOF_INODE \<le> FS_BLOCK_SIZE"
proof -
  have "unat ((i - 1) mod 46) < 46" by (simp add: unat_mod_distrib)
  then show ?thesis by (simp add: inode_offset_def)
qed

lemma unat_pred32: "(i :: u32) \<noteq> 0 \<Longrightarrow> unat (i - 1) = unat i - 1"
  by (rule unat_minus_one)

lemma inode_block_unat:
  assumes "valid_id sb i" and "table_ok sb"
  shows "unat (inode_block sb i) = unat (inode_table_start_block sb) + (unat i - 1) div 46"
proof -
  have i: "unat (i - 1) = unat i - 1" "unat i \<le> unat (total_inodes sb)"
    using assms(1) by (simp_all add: valid_id_def unat_pred32 word_le_nat_alt)
  have "(unat i - 1) div 46 \<le> unat (total_inodes sb) div 46" using i(2) by (intro div_le_mono) simp
  then show ?thesis
    using assms(2) i(1) by (simp add: inode_block_def table_ok_def unat_word_ariths unat_div_distrib)
qed

text \<open>Different inodes have different places in the table.\<close>

lemma inode_places_apart:
  assumes "valid_id sb i" and "valid_id sb j" and "table_ok sb" and "i \<noteq> j"
    and "inode_block sb i = inode_block sb j"
  shows "inode_offset i + SIZEOF_INODE \<le> inode_offset j \<or> inode_offset j + SIZEOF_INODE \<le> inode_offset i"
proof -
  have d: "(unat i - 1) div 46 = (unat j - 1) div 46"
    using inode_block_unat [OF assms(1,3)] inode_block_unat [OF assms(2,3)] assms(5) by simp
  have o: "inode_offset k = (unat k - 1) mod 46 * SIZEOF_INODE" if "valid_id sb k" for k
    using that by (simp add: inode_offset_def unat_mod_distrib unat_pred32 valid_id_def)
  have "unat i \<noteq> unat j" using assms(4) by (simp add: word_unat_eq_iff)
  moreover have "0 < unat i" "0 < unat j" using assms(1,2) by (simp_all add: valid_id_def unat_gt_0)
  ultimately have "unat i - 1 \<noteq> unat j - 1" by simp
  with d have "(unat i - 1) mod 46 \<noteq> (unat j - 1) mod 46" by (metis div_mult_mod_eq)
  then show ?thesis unfolding o [OF assms(1)] o [OF assms(2)] by linarith
qed

lemma inode_at_put:
  assumes "length (i_direct_blocks v) = 10" and "length (bl (inode_block sb i)) = FS_BLOCK_SIZE"
  shows "inode_at (inode_put i v sb bl) sb i = v"
  using inode.dec_splice [OF assms(1)] inode_offset_bound [of i] assms(2)
  by (simp add: inode_at_def inode_put_def)

lemma inode_at_put_other:
  assumes "length (i_direct_blocks v) = 10" and "length (bl (inode_block sb i)) = FS_BLOCK_SIZE"
    and "valid_id sb i" and "valid_id sb j" and "table_ok sb" and "i \<noteq> j"
  shows "inode_at (inode_put i v sb bl) sb j = inode_at bl sb j"
proof (cases "inode_block sb i = inode_block sb j")
  case True
  then show ?thesis
    using inode.dec_splice_other [OF assms(1), of "inode_offset i" "bl (inode_block sb i)" "inode_offset j"]
      inode_places_apart [OF assms(3-6) True] inode_offset_bound [of i] inode_offset_bound [of j] assms(2)
    by (auto simp: inode_at_def inode_put_def)
next
  case False
  then show ?thesis by (simp add: inode_at_def inode_put_def)
qed

context block_store begin

lemma write_inode_ok:
  assumes "dok (disk st)" and "valid_id (current_superblock st) i" and "length (i_direct_blocks v) = 10"
  obtains d where "write_inode env i v st = Some (0, st\<lparr>disk := d\<rparr>)" and "dok d"
    and "blk d = inode_put i v (current_superblock st) (blk (disk st))"
proof -
  let ?b = "inode_block (current_superblock st) i"
  from assms(1) stack obtain d1 where d1: "read_block env ?b (stack_bytes env) st =
      Some (0, blk (disk st) ?b, st\<lparr>disk := d1\<rparr>)" "dok d1" "blk d1 = blk (disk st)"
    by (rule read_block_ok)
  let ?buf = "splice (inode_offset i) (inode_bytes v) (blk (disk st) ?b)"
  have "length ?buf = FS_BLOCK_SIZE"
    using inode.splice_length [OF assms(3)] inode_offset_bound [of i] len [OF assms(1)] by simp
  then obtain d where d: "write_block env ?b ?buf (st\<lparr>disk := d1\<rparr>) = Some (0, st\<lparr>disk := d1\<rparr>\<lparr>disk := d\<rparr>)"
    "dok d" "blk d = (blk d1)(?b := ?buf)"
    using d1(2) write_block_ok [of "st\<lparr>disk := d1\<rparr>" ?buf ?b] by auto
  have "write_inode env i v st = Some (0, st\<lparr>disk := d\<rparr>)"
    using assms(2) d1(1) d(1) by (auto simp: write_inode_def valid_id_def Let_def)
  with d d1(3) show thesis by (intro that [of d]) (simp_all add: inode_put_def)
qed

end

text \<open>An inode copy in the heap that is released at the end.\<close>

lemma borrow:
  assumes "heap_ok h L" and "heap_fits h 88"
  obtains p h1 h2 where "kmalloc h 88 = Some (p, h1)" and "p \<noteq> 0" and "kfree h1 p = Some h2"
    and "heap_ok h2 L" and "heap_fits h2 88" and "unchanged L (mem h) (mem h2)"
proof -
  have sz: "0 < unat (88 :: u64)" "unat (88 :: u64) + 7 < 2 ^ 64" "(88 :: u64) \<noteq> 0" by simp_all
  from kheap.alloc_spec [OF assms(1) sz(1,2)] obtain p h1 where a: "kmalloc h 88 = Some (p, h1)" by blast
  have p: "p \<noteq> 0" using kheap.alloc_fits [OF assms(1) sz(3) assms(2) a] .
  from kheap.alloc_release [OF assms(1) sz(1,2) a] obtain h2 where
    h2: "kfree h1 p = Some h2" "heap_ok h2 L" "unchanged L (mem h) (mem h2)" by blast
  moreover have "heap_fits h2 88" using kheap.release_fits [OF assms(1) sz(3) a p h2(1)] .
  ultimately show thesis using a p that by blast
qed

context block_store begin

lemma get_inode_ok:
  assumes "dok (disk st)" and "valid_id (current_superblock st) i"
    and "kmalloc (fs_heap st) 88 = Some (p, h)" and "p \<noteq> 0"
  obtains d where "get_inode env i st =
      Some (Some (p, inode_at (blk (disk st)) (current_superblock st) i), st\<lparr>disk := d, fs_heap := h\<rparr>)"
    and "dok d" and "blk d = blk (disk st)"
proof -
  let ?b = "inode_block (current_superblock st) i"
  from assms(1) stack obtain d where d: "read_block env ?b (stack_bytes env) st =
      Some (0, blk (disk st) ?b, st\<lparr>disk := d\<rparr>)" "dok d" "blk d = blk (disk st)"
    by (rule read_block_ok)
  with assms(2-4) show thesis
    by (intro that [of d]) (auto simp: get_inode_def valid_id_def fs_kmalloc_def inode_at_def)
qed

end

section \<open>Allocating blocks\<close>

definition bitmap_ok :: "u8 list \<Rightarrow> u32 \<Rightarrow> bool" where
  "bitmap_ok bm n \<longleftrightarrow> FS_BLOCK_SIZE \<le> length bm \<and> unat n \<le> 8 * length bm"

lemma bitmap_ok_set [simp]: "bitmap_ok (bitmap_set i bm) n = bitmap_ok bm n"
  by (simp add: bitmap_ok_def)

lemma unat_Suc32: "Suc i \<le> unat (n :: u32) \<Longrightarrow> unat (of_nat i + 1 :: u32) = Suc i"
proof -
  assume "Suc i \<le> unat n"
  moreover have "unat n < 2 ^ 32" using unsigned_less [where 'a = nat and w = n] by simp
  ultimately have "Suc i < 2 ^ 32" by linarith
  then have "unat (of_nat (Suc i) :: u32) = Suc i" unfolding unat_of_nat by simp
  then show ?thesis by (simp add: add.commute)
qed

context block_store begin

lemma allocate_block_ok:
  assumes "dok (disk st)" and "block_bitmap st = Some bm" and "bitmap_ok bm (total_blocks (current_superblock st))"
  obtains (full) "allocate_block env st = Some (0, st)"
      and "\<forall>j < unat (total_blocks (current_superblock st)). bitmap_bit bm j"
  | (fresh) b d where "allocate_block env st = Some (b, st\<lparr>block_bitmap := Some (bitmap_set (unat b - 1) bm),
        current_superblock := (current_superblock st)\<lparr>free_blocks := free_blocks (current_superblock st) - 1\<rparr>,
        disk := d\<rparr>)"
      and "b \<noteq> 0" and "b \<le> total_blocks (current_superblock st)" and "\<not> bitmap_bit bm (unat b - 1)"
      and "dok d" and "blk d = (blk (disk st))(block_bitmap_block (current_superblock st) :=
             take FS_BLOCK_SIZE (bitmap_set (unat b - 1) bm))"
proof -
  let ?sb = "current_superblock st"
  from assms(3) bitmap_find_spec [of 0 "unat (total_blocks ?sb)" bm]
  consider (none) "bitmap_find (unat (total_blocks ?sb)) 0 bm = Some None"
      "\<forall>j < unat (total_blocks ?sb). bitmap_bit bm j"
    | (some) r where "bitmap_find (unat (total_blocks ?sb)) 0 bm = Some (Some r)" "r < unat (total_blocks ?sb)"
      "\<not> bitmap_bit bm r"
    by (auto simp: bitmap_ok_def)
  then show thesis
  proof cases
    case none
    then show thesis using assms(2) by (intro full) (simp_all add: allocate_block_def)
  next
    case (some r)
    let ?bm = "bitmap_set r bm"
    let ?st = "st\<lparr>block_bitmap := Some ?bm, current_superblock := ?sb\<lparr>free_blocks := free_blocks ?sb - 1\<rparr>\<rparr>"
    have r: "unat (of_nat r + 1 :: u32) = Suc r" using some(2) by (intro unat_Suc32 [of _ "total_blocks ?sb"]) simp
    then have nz: "(of_nat r + 1 :: u32) \<noteq> 0" by (metis nat.simps(3) unat_0)
    have "dok (disk ?st)" "length (take FS_BLOCK_SIZE ?bm) = FS_BLOCK_SIZE"
      using assms(1,3) by (simp_all add: bitmap_ok_def)
    then obtain d where d: "write_block env (block_bitmap_block ?sb) (take FS_BLOCK_SIZE ?bm) ?st =
        Some (0, ?st\<lparr>disk := d\<rparr>)" "dok d"
      "blk d = (blk (disk ?st))(block_bitmap_block ?sb := take FS_BLOCK_SIZE ?bm)"
      by (rule write_block_ok)
    have "allocate_block env st = Some (of_nat r + 1, ?st\<lparr>disk := d\<rparr>)"
      using some(1) assms(2) d(1) by (simp add: allocate_block_def Let_def)
    moreover have "of_nat r + 1 \<le> total_blocks ?sb" using r some(2) by (simp add: word_le_nat_alt)
    ultimately show thesis using fresh [of "of_nat r + 1" d] some(3) d nz r by simp
  qed
qed

end


section \<open>Files\<close>

text \<open>The bytes the ten direct blocks hold, whether or not they belong to the file yet.\<close>

definition fbytes :: "(u32 \<Rightarrow> u8 list) \<Rightarrow> inode \<Rightarrow> u8 list" where
  "fbytes bl i = concat (map bl (i_direct_blocks i))"

abbreviation MAX_FILE :: nat where "MAX_FILE \<equiv> 40960"

lemma length_fbytes:
  assumes "length (i_direct_blocks i) = 10" and "\<And>b. length (bl b) = FS_BLOCK_SIZE"
  shows "length (fbytes bl i) = MAX_FILE"
  using assms length_concat_blocks [of "map bl (i_direct_blocks i)" FS_BLOCK_SIZE] by (simp add: fbytes_def)

lemma slice_fbytes:
  assumes "k < length (i_direct_blocks i)" and "\<And>b. length (bl b) = FS_BLOCK_SIZE" and "o1 + n \<le> FS_BLOCK_SIZE"
  shows "slice (FS_BLOCK_SIZE * k + o1) n (fbytes bl i) = slice o1 n (bl (i_direct_blocks i ! k))"
proof -
  have "slice (FS_BLOCK_SIZE * k) FS_BLOCK_SIZE (fbytes bl i) = bl (i_direct_blocks i ! k)"
    unfolding fbytes_def using assms(1,2) by (subst slice_concat) auto
  moreover have "slice (FS_BLOCK_SIZE * k + o1) n (fbytes bl i) =
      slice o1 n (slice (FS_BLOCK_SIZE * k) FS_BLOCK_SIZE (fbytes bl i))"
    using assms(3) by (simp add: slice_slice)
  ultimately show ?thesis by simp
qed

text \<open>How many bytes one iteration of the loops moves.\<close>

definition chunk :: "u64 \<Rightarrow> u64 \<Rightarrow> u64 \<Rightarrow> u64" where
  "chunk offset count done1 =
     (let n = ucast (4096 - (ucast ((offset + done1) mod 4096) :: u32))
      in if n > count - done1 then count - done1 else n)"

lemma loop_words:
  fixes offset count done1 :: u64
  assumes "unat offset + unat count < 2 ^ 44" and "done1 < count"
  defines "c \<equiv> unat offset + unat done1"
  shows "unat (ucast ((offset + done1) div 4096) :: u32) = c div 4096"
    and "unat (ucast ((offset + done1) mod 4096) :: u32) = c mod 4096"
    and "unat (chunk offset count done1) = min (4096 - c mod 4096) (unat count - unat done1)"
    and "unat (done1 + chunk offset count done1) = unat done1 + unat (chunk offset count done1)"
proof -
  have lt: "unat done1 < unat count" using assms(2) by (simp add: word_less_nat_alt)
  have c: "unat (offset + done1) = c" using assms(1) lt by (simp add: c_def unat_word_ariths)
  have "c < 2 ^ 44" using assms(1) lt by (simp add: c_def)
  then have "c div 4096 < 2 ^ 32" by (simp add: less_mult_imp_div_less)
  then show "unat (ucast ((offset + done1) div 4096) :: u32) = c div 4096"
    by (simp add: unsigned_ucast_eq unat_div_distrib c take_bit_nat_eq_self)
  have mod: "c mod 4096 < 4096" by simp
  then show bo: "unat (ucast ((offset + done1) mod 4096) :: u32) = c mod 4096"
    by (simp add: unsigned_ucast_eq unat_mod_distrib c take_bit_nat_eq_self)
  let ?bo = "ucast ((offset + done1) mod 4096) :: u32"
  have "unat (4096 - ?bo) = 4096 - c mod 4096"
    using mod bo by (subst unat_sub) (simp_all add: word_le_nat_alt)
  then have n: "unat (ucast (4096 - ?bo) :: u64) = 4096 - c mod 4096"
    by (simp add: unsigned_ucast_eq take_bit_nat_eq_self)
  have rem: "unat (count - done1) = unat count - unat done1" using lt by (simp add: unat_sub word_le_nat_alt)
  show ch: "unat (chunk offset count done1) = min (4096 - c mod 4096) (unat count - unat done1)"
    unfolding chunk_def Let_def using n rem by (simp add: word_less_nat_alt)
  have "unat done1 + unat (chunk offset count done1) < 2 ^ 64"
    unfolding ch using lt unat_lt64 [of count] by simp
  then show "unat (done1 + chunk offset count done1) = unat done1 + unat (chunk offset count done1)"
    by (simp add: unat_word_ariths)
qed

text \<open>The block numbers that hold the bytes \<open>[a, a + n)\<close> of a file are set.\<close>

definition covered :: "inode \<Rightarrow> nat \<Rightarrow> nat \<Rightarrow> bool" where
  "covered i a n \<longleftrightarrow> (\<forall>x. a \<le> x \<and> x < a + n \<longrightarrow> x div 4096 < 10 \<and> i_direct_blocks i ! (x div 4096) \<noteq> 0)"

context block_store begin

lemma read_loop_ok:
  assumes "dok (disk st)" and "length buf = FS_BLOCK_SIZE" and "unat offset + unat count < 2 ^ 44"
    and "length (i_direct_blocks i) = 10" and "done1 \<le> count"
    and "covered i (unat offset + unat done1) (unat count - unat done1)"
  shows "\<exists>d. read_loop env i offset count buf done1 out st =
      Some (True, count, out @ slice (unat offset + unat done1) (unat count - unat done1) (fbytes (blk (disk st)) i),
            st\<lparr>disk := d\<rparr>) \<and> dok d \<and> blk d = blk (disk st)"
  using assms
proof (induction "unat count - unat done1" arbitrary: done1 out st buf rule: less_induct)
  case less
  let ?c = "unat offset + unat done1"
  show ?case
  proof (cases "done1 < count")
    case False
    with less.prems(5) have "done1 = count" by simp
    then show ?thesis using less.prems(1)
      by (subst read_loop.simps) (auto simp: slice_def intro: exI [of _ "disk st"])
  next
    case True
    note w = loop_words [OF less.prems(3) True]
    let ?n = "chunk offset count done1" and ?k = "?c div 4096" and ?o = "?c mod 4096"
    have lt: "unat done1 < unat count" using True by (simp add: word_less_nat_alt)
    then have k: "?k < 10" "i_direct_blocks i ! ?k \<noteq> 0"
      using less.prems(6) by (simp_all add: covered_def)
    have idx: "(ucast ((offset + done1) div 4096) :: u32) < 10" using w(1) k(1) by (simp add: word_less_nat_alt)
    from less.prems(1,2) obtain d1 where d1: "read_block env (i_direct_blocks i ! ?k) buf st =
        Some (0, blk (disk st) (i_direct_blocks i ! ?k), st\<lparr>disk := d1\<rparr>)" "dok d1" "blk d1 = blk (disk st)"
      by (rule read_block_ok)
    let ?data = "slice ?o (unat ?n) (blk (disk st) (i_direct_blocks i ! ?k))"
    have step: "read_loop env i offset count buf done1 out st =
        read_loop env i offset count (blk (disk st) (i_direct_blocks i ! ?k)) (done1 + ?n) (out @ ?data) (st\<lparr>disk := d1\<rparr>)"
      using True idx k(2) w(1,2) d1(1) by (subst read_loop.simps) (simp add: Let_def chunk_def)
    have le: "unat ?n \<le> unat count - unat done1" and pos: "0 < unat ?n" and on: "?o + unat ?n \<le> FS_BLOCK_SIZE"
      unfolding w(3) using lt by simp_all
    have "unat (done1 + ?n) \<le> unat count" using w(4) le lt by simp
    then have pre: "unat count - unat (done1 + ?n) < unat count - unat done1" "done1 + ?n \<le> count"
      using w(4) pos lt by (simp_all add: word_le_nat_alt)
    have cov: "covered i (unat offset + unat (done1 + ?n)) (unat count - unat (done1 + ?n))"
      using less.prems(6) w(4) le by (auto simp: covered_def)
    from less.hyps [where st = "st\<lparr>disk := d1\<rparr>" and out = "out @ ?data" and buf = "blk (disk st) (i_direct_blocks i ! ?k)",
        OF pre(1) _ len [OF less.prems(1)] less.prems(3,4) pre(2) cov] d1(2,3)
    obtain d where d: "read_loop env i offset count (blk (disk st) (i_direct_blocks i ! ?k)) (done1 + ?n) (out @ ?data) (st\<lparr>disk := d1\<rparr>) =
        Some (True, count, (out @ ?data) @ slice (unat offset + unat (done1 + ?n)) (unat count - unat (done1 + ?n))
          (fbytes (blk (disk st)) i), st\<lparr>disk := d\<rparr>)" "dok d" "blk d = blk (disk st)"
      by auto
    have "?data = slice ?c (unat ?n) (fbytes (blk (disk st)) i)"
      using slice_fbytes [of ?k i "blk (disk st)" ?o "unat ?n"] k(1) on less.prems(1,4) len by simp
    then have "?data @ slice (unat offset + unat (done1 + ?n)) (unat count - unat (done1 + ?n)) (fbytes (blk (disk st)) i)
        = slice ?c (unat count - unat done1) (fbytes (blk (disk st)) i)"
      using slice_split [OF le, of ?c "fbytes (blk (disk st)) i"] w(4) by (simp add: add.assoc)
    with step d show ?thesis by (intro exI [of _ d]) simp
  qed
qed

end


lemma nth_concat_blocks:
  fixes xs :: "u8 list list"
  assumes "\<forall>x \<in> set xs. length x = w" and "j < w * length xs"
  shows "concat xs ! j = xs ! (j div w) ! (j mod w)"
proof -
  have w: "0 < w" using assms(2) by (cases w) auto
  have k: "j div w < length xs" using assms(2) w by (simp add: div_less_iff_less_mult mult.commute)
  have "concat xs ! (w * (j div w) + j mod w) = slice (w * (j div w)) w (concat xs) ! (j mod w)"
    using w mult_le_mono2 [OF Suc_leI [OF k], of w] length_concat_blocks [OF assms(1)]
    by (subst nth_slice) auto
  then show ?thesis using slice_concat [OF assms(1) k] by simp
qed

lemma nth_fbytes:
  assumes "length (i_direct_blocks i) = 10" and "\<And>b. length (bl b) = FS_BLOCK_SIZE" and "x < MAX_FILE"
  shows "fbytes bl i ! x = bl (i_direct_blocks i ! (x div 4096)) ! (x mod 4096)"
proof -
  have "x div 4096 < 10" using assms(3) by (simp add: less_mult_imp_div_less)
  then show ?thesis
    unfolding fbytes_def using assms nth_concat_blocks [of "map bl (i_direct_blocks i)" FS_BLOCK_SIZE x] by simp
qed

section \<open>The layout of the disk\<close>

text \<open>The metadata lies in the blocks up to \<open>data_start_block\<close>, which the bitmap marks as used.\<close>

definition layout_ok :: "superblock \<Rightarrow> u8 list \<Rightarrow> bool" where
  "layout_ok sb bm \<longleftrightarrow> table_ok sb \<and> bitmap_ok bm (total_blocks sb) \<and>
     unat (inode_table_start_block sb) + unat (total_inodes sb) div 46 \<le> unat (data_start_block sb) \<and>
     block_bitmap_block sb < inode_table_start_block sb \<and> inode_bitmap_block sb < inode_table_start_block sb \<and>
     inode_bitmap_block sb \<noteq> block_bitmap_block sb \<and>
     data_start_block sb < total_blocks sb \<and>
     (\<forall>j \<le> unat (data_start_block sb). bitmap_bit bm j)"

text \<open>The blocks of a file are marked data blocks, each used once.  Block \<open>b\<close> has the bit \<open>b - 1\<close>, and the bits up
  to \<open>data_start_block\<close> are those of the metadata.\<close>

definition file_ok :: "superblock \<Rightarrow> u8 list \<Rightarrow> inode \<Rightarrow> bool" where
  "file_ok sb bm i \<longleftrightarrow> length (i_direct_blocks i) = 10 \<and>
     (\<forall>k < 10. i_direct_blocks i ! k \<noteq> 0 \<longrightarrow> data_start_block sb < i_direct_blocks i ! k \<and>
        unat (i_direct_blocks i ! k) - 1 \<noteq> unat (data_start_block sb) \<and>
        i_direct_blocks i ! k \<le> total_blocks sb \<and> bitmap_bit bm (unat (i_direct_blocks i ! k) - 1)) \<and>
     (\<forall>j < 10. \<forall>k < 10. j \<noteq> k \<longrightarrow> i_direct_blocks i ! j \<noteq> 0 \<longrightarrow> i_direct_blocks i ! j \<noteq> i_direct_blocks i ! k)"

lemma free_blocks_irrelevant [simp]:
  "inode_at bl (sb\<lparr>free_blocks := n\<rparr>) j = inode_at bl sb j" "valid_id (sb\<lparr>free_blocks := n\<rparr>) j = valid_id sb j"
  "layout_ok (sb\<lparr>free_blocks := n\<rparr>) bm = layout_ok sb bm" "file_ok (sb\<lparr>free_blocks := n\<rparr>) bm i = file_ok sb bm i"
  "inode_put j v (sb\<lparr>free_blocks := n\<rparr>) bl = inode_put j v sb bl"
  by (simp_all add: inode_at_def inode_block_def valid_id_def layout_ok_def table_ok_def file_ok_def inode_put_def)

lemma bitmap_index:
  assumes "bitmap_ok bm n" and "b \<noteq> 0" and "b \<le> n"
  shows "(unat b - 1) div 8 < length bm"
proof -
  have "unat b - 1 < 8 * length bm" using assms by (auto simp: bitmap_ok_def word_le_nat_alt unat_gt_0 [symmetric])
  then show ?thesis by simp
qed

lemma layout_ok_set:
  assumes "layout_ok sb bm" and "b \<noteq> 0" and "b \<le> total_blocks sb"
  shows "layout_ok sb (bitmap_set (unat b - 1) bm)"
proof -
  have ok: "bitmap_ok bm (total_blocks sb)" using assms(1) by (simp add: layout_ok_def)
  have "bitmap_bit (bitmap_set (unat b - 1) bm) j" if "j \<le> unat (data_start_block sb)" for j
  proof -
    have "j < unat (total_blocks sb)" using that assms(1) by (auto simp: layout_ok_def word_less_nat_alt)
    then have "j div 8 < length bm" using ok by (auto simp: bitmap_ok_def)
    then show ?thesis using bitmap_bit_set [OF bitmap_index [OF ok assms(2,3)]] that assms(1) by (auto simp: layout_ok_def)
  qed
  with assms(1) show ?thesis by (simp add: layout_ok_def)
qed

lemma file_ok_set:
  assumes "layout_ok sb bm" and "file_ok sb bm i" and "b \<noteq> 0" and "b \<le> total_blocks sb"
    and "\<not> bitmap_bit bm (unat b - 1)" and "k < 10" and "i_direct_blocks i ! k = 0"
  shows "file_ok sb (bitmap_set (unat b - 1) bm) (i\<lparr>i_direct_blocks := (i_direct_blocks i)[k := b]\<rparr>)"
    and "data_start_block sb < b"
proof -
  let ?ds = "i_direct_blocks i" and ?bm = "bitmap_set (unat b - 1) bm"
  have ok: "bitmap_ok bm (total_blocks sb)" and len10: "length ?ds = 10"
    using assms(1,2) by (simp_all add: layout_ok_def file_ok_def)
  have nm: "\<not> unat b - 1 \<le> unat (data_start_block sb)" using assms(1,5) by (auto simp: layout_ok_def)
  from nm show ds: "data_start_block sb < b" by (simp add: word_less_nat_alt)
  have b: "bitmap_bit ?bm (unat b - 1)"
    using bitmap_bit_set [OF bitmap_index [OF ok assms(3,4)] bitmap_index [OF ok assms(3,4)]] by simp
  have old: "bitmap_bit ?bm (unat (?ds ! j) - 1)" "?ds ! j \<noteq> b" if "j < 10" "?ds ! j \<noteq> 0" for j
  proof -
    have j: "?ds ! j \<le> total_blocks sb" "bitmap_bit bm (unat (?ds ! j) - 1)" using assms(2) that by (auto simp: file_ok_def)
    then show "?ds ! j \<noteq> b" using assms(5) by auto
    show "bitmap_bit ?bm (unat (?ds ! j) - 1)"
      using bitmap_bit_set [OF bitmap_index [OF ok assms(3,4)] bitmap_index [OF ok that(2) j(1)]] j(2) by simp
  qed
  have uniq: "?ds ! j \<noteq> ?ds ! l" if "j < 10" "l < 10" "j \<noteq> l" "?ds ! j \<noteq> 0" for j l
    using assms(2) that by (simp add: file_ok_def)
  show "file_ok sb ?bm (i\<lparr>i_direct_blocks := ?ds[k := b]\<rparr>)"
    unfolding file_ok_def
  proof (intro conjI allI impI)
    fix j assume "j < 10" "i_direct_blocks (i\<lparr>i_direct_blocks := ?ds[k := b]\<rparr>) ! j \<noteq> 0"
    then show "data_start_block sb < i_direct_blocks (i\<lparr>i_direct_blocks := ?ds[k := b]\<rparr>) ! j"
      "unat (i_direct_blocks (i\<lparr>i_direct_blocks := ?ds[k := b]\<rparr>) ! j) - 1 \<noteq> unat (data_start_block sb)"
      "i_direct_blocks (i\<lparr>i_direct_blocks := ?ds[k := b]\<rparr>) ! j \<le> total_blocks sb"
      "bitmap_bit ?bm (unat (i_direct_blocks (i\<lparr>i_direct_blocks := ?ds[k := b]\<rparr>) ! j) - 1)"
      using ds nm b assms(2,4,6) old(1) len10 by (auto simp: nth_list_update file_ok_def)
  next
    fix j l assume "j < 10" "l < 10" "j \<noteq> l" "i_direct_blocks (i\<lparr>i_direct_blocks := ?ds[k := b]\<rparr>) ! j \<noteq> 0"
    then show "i_direct_blocks (i\<lparr>i_direct_blocks := ?ds[k := b]\<rparr>) ! j \<noteq>
        i_direct_blocks (i\<lparr>i_direct_blocks := ?ds[k := b]\<rparr>) ! l"
      using assms(3,6) old(2) [of j] old(2) [of l] len10 uniq [of j l]
      by (cases "?ds ! l = 0") (auto simp: nth_list_update)
  qed (simp add: len10)
qed


lemma layout_blocks:
  assumes "layout_ok sb bm"
  shows "block_bitmap_block sb < data_start_block sb" and "inode_bitmap_block sb < data_start_block sb"
    and "valid_id sb j \<Longrightarrow> inode_block sb j \<le> data_start_block sb"
    and "valid_id sb j \<Longrightarrow> inode_block sb j \<noteq> block_bitmap_block sb"
    and "valid_id sb j \<Longrightarrow> inode_block sb j \<noteq> inode_bitmap_block sb"
proof -
  have t: "table_ok sb" and le: "unat (inode_table_start_block sb) + unat (total_inodes sb) div 46 \<le> unat (data_start_block sb)"
    and bl: "unat (block_bitmap_block sb) < unat (inode_table_start_block sb)"
      "unat (inode_bitmap_block sb) < unat (inode_table_start_block sb)"
    using assms by (simp_all add: layout_ok_def word_less_nat_alt)
  show "block_bitmap_block sb < data_start_block sb" "inode_bitmap_block sb < data_start_block sb"
    using le bl by (simp_all add: word_less_nat_alt)
  assume v: "valid_id sb j"
  have "(unat j - 1) div 46 \<le> unat (total_inodes sb) div 46"
    using v by (intro div_le_mono) (auto simp: valid_id_def word_le_nat_alt)
  then show "inode_block sb j \<le> data_start_block sb"
    using inode_block_unat [OF v t] le by (simp add: word_le_nat_alt)
  have "unat (inode_table_start_block sb) \<le> unat (inode_block sb j)" using inode_block_unat [OF v t] by simp
  then show "inode_block sb j \<noteq> block_bitmap_block sb" "inode_block sb j \<noteq> inode_bitmap_block sb" using bl by auto
qed

lemma inode_at_bitmap_block:
  assumes "layout_ok sb bm" and "valid_id sb j"
  shows "inode_at (bl(block_bitmap_block sb := x)) sb j = inode_at bl sb j"
  using layout_blocks(4) [OF assms] by (simp add: inode_at_def)

context block_store begin

lemma file_block_ok:
  assumes "dok (disk st)" and "block_bitmap st = Some bm" and "layout_ok (current_superblock st) bm"
    and "file_ok (current_superblock st) bm i" and "valid_id (current_superblock st) ino"
    and "inode_at (blk (disk st)) (current_superblock st) ino = i" and "k < 10"
  obtains (nospace) "file_block env ino k i st = Some (0, i, st)" and "i_direct_blocks i ! k = 0"
      and "\<forall>j < unat (total_blocks (current_superblock st)). bitmap_bit bm j"
  | (block) b bm' n d i' where
      "i' = i\<lparr>i_direct_blocks := (i_direct_blocks i)[k := b]\<rparr>"
      and "file_block env ino k i st = Some (b, i', st\<lparr>block_bitmap := Some bm',
         current_superblock := (current_superblock st)\<lparr>free_blocks := n\<rparr>, disk := d\<rparr>)"
      and "b \<noteq> 0" and "i_direct_blocks i ! k \<noteq> 0 \<longrightarrow> b = i_direct_blocks i ! k" and "dok d"
      and "layout_ok (current_superblock st) bm'" and "file_ok (current_superblock st) bm' i'"
      and "inode_at (blk d) (current_superblock st) ino = i'"
      and "\<forall>x. data_start_block (current_superblock st) < x \<longrightarrow> blk d x = blk (disk st) x"
      and "\<forall>j. valid_id (current_superblock st) j \<and> j \<noteq> ino \<longrightarrow>
             inode_at (blk d) (current_superblock st) j = inode_at (blk (disk st)) (current_superblock st) j"
proof (cases "i_direct_blocks i ! k = 0")
  case False
  let ?sb = "current_superblock st"
  have st: "st\<lparr>block_bitmap := Some bm, current_superblock := ?sb\<lparr>free_blocks := free_blocks ?sb\<rparr>, disk := disk st\<rparr> = st"
    using assms(2) by (cases st) simp
  have "file_block env ino k i st = Some (i_direct_blocks i ! k, i, st)"
    using False by (simp add: file_block_def)
  then show thesis
    using False assms
    by (intro block [where i' = i and b = "i_direct_blocks i ! k" and bm' = bm and n = "free_blocks ?sb" and d = "disk st"]) (simp_all add: st)
next
  case True
  let ?sb = "current_superblock st"
  have bok: "bitmap_ok bm (total_blocks ?sb)" using assms(3) by (simp add: layout_ok_def)
  from assms(1,2) bok show thesis
  proof (cases rule: allocate_block_ok)
    case full
    then show thesis using True by (intro nospace) (simp_all add: file_block_def)
  next
    case (fresh b d1)
    let ?bm = "bitmap_set (unat b - 1) bm" and ?i = "i\<lparr>i_direct_blocks := (i_direct_blocks i)[k := b]\<rparr>"
    let ?n = "free_blocks ?sb - 1"
    let ?st = "st\<lparr>block_bitmap := Some ?bm, current_superblock := ?sb\<lparr>free_blocks := ?n\<rparr>, disk := d1\<rparr>"
    have fok: "file_ok ?sb ?bm ?i" and ds: "data_start_block ?sb < b"
      using file_ok_set [OF assms(3,4) fresh(2,3,4) assms(7) True] by simp_all
    then have len10: "length (i_direct_blocks ?i) = 10" by (simp add: file_ok_def)
    have "dok (disk ?st)" "valid_id (current_superblock ?st) ino" using fresh(5) assms(5) by simp_all
    then obtain d where d: "write_inode env ino ?i ?st = Some (0, ?st\<lparr>disk := d\<rparr>)" "dok d"
      "blk d = inode_put ino ?i ?sb (blk d1)"
      using len10 by (rule write_inode_ok) auto
    have lay: "layout_ok ?sb ?bm" using layout_ok_set [OF assms(3) fresh(2,3)] .
    have "file_block env ino k i st = Some (b, ?i, ?st\<lparr>disk := d\<rparr>)"
      using True fresh(1,2) d(1) by (simp add: file_block_def Let_def)
    moreover have "inode_at (blk d) ?sb ino = ?i"
      unfolding d(3) using len10 len [OF fresh(5)] by (intro inode_at_put) simp_all
    moreover have "blk d x = blk (disk st) x" if "data_start_block ?sb < x" for x
      using that layout_blocks(1) [OF assms(3)] layout_blocks(3) [OF assms(3,5)]
      unfolding d(3) fresh(6) by (auto simp: inode_put_def)
    moreover have "inode_at (blk d) ?sb j = inode_at (blk (disk st)) ?sb j" if "valid_id ?sb j" "j \<noteq> ino" for j
    proof -
      have "table_ok ?sb" using assms(3) by (simp add: layout_ok_def)
      then have "inode_at (blk d) ?sb j = inode_at (blk d1) ?sb j"
        unfolding d(3) using len10 len [OF fresh(5)] assms(5) that
        by (intro inode_at_put_other) simp_all
      then show ?thesis unfolding fresh(6) using inode_at_bitmap_block [OF assms(3) that(1)] by simp
    qed
    ultimately show thesis
      using fresh(2) d(2) lay fok True by (intro block [where i' = ?i and b = b and bm' = ?bm and n = ?n and d = d]) simp_all
  qed
qed

end


section \<open>Writing a file\<close>

text \<open>Byte \<open>x\<close> of a file.\<close>

definition fbyte :: "(u32 \<Rightarrow> u8 list) \<Rightarrow> inode \<Rightarrow> nat \<Rightarrow> u8" where
  "fbyte bl i x = bl (i_direct_blocks i ! (x div 4096)) ! (x mod 4096)"

definition has_byte :: "inode \<Rightarrow> nat \<Rightarrow> bool" where
  "has_byte i x \<longleftrightarrow> x div 4096 < 10 \<and> i_direct_blocks i ! (x div 4096) \<noteq> 0"

lemma covered_has_byte: "covered i a n \<longleftrightarrow> (\<forall>x. a \<le> x \<and> x < a + n \<longrightarrow> has_byte i x)"
  by (simp add: covered_def has_byte_def)

text \<open>A file whose inode on the disk is \<open>i\<close>.\<close>

definition open_file :: "superblock \<Rightarrow> u8 list \<Rightarrow> (u32 \<Rightarrow> u8 list) \<Rightarrow> u32 \<Rightarrow> inode \<Rightarrow> bool" where
  "open_file sb bm bl ino i \<longleftrightarrow>
     layout_ok sb bm \<and> file_ok sb bm i \<and> valid_id sb ino \<and> inode_at bl sb ino = i"

text \<open>The effect of copying the bytes \<open>[a, n)\<close> of a buffer to a file at \<open>off\<close>: those bytes are there, the
  other bytes of the file and the other inodes are as before, and of the inode only block numbers that
  were zero have changed.\<close>

definition written ::
  "superblock \<Rightarrow> u32 \<Rightarrow> nat \<Rightarrow> u8 list \<Rightarrow> nat \<Rightarrow> nat \<Rightarrow> (u32 \<Rightarrow> u8 list) \<Rightarrow> inode \<Rightarrow> (u32 \<Rightarrow> u8 list) \<Rightarrow> inode \<Rightarrow> bool" where
  "written sb ino off buffer a n bl i bl' i' \<longleftrightarrow>
     (\<exists>ds. i' = i\<lparr>i_direct_blocks := ds\<rparr>) \<and>
     (\<forall>x. has_byte i x \<longrightarrow> i_direct_blocks i' ! (x div 4096) = i_direct_blocks i ! (x div 4096)) \<and>
     (\<forall>x. off + a \<le> x \<and> x < off + n \<longrightarrow> has_byte i' x \<and> fbyte bl' i' x = buffer ! (x - off)) \<and>
     (\<forall>x. has_byte i x \<and> \<not> (off + a \<le> x \<and> x < off + n) \<longrightarrow> fbyte bl' i' x = fbyte bl i x) \<and>
     (\<forall>j. valid_id sb j \<and> j \<noteq> ino \<longrightarrow> inode_at bl' sb j = inode_at bl sb j)"

lemma free_blocks_irrelevant_file [simp]:
  "open_file (sb\<lparr>free_blocks := n\<rparr>) bm bl ino i = open_file sb bm bl ino i"
  "written (sb\<lparr>free_blocks := n\<rparr>) ino off buffer a m bl i bl' i' = written sb ino off buffer a m bl i bl' i'"
  by (simp_all add: open_file_def written_def)

lemma written_refl: "written sb ino off buffer a a bl i bl i"
  by (auto simp: written_def intro: exI [of _ "i_direct_blocks i"])

lemma written_trans:
  assumes "written sb ino off buffer a m bl i bl1 i1" and "written sb ino off buffer m n bl1 i1 bl2 i2"
    and "a \<le> m" and "m \<le> n"
  shows "written sb ino off buffer a n bl i bl2 i2"
  unfolding written_def
proof (intro conjI allI impI)
  have kept: "has_byte i1 x \<and> i_direct_blocks i1 ! (x div 4096) = i_direct_blocks i ! (x div 4096)" if "has_byte i x" for x
    using assms(1) that by (auto simp: written_def has_byte_def)
  have kept2: "has_byte i2 x \<and> i_direct_blocks i2 ! (x div 4096) = i_direct_blocks i1 ! (x div 4096)" if "has_byte i1 x" for x
    using assms(2) that by (auto simp: written_def has_byte_def)
  have first: "has_byte i1 x \<and> fbyte bl1 i1 x = buffer ! (x - off)" if "off + a \<le> x" "x < off + m" for x
    using assms(1) that by (simp add: written_def)
  have second: "has_byte i2 x \<and> fbyte bl2 i2 x = buffer ! (x - off)" if "off + m \<le> x" "x < off + n" for x
    using assms(2) that by (simp add: written_def)
  have same: "fbyte bl2 i2 x = fbyte bl1 i1 x" if "has_byte i1 x" "\<not> (off + m \<le> x \<and> x < off + n)" for x
    using assms(2) that by (simp add: written_def)
  show "\<exists>ds. i2 = i\<lparr>i_direct_blocks := ds\<rparr>"
    using assms(1,2) by (auto simp: written_def)
  show "i_direct_blocks i2 ! (x div 4096) = i_direct_blocks i ! (x div 4096)" if "has_byte i x" for x
    using kept [OF that] kept2 by metis
  fix x assume x: "off + a \<le> x \<and> x < off + n"
  show "has_byte i2 x" using first second kept2 x by (metis leI)
  show "fbyte bl2 i2 x = buffer ! (x - off)"
  proof (cases "x < off + m")
    case True
    then show ?thesis using first [of x] same [of x] x by simp
  qed (use second x in simp)
next
  fix x assume "has_byte i x \<and> \<not> (off + a \<le> x \<and> x < off + n)"
  moreover from this have "has_byte i1 x" "fbyte bl1 i1 x = fbyte bl i x"
    using assms(1,4) by (auto simp: written_def has_byte_def)
  ultimately show "fbyte bl2 i2 x = fbyte bl i x"
    using assms(2,3) by (auto simp: written_def)
next
  fix j assume "valid_id sb j \<and> j \<noteq> ino"
  then show "inode_at bl2 sb j = inode_at bl sb j" using assms(1,2) by (simp add: written_def)
qed

lemma div_mod_at: "(x :: nat) = r + 4096 * k \<Longrightarrow> r < 4096 \<Longrightarrow> x div 4096 = k \<and> x mod 4096 = r"
  by simp

text \<open>One block: \<open>bl1\<close> is the disk after the block number \<open>b\<close> has been entered in the inode.\<close>

lemma written_block:
  assumes "layout_ok sb bm" and "file_ok sb bm i1" and "length (i_direct_blocks i) = 10"
    and i1: "i1 = i\<lparr>i_direct_blocks := (i_direct_blocks i)[(off + a) div 4096 := b]\<rparr>"
    and b: "b \<noteq> 0" "i_direct_blocks i ! ((off + a) div 4096) \<noteq> 0 \<longrightarrow> b = i_direct_blocks i ! ((off + a) div 4096)"
    and k: "(off + a) div 4096 < 10"
    and same: "\<forall>x. data_start_block sb < x \<longrightarrow> bl1 x = bl x"
    and nodes: "\<forall>j. valid_id sb j \<and> j \<noteq> ino \<longrightarrow> inode_at bl1 sb j = inode_at bl sb j"
    and "length (bl1 b) = 4096" and "n \<le> 4096 - (off + a) mod 4096" and "a + n \<le> length buffer"
  shows "written sb ino off buffer a (a + n) bl i
    (bl1(b := splice ((off + a) mod 4096) (slice a n buffer) (bl1 b))) i1"
proof -
  let ?k = "(off + a) div 4096" and ?o = "(off + a) mod 4096" and ?data = "slice a n buffer"
  let ?bl = "bl1(b := splice ?o ?data (bl1 b))"
  have data: "length ?data = n" "?o + n \<le> 4096" using assms(11,12) by simp_all
  have bk: "i_direct_blocks i1 ! ?k = b" using k assms(3) by (simp add: i1)
  have kept: "i_direct_blocks i1 ! j = i_direct_blocks i ! j" if "i_direct_blocks i ! j \<noteq> 0" for j
    using that b(2) assms(3) k by (cases "j = ?k") (auto simp: i1)
  have far: "data_start_block sb < i_direct_blocks i1 ! j" if "j < 10" "i_direct_blocks i1 ! j \<noteq> 0" for j
    using assms(2) that by (simp add: file_ok_def)
  have other: "i_direct_blocks i1 ! j \<noteq> b" if "j < 10" "j \<noteq> ?k" for j
    using assms(2) that k bk b(1) by (metis file_ok_def)
  have old: "fbyte bl1 i1 x = fbyte bl i x" if "has_byte i x" for x
    using that kept [of "x div 4096"] far [of "x div 4096"] same by (simp add: fbyte_def has_byte_def)
  have in_k: "x div 4096 = ?k \<and> x mod 4096 = ?o + (x - (off + a))" if "off + a \<le> x" "x < off + (a + n)" for x
  proof -
    have "x = ?o + (x - (off + a)) + 4096 * ?k" using that(1) by simp
    moreover have "?o + (x - (off + a)) < 4096" using that assms(11) by linarith
    ultimately show ?thesis by (rule div_mod_at)
  qed
  have byte: "fbyte ?bl i1 x = (if off + a \<le> x \<and> x < off + (a + n) then buffer ! (x - off) else fbyte bl1 i1 x)"
    if "x div 4096 < 10" for x
  proof (cases "x div 4096 = ?k")
    case True
    have "x = x mod 4096 + 4096 * ?k" "off + a = ?o + 4096 * ?k" using True by (metis mod_mult_div_eq) simp
    then have m: "?o \<le> x mod 4096 \<and> x mod 4096 < ?o + n \<longleftrightarrow> off + a \<le> x \<and> x < off + (a + n)"
      and d: "off + a \<le> x \<Longrightarrow> x mod 4096 - ?o = x - (off + a)" by linarith+
    have "fbyte ?bl i1 x = splice ?o ?data (bl1 b) ! (x mod 4096)" using True bk by (simp add: fbyte_def)
    moreover have "\<dots> = (if off + a \<le> x \<and> x < off + (a + n) then ?data ! (x mod 4096 - ?o) else bl1 b ! (x mod 4096))"
      using data assms(10) m by (subst nth_splice) simp_all
    moreover have "?data ! (x mod 4096 - ?o) = buffer ! (x - off)" if "off + a \<le> x" "x < off + (a + n)"
      using that assms(12) d by (subst nth_slice) auto
    ultimately show ?thesis using True bk by (simp add: fbyte_def)
  next
    case False
    then show ?thesis using other [OF that False] in_k [of x] by (auto simp: fbyte_def)
  qed
  show ?thesis
    unfolding written_def
  proof (intro conjI allI impI)
    show "\<exists>ds. i1 = i\<lparr>i_direct_blocks := ds\<rparr>" using i1 by blast
    fix x assume x: "off + a \<le> x \<and> x < off + (a + n)"
    show "has_byte i1 x" using in_k [of x] x k bk b(1) by (simp add: has_byte_def)
    then show "fbyte ?bl i1 x = buffer ! (x - off)" using byte [of x] x by (simp add: has_byte_def)
  next
    fix x assume "has_byte i x \<and> \<not> (off + a \<le> x \<and> x < off + (a + n))"
    then show "fbyte ?bl i1 x = fbyte bl i x" using byte [of x] old [of x] by (auto simp: has_byte_def)
  next
    fix j assume j: "valid_id sb j \<and> j \<noteq> ino"
    have "inode_block sb j \<noteq> b" using layout_blocks(3) [OF assms(1), of j] far [OF k] bk b(1) j by auto
    then show "inode_at ?bl sb j = inode_at bl sb j" using nodes j by (simp add: inode_at_def)
  qed (simp add: kept has_byte_def)
qed


context block_store begin

text \<open>One iteration of the loop of \<open>fs_write\<close>.\<close>

lemma write_step:
  assumes "dok (disk st)" and "block_bitmap st = Some bm"
    and "open_file (current_superblock st) bm (blk (disk st)) ino i" and "length buf = FS_BLOCK_SIZE"
    and "unat offset + unat count < 2 ^ 44" and "unat count \<le> length buffer" and "done1 < count"
    and "(unat offset + unat done1) div 4096 < 10"
  obtains (nospace) "write_loop env ino offset buffer count buf done1 i st = Some (True, done1, i, st)"
      and "\<forall>j < unat (total_blocks (current_superblock st)). bitmap_bit bm j"
  | (go) i' bm' n d buf' where
      "write_loop env ino offset buffer count buf done1 i st =
         write_loop env ino offset buffer count buf' (done1 + chunk offset count done1) i'
           (st\<lparr>block_bitmap := Some bm', current_superblock := (current_superblock st)\<lparr>free_blocks := n\<rparr>, disk := d\<rparr>)"
      and "dok d" and "length buf' = FS_BLOCK_SIZE" and "open_file (current_superblock st) bm' (blk d) ino i'"
      and "written (current_superblock st) ino (unat offset) buffer (unat done1)
             (unat (done1 + chunk offset count done1)) (blk (disk st)) i (blk d) i'"
proof -
  let ?sb = "current_superblock st" and ?c = "unat offset + unat done1" and ?n = "chunk offset count done1"
  note w = loop_words [OF assms(5,7)]
  have lay: "layout_ok ?sb bm" and fok: "file_ok ?sb bm i" and v: "valid_id ?sb ino"
    and at: "inode_at (blk (disk st)) ?sb ino = i" using assms(3) by (simp_all add: open_file_def)
  have idx: "(ucast ((offset + done1) div 4096) :: u32) < 10" using w(1) assms(8) by (simp add: word_less_nat_alt)
  have len10: "length (i_direct_blocks i) = 10" using fok by (simp add: file_ok_def)
  from assms(1,2) lay fok v at assms(8) show thesis
  proof (cases rule: file_block_ok)
    case nospace
    then show thesis using assms(7) idx w(1,2)
      by (intro that(1)) (simp_all add: write_loop.simps Let_def)
  next
    case (block b bm1 n d1 i1)
    let ?st = "st\<lparr>block_bitmap := Some bm1, current_superblock := ?sb\<lparr>free_blocks := n\<rparr>, disk := d1\<rparr>"
    have "dok (disk ?st)" using block(5) by simp
    from this assms(4) obtain d2 where d2: "read_block env b buf ?st = Some (0, blk d1 b, ?st\<lparr>disk := d2\<rparr>)"
      "dok d2" "blk d2 = blk d1" by (rule read_block_ok [where b = b]) auto
    let ?buf = "splice (?c mod 4096) (slice (unat done1) (unat ?n) buffer) (blk d1 b)"
    have nb: "unat ?n \<le> 4096 - ?c mod 4096" "unat done1 + unat ?n \<le> length buffer"
      using w(3) assms(6,7) by (auto simp: word_less_nat_alt)
    have lb: "length ?buf = FS_BLOCK_SIZE" using nb len [OF block(5)] by simp
    have "dok (disk (?st\<lparr>disk := d2\<rparr>))" using d2(2) by simp
    from this lb obtain d where d: "write_block env b ?buf (?st\<lparr>disk := d2\<rparr>) = Some (0, ?st\<lparr>disk := d\<rparr>)"
      "dok d" "blk d = (blk d1)(b := ?buf)" by (rule write_block_ok [where b = b]) (auto simp: d2(3))
    have step: "write_loop env ino offset buffer count buf done1 i st =
        write_loop env ino offset buffer count ?buf (done1 + ?n) i1 (?st\<lparr>disk := d\<rparr>)"
      using assms(7) idx w(1,2) block(2,3) d2(1) d(1)
      by (subst write_loop.simps) (simp add: Let_def chunk_def)
    have w': "written ?sb ino (unat offset) buffer (unat done1) (unat (done1 + ?n)) (blk (disk st)) i (blk d) i1"
      unfolding d(3) w(4)
      using block lay len10 assms(8) nb len [OF block(5)]
      by (intro written_block [where bm = bm1]) simp_all
    have far: "data_start_block ?sb < b"
      using block(1,3,7) len10 assms(8) by (auto simp: file_ok_def)
    have "inode_at (blk d) ?sb ino = i1"
      using block(8) far layout_blocks(3) [OF lay v] unfolding d(3) by (auto simp: inode_at_def)
    then have "open_file ?sb bm1 (blk d) ino i1" using block(6,7) v by (simp add: open_file_def)
    with step d(2) lb w' show thesis by (intro that(2) [where bm' = bm1 and n = n and d = d and buf' = ?buf and i' = i1]) simp_all
  qed
qed

end

context block_store begin

text \<open>The loop ends when all is written, and at the largest file size.\<close>

lemma write_loop_end:
  assumes "unat offset + unat count < 2 ^ 44" and "done1 \<le> count"
    and "\<not> (done1 < count \<and> (unat offset + unat done1) div 4096 < 10)"
  shows "write_loop env ino offset buffer count buf done1 i st = Some (True, done1, i, st)"
    and "done1 < count \<longrightarrow> MAX_FILE \<le> unat offset + unat done1"
proof -
  show "write_loop env ino offset buffer count buf done1 i st = Some (True, done1, i, st)"
  proof (cases "done1 < count")
    case True
    then have "\<not> (ucast ((offset + done1) div 4096) :: u32) < 10"
      using assms(3) loop_words(1) [OF assms(1)] by (simp add: word_less_nat_alt)
    then show ?thesis by (simp add: write_loop.simps Let_def)
  qed (simp add: write_loop.simps)
  show "done1 < count \<longrightarrow> MAX_FILE \<le> unat offset + unat done1"
    using assms(3) by (auto simp: less_mult_imp_div_less not_less)
qed

lemma write_loop_ok:
  assumes "dok (disk st)" and "block_bitmap st = Some bm"
    and "open_file (current_superblock st) bm (blk (disk st)) ino i" and "length buf = FS_BLOCK_SIZE"
    and "unat offset + unat count < 2 ^ 44" and "unat count \<le> length buffer" and "done1 \<le> count"
  shows "\<exists>n i' bm' fr d. write_loop env ino offset buffer count buf done1 i st = Some (True, n, i',
        st\<lparr>block_bitmap := Some bm', current_superblock := (current_superblock st)\<lparr>free_blocks := fr\<rparr>, disk := d\<rparr>) \<and>
      dok d \<and> open_file (current_superblock st) bm' (blk d) ino i' \<and> done1 \<le> n \<and> n \<le> count \<and>
      written (current_superblock st) ino (unat offset) buffer (unat done1) (unat n) (blk (disk st)) i (blk d) i' \<and>
      (n < count \<longrightarrow> MAX_FILE \<le> unat offset + unat n \<or>
         (\<forall>j < unat (total_blocks (current_superblock st)). bitmap_bit bm' j))"
  using assms
proof (induction "unat count - unat done1" arbitrary: done1 i bm st buf rule: less_induct)
  case less
  let ?sb = "current_superblock st" and ?c = "unat offset + unat done1" and ?n = "chunk offset count done1"
  have stop: ?case if "write_loop env ino offset buffer count buf done1 i st = Some (True, done1, i, st)"
    "done1 < count \<longrightarrow> MAX_FILE \<le> ?c \<or> (\<forall>j < unat (total_blocks ?sb). bitmap_bit bm j)"
  proof -
    have "st\<lparr>block_bitmap := Some bm, current_superblock := ?sb\<lparr>free_blocks := free_blocks ?sb\<rparr>, disk := disk st\<rparr> = st"
      using less.prems(2) by (cases st) simp
    with that less.prems(1,3,7) written_refl show ?thesis
      by (intro exI [of _ done1] exI [of _ i] exI [of _ bm] exI [of _ "free_blocks ?sb"] exI [of _ "disk st"]) simp
  qed
  show ?case
  proof (cases "done1 < count \<and> ?c div 4096 < 10")
    case False
    from write_loop_end [OF less.prems(5,7) False] show ?thesis by (intro stop) blast+
  next
    case True
    note w = loop_words [OF less.prems(5), of done1]
    from less.prems(1-6) True [THEN conjunct1] True [THEN conjunct2] show ?thesis
    proof (cases rule: write_step)
      case nospace
      then show ?thesis by (intro stop) simp_all
    next
      case (go i1 bm1 n1 d1 buf1)
      let ?st = "st\<lparr>block_bitmap := Some bm1, current_superblock := ?sb\<lparr>free_blocks := n1\<rparr>, disk := d1\<rparr>"
      have lt: "unat done1 < unat count" using True by (simp add: word_less_nat_alt)
      then have b: "0 < unat ?n" "unat ?n \<le> unat count - unat done1" "unat (done1 + ?n) = unat done1 + unat ?n"
        using w(3,4) True by simp_all
      then have pre: "unat count - unat (done1 + ?n) < unat count - unat done1" "done1 + ?n \<le> count" "done1 \<le> done1 + ?n"
        using lt by (simp_all add: word_le_nat_alt)
      have "dok (disk ?st)" "block_bitmap ?st = Some bm1"
        "open_file (current_superblock ?st) bm1 (blk (disk ?st)) ino i1"
        using go by (simp_all add: open_file_def)
      from less.hyps [OF pre(1) this go(3) less.prems(5,6) pre(2)] obtain n i' bm' fr d where
        r: "write_loop env ino offset buffer count buf1 (done1 + ?n) i1 ?st = Some (True, n, i',
          st\<lparr>block_bitmap := Some bm', current_superblock := ?sb\<lparr>free_blocks := fr\<rparr>, disk := d\<rparr>)"
        "dok d" "open_file ?sb bm' (blk d) ino i'" "done1 + ?n \<le> n" "n \<le> count"
        "written ?sb ino (unat offset) buffer (unat (done1 + ?n)) (unat n) (blk d1) i1 (blk d) i'"
        "n < count \<longrightarrow> MAX_FILE \<le> unat offset + unat n \<or> (\<forall>j < unat (total_blocks ?sb). bitmap_bit bm' j)"
        by auto
      have "written ?sb ino (unat offset) buffer (unat done1) (unat n) (blk (disk st)) i (blk d) i'"
        using go(5) r(6) pre(3) r(4) by (intro written_trans [OF go(5) r(6)]) (simp_all add: word_le_nat_alt)
      moreover have "done1 \<le> n" using pre(3) r(4) by simp
      ultimately show ?thesis using go(1) r by (metis order_refl)
    qed
  qed
qed

end

lemma fbyte_size [simp]: "fbyte bl (i\<lparr>i_size := s\<rparr>) = fbyte bl i" "has_byte (i\<lparr>i_size := s\<rparr>) = has_byte i"
  "file_ok sb bm (i\<lparr>i_size := s\<rparr>) = file_ok sb bm i"
  by (auto simp: fbyte_def has_byte_def file_ok_def)

lemma open_file_size:
  assumes "open_file sb bm bl ino i" and "\<And>b. length (bl b) = FS_BLOCK_SIZE"
  shows "open_file sb bm (inode_put ino (i\<lparr>i_size := s\<rparr>) sb bl) ino (i\<lparr>i_size := s\<rparr>)"
  using assms inode_at_put [of "i\<lparr>i_size := s\<rparr>" bl sb ino] by (simp add: open_file_def file_ok_def)

lemma written_size:
  assumes "open_file sb bm bl1 ino i1" and "\<And>b. length (bl1 b) = FS_BLOCK_SIZE"
    and "written sb ino off buffer a n bl i bl1 i1"
  shows "written sb ino off buffer a n bl i (inode_put ino (i1\<lparr>i_size := s\<rparr>) sb bl1) i1"
proof -
  have lay: "layout_ok sb bm" and fok: "file_ok sb bm i1" and v: "valid_id sb ino"
    using assms(1) by (simp_all add: open_file_def)
  have "fbyte (inode_put ino (i1\<lparr>i_size := s\<rparr>) sb bl1) i1 x = fbyte bl1 i1 x" if "has_byte i1 x" for x
  proof -
    have "data_start_block sb < i_direct_blocks i1 ! (x div 4096)" using fok that by (simp add: file_ok_def has_byte_def)
    then have "i_direct_blocks i1 ! (x div 4096) \<noteq> inode_block sb ino" using layout_blocks(3) [OF lay v] by auto
    then show ?thesis by (simp add: fbyte_def inode_put_def)
  qed
  moreover have "has_byte i1 x" if "has_byte i x" for x using assms(3) that by (auto simp: written_def has_byte_def)
  moreover have "inode_at (inode_put ino (i1\<lparr>i_size := s\<rparr>) sb bl1) sb j = inode_at bl1 sb j" if "valid_id sb j" "j \<noteq> ino" for j
    using that v lay fok assms(2) by (intro inode_at_put_other) (auto simp: layout_ok_def file_ok_def)
  ultimately show ?thesis using assms(3) by (simp add: written_def)
qed

lemma written_bound:
  assumes "written sb ino off buffer 0 n bl i bl' i'" and "0 < n"
  shows "off + n \<le> MAX_FILE"
proof -
  have "has_byte i' (off + n - 1)" using assms by (simp add: written_def)
  then have "(off + n - 1) div 4096 < 10" by (simp add: has_byte_def)
  then show ?thesis by (simp add: div_less_iff_less_mult)
qed


context block_store begin

text \<open>\<open>fs_write\<close> stores a prefix of the buffer; it stops early only at the largest file size or when every
  block is in use.\<close>

lemma fs_write_ok:
  assumes "dok (disk st)" and "block_bitmap st = Some bm"
    and "open_file (current_superblock st) bm (blk (disk st)) ino i" and "i_type i AND FS_INODE_TYPE_FILE \<noteq> 0"
    and "heap_ok (fs_heap st) L" and "heap_fits (fs_heap st) 88"
    and "unat offset + unat count < 2 ^ 44" and "unat count \<le> length buffer"
  obtains n i' bm' fr d h where
    "fs_write env ino offset buffer count st = Some (int (unat n), st\<lparr>block_bitmap := Some bm',
       current_superblock := (current_superblock st)\<lparr>free_blocks := fr\<rparr>, disk := d, fs_heap := h\<rparr>)"
    and "dok d" and "heap_ok h L" and "heap_fits h 88" and "n \<le> count"
    and "open_file (current_superblock st) bm' (blk d) ino (i'\<lparr>i_size := max (i_size i) (offset + n)\<rparr>)"
    and "written (current_superblock st) ino (unat offset) buffer 0 (unat n) (blk (disk st)) i (blk d) i'"
    and "n < count \<longrightarrow> MAX_FILE \<le> unat offset + unat n \<or>
         (\<forall>j < unat (total_blocks (current_superblock st)). bitmap_bit bm' j)"
proof -
  let ?sb = "current_superblock st"
  have v: "valid_id ?sb ino" and at: "inode_at (blk (disk st)) ?sb ino = i" using assms(3) by (simp_all add: open_file_def)
  from assms(5,6) obtain p h1 h2 where h: "kmalloc (fs_heap st) 88 = Some (p, h1)" "p \<noteq> 0" "kfree h1 p = Some h2"
    "heap_ok h2 L" "heap_fits h2 88" by (rule borrow) blast
  from assms(1) v h(1,2) obtain d1 where g: "get_inode env ino st = Some (Some (p, i), st\<lparr>disk := d1, fs_heap := h1\<rparr>)"
    "dok d1" "blk d1 = blk (disk st)" by (rule get_inode_ok) (simp add: at)
  let ?st = "st\<lparr>disk := d1, fs_heap := h1\<rparr>"
  have "dok (disk ?st)" "block_bitmap ?st = Some bm" "open_file (current_superblock ?st) bm (blk (disk ?st)) ino i"
    using g(2,3) assms(2,3) by simp_all
  from write_loop_ok [OF this stack assms(7,8) word_zero_le] obtain n i' bm' fr d where
    r: "write_loop env ino offset buffer count (stack_bytes env) 0 i ?st = Some (True, n, i',
      ?st\<lparr>block_bitmap := Some bm', current_superblock := ?sb\<lparr>free_blocks := fr\<rparr>, disk := d\<rparr>)"
    "dok d" "open_file ?sb bm' (blk d) ino i'" "n \<le> count"
    "written ?sb ino (unat offset) buffer 0 (unat n) (blk (disk st)) i (blk d) i'"
    "n < count \<longrightarrow> MAX_FILE \<le> unat offset + unat n \<or> (\<forall>j < unat (total_blocks ?sb). bitmap_bit bm' j)"
    using g(3) by auto
  have "unat n < 2 ^ 31" using written_bound [OF r(5)] by (cases "0 < unat n") auto
  then have ci: "c_int n = int (unat n)" by (rule c_int_small)
  have isf: "is_file (Some (p, i))" using assms(4) by (simp add: is_file_def)
  have sz: "i_size i' = i_size i" using r(5) by (auto simp: written_def)
  let ?st1 = "?st\<lparr>block_bitmap := Some bm', current_superblock := ?sb\<lparr>free_blocks := fr\<rparr>, disk := d\<rparr>"
  show thesis
  proof (cases "offset + n > i_size i")
    case False
    then have m: "i'\<lparr>i_size := max (i_size i) (offset + n)\<rparr> = i'" using sz by (cases i') (simp add: max_def)
    have "fs_write env ino offset buffer count st = Some (int (unat n), ?st1\<lparr>fs_heap := h2\<rparr>)"
      using False g(1) isf r(1) sz h(3) ci by (simp add: fs_write_def kfree_inode_def fs_kfree_def)
    with r h m show thesis by (intro that [where bm' = bm' and fr = fr and d = d and h = h2 and n = n and i' = i']) simp_all
  next
    case True
    let ?i = "i'\<lparr>i_size := offset + n\<rparr>"
    have v1: "dok (disk ?st1)" "valid_id (current_superblock ?st1) ino" "length (i_direct_blocks ?i) = 10"
      using r(2,3) v by (simp_all add: open_file_def file_ok_def)
    then obtain d2 where d2: "write_inode env ino ?i ?st1 = Some (0, ?st1\<lparr>disk := d2\<rparr>)" "dok d2"
      "blk d2 = inode_put ino ?i ?sb (blk d)" by (rule write_inode_ok) auto
    have m: "max (i_size i) (offset + n) = offset + n" using True by (simp add: max.absorb2 order_less_imp_le)
    have "fs_write env ino offset buffer count st = Some (int (unat n), ?st1\<lparr>disk := d2\<rparr>\<lparr>fs_heap := h2\<rparr>)"
      using True g(1) isf r(1) sz h(3) ci d2(1) by (simp add: fs_write_def kfree_inode_def fs_kfree_def)
    moreover have "open_file ?sb bm' (blk d2) ino ?i"
      unfolding d2(3) using r(3) len [OF r(2)] by (rule open_file_size)
    moreover have "written ?sb ino (unat offset) buffer 0 (unat n) (blk (disk st)) i (blk d2) i'"
      unfolding d2(3) using r(3) len [OF r(2)] r(5) by (rule written_size)
    ultimately show thesis using r h m d2(2)
      by (intro that [where bm' = bm' and fr = fr and d = d2 and h = h2 and n = n and i' = i']) simp_all
  qed
qed

text \<open>\<open>fs_read\<close> returns the bytes of the file, up to its size.\<close>

lemma fs_read_ok:
  assumes "dok (disk st)" and "valid_id (current_superblock st) ino"
    and "inode_at (blk (disk st)) (current_superblock st) ino = i" and "length (i_direct_blocks i) = 10"
    and "i_type i AND FS_INODE_TYPE_FILE \<noteq> 0"
    and "heap_ok (fs_heap st) L" and "heap_fits (fs_heap st) 88"
    and "unat offset + unat count < 2 ^ 44" and "offset \<le> i_size i"
    and "n = min (unat count) (unat (i_size i) - unat offset)" and "covered i (unat offset) n"
  obtains d h where
    "fs_read env ino offset count st = Some (int n, slice (unat offset) n (fbytes (blk (disk st)) i),
       st\<lparr>disk := d, fs_heap := h\<rparr>)"
    and "dok d" and "blk d = blk (disk st)" and "heap_ok h L" and "heap_fits h 88"
proof -
  let ?sb = "current_superblock st" and ?m = "if offset + count > i_size i then i_size i - offset else count"
  from assms(6,7) obtain p h1 h2 where h: "kmalloc (fs_heap st) 88 = Some (p, h1)" "p \<noteq> 0" "kfree h1 p = Some h2"
    "heap_ok h2 L" "heap_fits h2 88" by (rule borrow) blast
  from assms(1,2) h(1,2) obtain d1 where g: "get_inode env ino st = Some (Some (p, i), st\<lparr>disk := d1, fs_heap := h1\<rparr>)"
    "dok d1" "blk d1 = blk (disk st)" by (rule get_inode_ok) (simp add: assms(3))
  have "unat (offset + count) = unat offset + unat count" using assms(8) by (simp add: unat_word_ariths)
  then have m: "unat ?m = n" using assms(9,10) by (auto simp: word_less_nat_alt word_le_nat_alt unat_sub)
  have isf: "is_file (Some (p, i))" using assms(5) by (simp add: is_file_def)
  let ?st = "st\<lparr>disk := d1, fs_heap := h1\<rparr>"
  show thesis
  proof (cases "?m = 0")
    case True
    then have "n = 0" using m by simp
    with True show thesis using g(1) isf h(3) assms(10) g(2,3) h(4,5)
      by (intro that [where d = d1 and h = h2]) (simp_all add: fs_read_def kfree_inode_def fs_kfree_def slice_def Let_def)
  next
    case False
    have "n \<le> unat count" using assms(10) by simp
    then have bnd: "unat offset + unat ?m < 2 ^ 44" using assms(8) m by linarith
    have "dok (disk ?st)" "covered i (unat offset + unat 0) (unat ?m - unat 0)" using g(2) assms(11) m by simp_all
    from read_loop_ok [OF this(1) stack bnd assms(4) word_zero_le this(2), of "[]"] obtain d where
      r: "read_loop env i offset ?m (stack_bytes env) 0 [] ?st =
        Some (True, ?m, slice (unat offset) n (fbytes (blk (disk st)) i), ?st\<lparr>disk := d\<rparr>)"
      "dok d" "blk d = blk (disk st)" using g(3) m by auto
    have "0 < unat ?m" using False unfolding unat_gt_0 .
    then have "0 < n" unfolding m .
    then have "(unat offset + n - 1) div 4096 < 10" using assms(11) by (simp add: covered_def)
    then have small: "unat ?m < 2 ^ 31" unfolding m by (simp add: div_less_iff_less_mult)
    have ci: "c_int ?m = int n" using c_int_small [OF small] unfolding m .
    have "fs_read env ino offset count st =
        Some (int n, slice (unat offset) n (fbytes (blk (disk st)) i), ?st\<lparr>disk := d, fs_heap := h2\<rparr>)"
      using False g(1) isf h(3) r(1) ci unfolding fs_read_def kfree_inode_def fs_kfree_def Let_def
      by (simp split del: if_split cong: if_cong)
    then show thesis using r h by (intro that [where d = d and h = h2]) simp_all
  qed
qed

end

section \<open>Reading past the end\<close>

lemma chunk_large:
  assumes "unat offset < MAX_FILE" and "4096 \<le> unat count"
  shows "unat (chunk offset count 0) = 4096 - unat offset mod 4096"
proof -
  have "unat offset + unat (8192 :: u64) < 2 ^ 44" "(0 :: u64) < 8192" using assms(1) by simp_all
  from loop_words(3) [OF this] have c: "unat (chunk offset 8192 0) = 4096 - unat offset mod 4096" by simp
  let ?n = "ucast (4096 - (ucast ((offset + 0) mod 4096) :: u32)) :: u64"
  have "chunk offset 8192 0 = ?n" unfolding chunk_def Let_def using c
    by (cases "?n > 8192 - 0") (auto simp: chunk_def Let_def word_less_nat_alt)
  with c have n: "unat ?n = 4096 - unat offset mod 4096" by simp
  then have "\<not> ?n > count - 0" using assms(2) by (simp add: word_less_nat_alt)
  then have "chunk offset count 0 = ?n" unfolding chunk_def Let_def by simp
  then show ?thesis using n by simp
qed

context block_store begin

lemma read_loop_past_end:
  assumes "dok (disk st)" and "length (i_direct_blocks i) = 10" and "unat offset < MAX_FILE" and "8192 \<le> unat count"
    and "i_direct_blocks i ! (unat offset div 4096) \<noteq> 0"
    and "unat offset div 4096 = 9 \<or> i_direct_blocks i ! Suc (unat offset div 4096) = 0"
  obtains n d where "read_loop env i offset count (stack_bytes env) 0 [] st =
      Some (True, n, slice (unat offset) (unat n) (fbytes (blk (disk st)) i), st\<lparr>disk := d\<rparr>)"
    and "unat n = 4096 - unat offset mod 4096" and "dok d"
proof -
  let ?k = "unat offset div 4096" and ?o = "unat offset mod 4096" and ?n = "chunk offset count 0"
  have n: "unat ?n = 4096 - ?o" using chunk_large assms(3,4) by simp
  have k: "?k < 10" using assms(3) by (simp add: less_mult_imp_div_less)
  have "unat offset + unat (1 :: u64) < 2 ^ 44" "(0 :: u64) < 1" using assms(3) by simp_all
  note w = loop_words [OF this, simplified]
  have "unat (?n + 1) = unat ?n + 1" using n by (simp add: unat_word_ariths)
  then have "unat offset + unat (?n + 1) < 2 ^ 44" "?n < ?n + 1" using n assms(3) by (simp_all add: word_less_nat_alt)
  note w2 = loop_words [OF this]
  have "4096 * k + r = a \<Longrightarrow> r < 4096 \<Longrightarrow> a + (4096 - r) = 4096 * Suc k" for k r a :: nat by simp
  from this [of ?k ?o "unat offset"] have "unat offset + unat ?n = 4096 * Suc ?k" unfolding n by simp
  then have idx2: "unat (ucast ((offset + ?n) div 4096) :: u32) = Suc ?k" using w2(1) by simp
  from assms(1) stack obtain d where d: "read_block env (i_direct_blocks i ! ?k) (stack_bytes env) st =
      Some (0, blk (disk st) (i_direct_blocks i ! ?k), st\<lparr>disk := d\<rparr>)" "dok d" "blk d = blk (disk st)"
    by (rule read_block_ok)
  have lt: "0 < count" "?n < count" using assms(4) n by (simp_all add: word_less_nat_alt)
  have idx: "(ucast (offset div 4096) :: u32) < 10" using w(1) k by (simp add: word_less_nat_alt)
  let ?data = "slice ?o (unat ?n) (blk (disk st) (i_direct_blocks i ! ?k))"
  have "read_loop env i offset count (stack_bytes env) 0 [] st =
      read_loop env i offset count (blk (disk st) (i_direct_blocks i ! ?k)) ?n ?data (st\<lparr>disk := d\<rparr>)"
    using lt idx assms(5) w(1,2) d(1) by (subst read_loop.simps) (simp add: Let_def chunk_def)
  also have "\<dots> = Some (True, ?n, ?data, st\<lparr>disk := d\<rparr>)"
    using lt idx2 assms(6) by (subst read_loop.simps) (auto simp: Let_def word_less_nat_alt)
  also have "?data = slice (unat offset) (unat ?n) (fbytes (blk (disk st)) i)"
    using slice_fbytes [of ?k i "blk (disk st)" ?o "unat ?n"] k n assms(1,2) len by simp
  finally show thesis using n d(2) by (intro that)
qed

text \<open>With an offset past the size the subtraction for the count wraps around.\<close>

lemma fs_read_past_end_ok:
  assumes "dok (disk st)" and "valid_id (current_superblock st) ino"
    and "inode_at (blk (disk st)) (current_superblock st) ino = i" and "length (i_direct_blocks i) = 10"
    and "i_type i AND FS_INODE_TYPE_FILE \<noteq> 0"
    and "heap_ok (fs_heap st) L" and "heap_fits (fs_heap st) 88"
    and "i_size i < offset" and "unat offset < MAX_FILE" and "unat count < 2 ^ 44"
    and "i_direct_blocks i ! (unat offset div 4096) \<noteq> 0"
    and "unat offset div 4096 = 9 \<or> i_direct_blocks i ! Suc (unat offset div 4096) = 0"
  shows "\<exists>st'. fs_read env ino offset count st = Some (int (4096 - unat offset mod 4096),
     slice (unat offset) (4096 - unat offset mod 4096) (fbytes (blk (disk st)) i), st')"
proof -
  from assms(6,7) obtain p h1 h2 where h: "kmalloc (fs_heap st) 88 = Some (p, h1)" "p \<noteq> 0" "kfree h1 p = Some h2"
    by (rule borrow) blast
  from assms(1,2) h(1,2) obtain d1 where g: "get_inode env ino st = Some (Some (p, i), st\<lparr>disk := d1, fs_heap := h1\<rparr>)"
    "dok d1" "blk d1 = blk (disk st)" by (rule get_inode_ok) (simp add: assms(3))
  let ?st = "st\<lparr>disk := d1, fs_heap := h1\<rparr>" and ?c = "i_size i - offset"
  have sz: "unat (i_size i) < unat offset" using assms(8) by (simp add: word_less_nat_alt)
  have "unat (offset + count) = unat offset + unat count" using assms(9,10) by (simp add: unat_word_ariths)
  then have gt: "offset + count > i_size i" using sz by (simp add: word_less_nat_alt)
  have "unat ?c = unat (i_size i) + 2 ^ 64 - unat offset"
    using sz by (simp add: unat_sub_if' size_word_def)
  then have big: "8192 \<le> unat ?c" using assms(9) by simp
  then have nz: "?c \<noteq> 0" by auto
  have dst: "dok (disk ?st)" using g(2) by simp
  from dst assms(4,9) big assms(11,12) obtain n d where
    r: "read_loop env i offset ?c (stack_bytes env) 0 [] ?st =
      Some (True, n, slice (unat offset) (unat n) (fbytes (blk (disk ?st)) i), ?st\<lparr>disk := d\<rparr>)"
    "unat n = 4096 - unat offset mod 4096" by (rule read_loop_past_end)
  have "unat n < 2 ^ 31" using r(2) by simp
  from c_int_small [OF this] have "c_int n = int (4096 - unat offset mod 4096)" using r(2) by simp
  moreover have "is_file (Some (p, i))" using assms(5) by (simp add: is_file_def)
  ultimately show ?thesis
    using g(1,3) gt nz r h(3) by (simp add: fs_read_def kfree_inode_def fs_kfree_def)
qed

end


end
