(* ===== verification/Fs_Dir.thy ===== *)
theory Fs_Dir
  imports Fs_Spec
begin

text \<open>
  Directories of \<^verbatim>\<open>src/kern/fs/fs.c\<close>: what a directory maps names to, and what \<open>fs_lookup\<close>, \<open>fs_create\<close>
  and \<open>fs_delete\<close> do to that map, for a block device that keeps the contract \<open>block_store\<close>.
\<close>

section \<open>Entries of a block\<close>

text \<open>A name that a directory can hold: at most 28 bytes, none of them zero.\<close>

definition dir_name :: "u8 list \<Rightarrow> bool" where
  "dir_name name \<longleftrightarrow> length name \<le> FS_MAX_FILENAME_LEN \<and> 0 \<notin> set name"

lemma zero_split_unique:
  assumes "xs @ 0 # us = ys @ 0 # (vs :: u8 list)" and "0 \<notin> set xs" and "0 \<notin> set ys"
  shows "xs = ys"
proof -
  have "takeWhile (\<lambda>c. c \<noteq> 0) (zs @ 0 # ws) = zs" if "0 \<notin> set zs" for zs ws :: "u8 list"
    using that by (induction zs) auto
  then show ?thesis using assms by metis
qed

lemma entry_bytes_length: "dir_name name \<Longrightarrow> length pad = 3 \<Longrightarrow> length (entry_bytes i name pad) = SIZEOF_DIR_ENTRY"
  by (simp add: entry_bytes_def strncpy_bytes_def dir_name_def)

lemma entry_bytes_name:
  assumes "dir_name name" and "dir_name name'"
  shows "slice 4 (Suc (length name')) (entry_bytes i name pad) = name' @ [0] \<longleftrightarrow> name' = name"
proof -
  let ?z = "replicate (FS_MAX_FILENAME_LEN - length name) 0 @ [0] @ pad"
  have e: "drop 4 (entry_bytes i name pad) = name @ ?z"
    using assms(1) by (simp add: entry_bytes_def strncpy_bytes_def dir_name_def)
  obtain us where z: "?z = 0 # us" by (cases "FS_MAX_FILENAME_LEN - length name") auto
  have "name' = name" if "take (Suc (length name')) (name @ ?z) = name' @ [0]"
  proof -
    have "name @ 0 # us = name' @ 0 # drop (Suc (length name')) (name @ 0 # us)"
      using that append_take_drop_id [of "Suc (length name')" "name @ 0 # us"] unfolding z by simp
    then show ?thesis using assms by (metis zero_split_unique dir_name_def)
  qed
  then show ?thesis unfolding slice_def e z by auto
qed

lemma entry_slot: "j < ENTRIES_PER_BLOCK \<Longrightarrow> j * SIZEOF_DIR_ENTRY + SIZEOF_DIR_ENTRY \<le> FS_BLOCK_SIZE"
  by simp

lemma slots_apart:
  "j \<noteq> k \<Longrightarrow> j * SIZEOF_DIR_ENTRY + SIZEOF_DIR_ENTRY \<le> k * SIZEOF_DIR_ENTRY \<or>
     k * SIZEOF_DIR_ENTRY + SIZEOF_DIR_ENTRY \<le> j * SIZEOF_DIR_ENTRY"
  by (cases "j < k") auto

text \<open>Writing one slot of a block.\<close>

definition slot_write :: "u8 list \<Rightarrow> u8 list \<Rightarrow> nat \<Rightarrow> bool" where
  "slot_write buf e j \<longleftrightarrow> length buf = FS_BLOCK_SIZE \<and> length e = SIZEOF_DIR_ENTRY \<and> j < ENTRIES_PER_BLOCK"

lemma slot_write_length: "slot_write buf e j \<Longrightarrow> length (splice (j * SIZEOF_DIR_ENTRY) e buf) = FS_BLOCK_SIZE"
  using entry_slot [of j] by (simp add: slot_write_def)

lemma slot_other:
  assumes "slot_write buf e j" and "k < ENTRIES_PER_BLOCK" and "k \<noteq> j" and "a + n \<le> SIZEOF_DIR_ENTRY"
  shows "slice (k * SIZEOF_DIR_ENTRY + a) n (splice (j * SIZEOF_DIR_ENTRY) e buf) = slice (k * SIZEOF_DIR_ENTRY + a) n buf"
  using slots_apart [OF assms(3)] entry_slot [of j] entry_slot [OF assms(2)] assms(1,4)
  by (intro slice_splice_other) (auto simp: slot_write_def)

lemma slot_same:
  assumes "slot_write buf e j" and "a + n \<le> SIZEOF_DIR_ENTRY"
  shows "slice (j * SIZEOF_DIR_ENTRY + a) n (splice (j * SIZEOF_DIR_ENTRY) e buf) = slice a n e"
proof -
  have "slice (j * SIZEOF_DIR_ENTRY) SIZEOF_DIR_ENTRY (splice (j * SIZEOF_DIR_ENTRY) e buf) = e"
    using slice_splice [of "j * SIZEOF_DIR_ENTRY" e buf] entry_slot [of j] assms(1) by (simp add: slot_write_def)
  then show ?thesis using slice_slice [OF assms(2), of "j * SIZEOF_DIR_ENTRY"] by metis
qed

lemma entry_id_splice:
  "slot_write buf e j \<Longrightarrow> k < ENTRIES_PER_BLOCK \<Longrightarrow> entry_id (splice (j * SIZEOF_DIR_ENTRY) e buf) k =
     (if k = j then le_word (slice 0 4 e) else entry_id buf k)"
  using slot_other [of buf e j k 0 4] slot_same [of buf e j 0 4] by (simp add: entry_id_def)

lemma entry_named_splice:
  "slot_write buf e j \<Longrightarrow> k < ENTRIES_PER_BLOCK \<Longrightarrow> dir_name name \<Longrightarrow>
     entry_named (splice (j * SIZEOF_DIR_ENTRY) e buf) k name =
       (if k = j then slice 4 (Suc (length name)) e = name @ [0] else entry_named buf k name)"
  using slot_other [of buf e j k 4 "Suc (length name)"] slot_same [of buf e j 4 "Suc (length name)"]
  by (simp add: entry_named_def dir_name_def)

lemma find_upt_Some: "find P [0..<n] = Some j \<Longrightarrow> j < n \<and> P j"
  by (auto simp: find_Some_iff)

lemma find_upt_unique: "j < n \<Longrightarrow> P j \<Longrightarrow> (\<And>k. k < n \<Longrightarrow> P k \<Longrightarrow> k = j) \<Longrightarrow> find P [0..<n] = Some j"
proof (cases "find P [0..<n]")
  case None
  assume "j < n" "P j"
  with None show ?thesis by (simp add: find_None_iff)
next
  case (Some k)
  assume "\<And>k. k < n \<Longrightarrow> P k \<Longrightarrow> k = j"
  with Some find_upt_Some [OF Some] show ?thesis by simp
qed

lemma find_upt_cong: "(\<And>k. k < n \<Longrightarrow> P k = Q k) \<Longrightarrow> find P [0..<n] = find Q [0..<n]"
  by (rule find_cong) auto

text \<open>What a block maps a name to; 0 when it has no entry of that name.\<close>

definition block_find :: "u8 list \<Rightarrow> u8 list \<Rightarrow> u32" where
  "block_find buf name = (case find_entry buf name of Some j \<Rightarrow> entry_id buf j | None \<Rightarrow> 0)"

lemma find_entry_id: "find_entry buf name = Some j \<Longrightarrow> entry_id buf j \<noteq> 0"
  by (auto simp: find_entry_def dest: find_upt_Some)

lemma block_find_zero: "block_find buf name = 0 \<longleftrightarrow> find_entry buf name = None"
  by (auto simp: block_find_def find_entry_def split: option.splits dest: find_upt_Some)

text \<open>A new entry in a free slot.\<close>

lemma block_find_insert:
  assumes "slot_write buf (entry_bytes i name pad) j" and "entry_id buf j = 0" and "i \<noteq> 0"
    and "dir_name name" and "dir_name name'" and "name' = name \<longrightarrow> block_find buf name = 0"
  shows "block_find (splice (j * SIZEOF_DIR_ENTRY) (entry_bytes i name pad) buf) name' =
    (if name' = name then i else block_find buf name')"
proof -
  let ?b = "splice (j * SIZEOF_DIR_ENTRY) (entry_bytes i name pad) buf"
  have j: "j < ENTRIES_PER_BLOCK" using assms(1) by (simp add: slot_write_def)
  have i: "slice 0 4 (entry_bytes i name pad) = le_bytes 4 i" by (simp add: entry_bytes_def slice_simps)
  have id: "entry_id ?b k = (if k = j then i else entry_id buf k)" if "k < ENTRIES_PER_BLOCK" for k
    using entry_id_splice [OF assms(1) that] i by (simp add: le_word_le_bytes_sizes)
  have nm: "entry_named ?b k name' = (if k = j then name' = name else entry_named buf k name')"
    if "k < ENTRIES_PER_BLOCK" for k
    using entry_named_splice [OF assms(1) that assms(5)] entry_bytes_name [OF assms(4,5)] by simp
  show ?thesis
  proof (cases "name' = name")
    case True
    have none: "\<not> (entry_id buf k \<noteq> 0 \<and> entry_named buf k name)" if "k < ENTRIES_PER_BLOCK" for k
      using assms(6) True that by (auto simp: block_find_zero find_entry_def find_None_iff)
    have "find_entry ?b name' = Some j"
      unfolding find_entry_def using id nm none True j assms(3)
      by (intro find_upt_unique) (auto split: if_splits)
    then show ?thesis using True id [OF j] by (simp add: block_find_def)
  next
    case False
    have "find_entry ?b name' = find_entry buf name'"
      unfolding find_entry_def using id nm False assms(2) by (intro find_upt_cong) auto
    moreover have "entry_id ?b k = entry_id buf k" if "find_entry buf name' = Some k" for k
      using that id [of k] assms(2) by (auto simp: find_entry_def dest!: find_upt_Some)
    ultimately show ?thesis using False by (auto simp: block_find_def split: option.splits)
  qed
qed

lemma le_word_zeros: "le_word (replicate n 0) = 0"
  by (induction n) simp_all

lemma entry_id_zeros: "entry_id (replicate n 0) k = 0"
  by (simp add: entry_id_def slice_def le_word_zeros)

lemma block_find_zeros: "block_find (replicate n 0) name = 0"
  by (simp add: block_find_zero find_entry_def find_None_iff entry_id_zeros)

section \<open>Directories as maps\<close>

text \<open>What the blocks of a directory map a name to: the first entry of that name counts.\<close>

fun dir_find :: "(u32 \<Rightarrow> u8 list) \<Rightarrow> u8 list \<Rightarrow> u32 list \<Rightarrow> u32" where
  "dir_find bl name [] = 0"
| "dir_find bl name (b # bs) =
     (if b \<noteq> 0 \<and> block_find (bl b) name \<noteq> 0 then block_find (bl b) name else dir_find bl name bs)"

lemma dir_find_append:
  "dir_find bl name (xs @ ys) = (if dir_find bl name xs \<noteq> 0 then dir_find bl name xs else dir_find bl name ys)"
  by (induction xs) auto

lemma dir_find_cong: "(\<And>b. b \<in> set bs \<Longrightarrow> b \<noteq> 0 \<Longrightarrow> bl' b = bl b) \<Longrightarrow> dir_find bl' name bs = dir_find bl name bs"
  by (induction bs) auto

lemma dir_find_zero: "dir_find bl name bs = 0 \<longleftrightarrow> (\<forall>b \<in> set bs. b \<noteq> 0 \<longrightarrow> block_find (bl b) name = 0)"
  by (induction bs) auto

text \<open>The block list with one block changed, or added in place of a zero.\<close>

lemma dir_find_update:
  assumes "k < length bs" and "\<And>j. j < length bs \<Longrightarrow> j \<noteq> k \<Longrightarrow> bs ! j \<noteq> 0 \<Longrightarrow> bl' (bs ! j) = bl (bs ! j)" and "b \<noteq> 0"
    and "block_find (bl' b) name = (if hit then i else if bs ! k = 0 then 0 else block_find (bl (bs ! k)) name)"
    and "hit \<longrightarrow> dir_find bl name bs = 0 \<and> i \<noteq> 0"
  shows "dir_find bl' name (bs[k := b]) = (if hit then i else dir_find bl name bs)"
proof -
  let ?xs = "take k bs" and ?ys = "drop (Suc k) bs"
  have bs: "bs = ?xs @ bs ! k # ?ys" using assms(1) by (simp add: id_take_nth_drop [symmetric])
  have "bl' c = bl c" if "c \<in> set ?xs \<union> set ?ys" "c \<noteq> 0" for c
    using that assms(1,2) by (auto simp: in_set_conv_nth)
  then have same: "dir_find bl' name ?xs = dir_find bl name ?xs" "dir_find bl' name ?ys = dir_find bl name ?ys"
    by (auto intro!: dir_find_cong)
  have up: "bs[k := b] = ?xs @ b # ?ys" using assms(1) by (simp add: upd_conv_take_nth_drop)
  have split: "dir_find bl name bs = (if dir_find bl name ?xs \<noteq> 0 then dir_find bl name ?xs
      else if bs ! k \<noteq> 0 \<and> block_find (bl (bs ! k)) name \<noteq> 0 then block_find (bl (bs ! k)) name else dir_find bl name ?ys)"
    by (subst bs, subst dir_find_append) simp
  show ?thesis
    unfolding up dir_find_append dir_find.simps same using assms(3-5) split by (auto split: if_splits)
qed

text \<open>At most one slot of the directory holds the name.\<close>

definition slot_holds :: "u8 list \<Rightarrow> nat \<Rightarrow> u8 list \<Rightarrow> bool" where
  "slot_holds buf j name \<longleftrightarrow> j < ENTRIES_PER_BLOCK \<and> entry_id buf j \<noteq> 0 \<and> entry_named buf j name"

definition dir_once :: "(u32 \<Rightarrow> u8 list) \<Rightarrow> u8 list \<Rightarrow> u32 list \<Rightarrow> bool" where
  "dir_once bl name bs \<longleftrightarrow> (\<forall>k l i j. k < length bs \<and> l < length bs \<and> bs ! k \<noteq> 0 \<and> bs ! l \<noteq> 0 \<and>
     slot_holds (bl (bs ! k)) i name \<and> slot_holds (bl (bs ! l)) j name \<longrightarrow> k = l \<and> i = j)"

lemma block_find_slots: "block_find buf name = 0 \<longleftrightarrow> (\<forall>j. \<not> slot_holds buf j name)"
  by (auto simp: block_find_zero find_entry_def find_None_iff slot_holds_def)

lemma slot_holds_insert:
  assumes "slot_write buf (entry_bytes i name pad) j" and "block_find buf name = 0" and "dir_name name"
    and "slot_holds (splice (j * SIZEOF_DIR_ENTRY) (entry_bytes i name pad) buf) m name"
  shows "m = j"
proof (rule ccontr)
  assume "m \<noteq> j"
  then have "slot_holds buf m name"
    using assms(4) entry_id_splice [OF assms(1), of m] entry_named_splice [OF assms(1) _ assms(3), of m]
    by (simp add: slot_holds_def)
  then show False using assms(2) by (simp add: block_find_slots)
qed

section \<open>Looking up a name\<close>

context block_store begin

lemma lookup_blocks_ok:
  assumes "dok (disk st)" and "length buf = FS_BLOCK_SIZE"
  shows "\<exists>d. lookup_blocks env name bs buf st = Some (dir_find (blk (disk st)) name bs, st\<lparr>disk := d\<rparr>) \<and>
    dok d \<and> blk d = blk (disk st)"
  using assms
proof (induction bs arbitrary: buf st)
  case Nil
  have "st\<lparr>disk := disk st\<rparr> = st" by (cases st) simp
  then show ?case using Nil by (intro exI [of _ "disk st"]) simp
next
  case (Cons b bs)
  show ?case
  proof (cases "b = 0")
    case True
    then show ?thesis using Cons by simp
  next
    case False
    from Cons.prems obtain d where d: "read_block env b buf st = Some (0, blk (disk st) b, st\<lparr>disk := d\<rparr>)"
      "dok d" "blk d = blk (disk st)" by (rule read_block_ok)
    have "\<exists>d'. lookup_blocks env name bs (blk (disk st) b) (st\<lparr>disk := d\<rparr>) =
        Some (dir_find (blk d) name bs, st\<lparr>disk := d\<rparr>\<lparr>disk := d'\<rparr>) \<and> dok d' \<and> blk d' = blk d"
      using Cons.IH [of "st\<lparr>disk := d\<rparr>" "blk (disk st) b"] d(2) len [OF Cons.prems(1)] by simp
    then show ?thesis using False d
      by (auto simp: block_find_def find_entry_id split: option.splits)
  qed
qed

lemma fs_lookup_ok:
  assumes "dok (disk st)" and "valid_id (current_superblock st) ino"
    and "inode_at (blk (disk st)) (current_superblock st) ino = i" and "i_type i AND FS_INODE_TYPE_DIR \<noteq> 0"
    and "heap_ok (fs_heap st) L" and "heap_fits (fs_heap st) 88" and "length name \<le> FS_MAX_FILENAME_LEN"
  obtains d h where "fs_lookup env ino name st =
      Some (dir_find (blk (disk st)) name (i_direct_blocks i), st\<lparr>disk := d, fs_heap := h\<rparr>)"
    and "dok d" and "blk d = blk (disk st)" and "heap_ok h L" and "heap_fits h 88"
proof -
  from assms(5,6) obtain p h1 h2 where h: "kmalloc (fs_heap st) 88 = Some (p, h1)" "p \<noteq> 0" "kfree h1 p = Some h2"
    "heap_ok h2 L" "heap_fits h2 88" by (rule borrow) blast
  from assms(1,2) h(1,2) obtain d1 where g: "get_inode env ino st = Some (Some (p, i), st\<lparr>disk := d1, fs_heap := h1\<rparr>)"
    "dok d1" "blk d1 = blk (disk st)" by (rule get_inode_ok) (simp add: assms(3))
  let ?st = "st\<lparr>disk := d1, fs_heap := h1\<rparr>"
  obtain d where d: "lookup_blocks env name (i_direct_blocks i) (stack_bytes env) ?st =
      Some (dir_find (blk (disk st)) name (i_direct_blocks i), ?st\<lparr>disk := d\<rparr>)" "dok d" "blk d = blk (disk st)"
    using lookup_blocks_ok [of ?st "stack_bytes env" name "i_direct_blocks i"] g(2,3) stack by auto
  have "is_dir (Some (p, i))" using assms(4) by (simp add: is_dir_def)
  then have "fs_lookup env ino name st = Some (dir_find (blk (disk st)) name (i_direct_blocks i), st\<lparr>disk := d, fs_heap := h2\<rparr>)"
    using assms(7) g(1) d(1) h(3) by (simp add: fs_lookup_def kfree_inode_def fs_kfree_def)
  then show thesis using d h by (intro that)
qed

end

section \<open>Entering a name\<close>

text \<open>The directory \<open>p\<close> becomes \<open>p'\<close>: the name now stands for \<open>i\<close>, in one slot only, every other name for what it stood for before,
  and no block in use (marked in \<open>bm\<close>) changes that is not one of the directory.\<close>

definition dir_entered ::
  "superblock \<Rightarrow> u8 list \<Rightarrow> u8 list \<Rightarrow> u32 \<Rightarrow> (u32 \<Rightarrow> u8 list) \<Rightarrow> inode \<Rightarrow> (u32 \<Rightarrow> u8 list) \<Rightarrow> inode \<Rightarrow> bool" where
  "dir_entered sb bm name i bl p bl' p' \<longleftrightarrow>
     (\<exists>ds. p' = p\<lparr>i_direct_blocks := ds, i_size := i_size p + of_nat SIZEOF_DIR_ENTRY\<rparr>) \<and>
     (\<forall>n. dir_name n \<longrightarrow> dir_find bl' n (i_direct_blocks p') = (if n = name then i else dir_find bl n (i_direct_blocks p))) \<and>
     dir_once bl' name (i_direct_blocks p') \<and>
     (\<forall>x. data_start_block sb < x \<and> bitmap_bit bm (unat x - 1) \<and> x \<notin> set (i_direct_blocks p) \<longrightarrow> bl' x = bl x)"

text \<open>And no inode but that of the directory changes.\<close>

definition entered ::
  "superblock \<Rightarrow> u8 list \<Rightarrow> u32 \<Rightarrow> u8 list \<Rightarrow> u32 \<Rightarrow> (u32 \<Rightarrow> u8 list) \<Rightarrow> inode \<Rightarrow> (u32 \<Rightarrow> u8 list) \<Rightarrow> inode \<Rightarrow> bool" where
  "entered sb bm ino name i bl p bl' p' \<longleftrightarrow> dir_entered sb bm name i bl p bl' p' \<and>
     (\<forall>j. valid_id sb j \<and> j \<noteq> ino \<longrightarrow> inode_at bl' sb j = inode_at bl sb j)"

lemma find_free_entry_Some: "find_free_entry buf = Some j \<Longrightarrow> j < ENTRIES_PER_BLOCK \<and> entry_id buf j = 0"
  by (auto simp: find_free_entry_def dest: find_upt_Some)

lemma find_free_entry_zeros: "\<exists>j. find_free_entry (replicate FS_BLOCK_SIZE 0) = Some j"
proof -
  have "find_free_entry (replicate FS_BLOCK_SIZE 0) \<noteq> None"
    unfolding find_free_entry_def by (auto simp: find_None_iff entry_id_zeros intro!: exI [of _ 0])
  then show ?thesis by auto
qed

text \<open>Writing an entry to block \<open>b\<close> at index \<open>k\<close> of the directory, and then its inode.\<close>

text \<open>The block \<open>buf\<close> an entry goes to, which is block \<open>k\<close> of the directory or a new block of zeros, does not hold the name;
  after the entry was made exactly one slot does.\<close>

lemma entry_block_free:
  assumes ds: "length ds = 10" "k < 10" and name: "dir_find bl name ds = 0"
    and old: "ds ! k \<noteq> 0 \<longrightarrow> b = ds ! k \<and> buf = bl b" and new: "ds ! k = 0 \<longrightarrow> buf = replicate FS_BLOCK_SIZE 0"
  shows "block_find buf name = 0"
proof (cases "ds ! k = 0")
  case True
  then show ?thesis using new by (simp add: block_find_zeros)
next
  case False
  then have "ds ! k \<in> set ds" using ds by simp
  then show ?thesis using False old name by (auto simp: dir_find_zero)
qed

lemma entry_once:
  assumes ds: "length ds = 10" "k < 10" and name: "dir_name name" "dir_find bl name ds = 0"
    and buf: "slot_write buf (entry_bytes i name pad) j" "block_find buf name = 0"
    and at_b: "bl' b = splice (j * SIZEOF_DIR_ENTRY) (entry_bytes i name pad) buf"
    and other: "\<And>l. l < length ds \<Longrightarrow> l \<noteq> k \<Longrightarrow> ds ! l \<noteq> 0 \<Longrightarrow> bl' (ds ! l) = bl (ds ! l)"
  shows "dir_once bl' name (ds[k := b])"
proof -
  have "l = k \<and> m = j" if "l < 10" "ds[k := b] ! l \<noteq> 0" "slot_holds (bl' (ds[k := b] ! l)) m name" for l m
  proof (cases "l = k")
    case True
    then show ?thesis using that at_b slot_holds_insert [OF buf name(1)] ds by simp
  next
    case False
    then have "ds ! l \<noteq> 0" "ds ! l \<in> set ds" using that ds by simp_all
    then have "block_find (bl (ds ! l)) name = 0" using name(2) by (simp add: dir_find_zero)
    then show ?thesis using that other [of l] False \<open>ds ! l \<noteq> 0\<close> ds(1) by (simp add: block_find_slots)
  qed
  then show ?thesis unfolding dir_once_def using ds(1) by (metis length_list_update)
qed

lemma entered_block:
  assumes lay: "layout_ok sb bm" and ok: "file_ok sb bm (p\<lparr>i_direct_blocks := (i_direct_blocks p)[k := b]\<rparr>)"
    and v: "valid_id sb ino" and k: "k < 10" and b: "b \<noteq> 0" and len: "\<And>x. length (bl x) = FS_BLOCK_SIZE"
    and buf: "slot_write buf (entry_bytes i name pad) j" "entry_id buf j = 0"
    and old: "i_direct_blocks p ! k \<noteq> 0 \<longrightarrow> b = i_direct_blocks p ! k \<and> buf = bl b"
    and new: "i_direct_blocks p ! k = 0 \<longrightarrow> buf = replicate FS_BLOCK_SIZE 0 \<and> \<not> bitmap_bit bm0 (unat b - 1)"
    and name: "dir_name name" "dir_find bl name (i_direct_blocks p) = 0" "i \<noteq> 0"
    and bl1: "bl1 = bl(b := splice (j * SIZEOF_DIR_ENTRY) (entry_bytes i name pad) buf)"
    and p': "p' = p\<lparr>i_direct_blocks := (i_direct_blocks p)[k := b], i_size := i_size p + of_nat SIZEOF_DIR_ENTRY\<rparr>"
    and bl': "bl' = inode_put ino p' sb bl1"
  shows "entered sb bm0 ino name i bl p bl' p'" and "inode_at bl' sb ino = p'" and "file_ok sb bm p'"
proof -
  let ?ds = "i_direct_blocks p"
  have len10: "length ?ds = 10" "length (i_direct_blocks p') = 10" using ok p' by (simp_all add: file_ok_def)
  show f: "file_ok sb bm p'" using ok p' by (simp add: file_ok_def)
  have len1: "length (bl1 x) = FS_BLOCK_SIZE" for x
    using len slot_write_length [OF buf(1)] by (simp add: bl1)
  show "inode_at bl' sb ino = p'" unfolding bl' using len10(2) len1 by (rule inode_at_put)
  have ds: "data_start_block sb < ?ds[k := b] ! l" if "l < 10" "?ds[k := b] ! l \<noteq> 0" for l
    using f that by (simp add: file_ok_def p')
  then have db: "data_start_block sb < b" using k b len10 by (metis nth_list_update_eq)
  have ib: "inode_block sb l \<le> data_start_block sb" if "valid_id sb l" for l using layout_blocks(3) [OF lay that] .
  have data: "bl' x = bl1 x" if "data_start_block sb < x" for x
    using that ib [OF v] by (auto simp: bl' inode_put_def)
  have other: "bl' (?ds ! l) = bl (?ds ! l)" if "l < length ?ds" "l \<noteq> k" "?ds ! l \<noteq> 0" for l
  proof -
    have "\<forall>i < 10. \<forall>j < 10. i \<noteq> j \<longrightarrow> ?ds[k := b] ! i \<noteq> 0 \<longrightarrow> ?ds[k := b] ! i \<noteq> ?ds[k := b] ! j"
      using f by (simp add: file_ok_def p')
    from this [rule_format, of l k] have "?ds ! l \<noteq> b" using that k len10 by simp
    moreover have "data_start_block sb < ?ds ! l" using ds [of l] that len10 by simp
    ultimately show ?thesis using data by (simp add: bl1)
  qed
  have z: "block_find buf name = 0" using entry_block_free [OF len10(1) k name(2) old] new by blast
  have at_b: "bl' b = splice (j * SIZEOF_DIR_ENTRY) (entry_bytes i name pad) buf" using data [OF db] by (simp add: bl1)
  have "dir_once bl' name (?ds[k := b])" by (rule entry_once [OF len10(1) k name(1,2) buf(1) z at_b other])
  moreover have find: "dir_find bl' n (?ds[k := b]) = (if n = name then i else dir_find bl n ?ds)" if n: "dir_name n" for n
  proof (rule dir_find_update)
    show "block_find (bl' b) n = (if n = name then i else if ?ds ! k = 0 then 0 else block_find (bl (?ds ! k)) n)"
      unfolding at_b using block_find_insert [OF buf name(3,1) n] z old new by (auto simp: block_find_zeros)
  qed (use k len10 other b name in auto)
  moreover have "inode_at bl' sb l = inode_at bl sb l" if "valid_id sb l" "l \<noteq> ino" for l
  proof -
    have "inode_at bl' sb l = inode_at bl1 sb l"
      unfolding bl' using len10(2) len1 v that lay by (intro inode_at_put_other) (simp_all add: layout_ok_def)
    also have "\<dots> = inode_at bl sb l" using ib [OF that(1)] db by (auto simp: inode_at_def bl1)
    finally show ?thesis .
  qed
  moreover have "bl' x = bl x" if "data_start_block sb < x" "bitmap_bit bm0 (unat x - 1)" "x \<notin> set ?ds" for x
  proof -
    have "x \<noteq> b"
    proof (cases "?ds ! k = 0")
      case True
      then show ?thesis using new that(2) by auto
    next
      case False
      then have "b \<in> set ?ds" using old k len10(1) by simp
      then show ?thesis using that(3) by auto
    qed
    then show ?thesis using data [OF that(1)] by (simp add: bl1)
  qed
  ultimately show "entered sb bm0 ino name i bl p bl' p'" by (auto simp: entered_def dir_entered_def p')
qed

text \<open>A change of the disk outside the data blocks and the inode table does not matter.\<close>

lemma dir_find_data:
  assumes "file_ok sb bm p" and "\<And>x. data_start_block sb < x \<Longrightarrow> bl' x = bl x"
  shows "dir_find bl' n (i_direct_blocks p) = dir_find bl n (i_direct_blocks p)"
proof (rule dir_find_cong)
  fix b assume "b \<in> set (i_direct_blocks p)" "b \<noteq> 0"
  then show "bl' b = bl b" using assms by (auto simp: file_ok_def in_set_conv_nth)
qed

lemma dir_entered_from:
  assumes "dir_entered sb bm0 name i bl p bl' p'" and "file_ok sb bm p" and "\<And>x. data_start_block sb < x \<Longrightarrow> bl x = bl0 x"
  shows "dir_entered sb bm0 name i bl0 p bl' p'"
  using assms(1,3) dir_find_data [OF assms(2,3)] by (simp add: dir_entered_def)

context block_store begin

text \<open>Writing the entry and the inode of the directory, once a slot is found.\<close>

lemma enter_slot:
  assumes st: "dok (disk st)" "block_bitmap st = Some bm" "layout_ok (current_superblock st) bm"
    and ok: "file_ok (current_superblock st) bm (p\<lparr>i_direct_blocks := (i_direct_blocks p)[k := b]\<rparr>)"
    and v: "valid_id (current_superblock st) ino" and k: "k < 10" and b: "b \<noteq> 0"
    and buf: "slot_write buf (entry_bytes i name pad) j" "entry_id buf j = 0"
    and old: "i_direct_blocks p ! k \<noteq> 0 \<longrightarrow> b = i_direct_blocks p ! k \<and> buf = blk (disk st) b"
    and new: "i_direct_blocks p ! k = 0 \<longrightarrow> buf = replicate FS_BLOCK_SIZE 0 \<and> \<not> bitmap_bit bm0 (unat b - 1)"
    and name: "dir_name name" "dir_find (blk (disk st)) name (i_direct_blocks p) = 0" "i \<noteq> 0"
    and p': "p' = p\<lparr>i_direct_blocks := (i_direct_blocks p)[k := b], i_size := i_size p + of_nat SIZEOF_DIR_ENTRY\<rparr>"
  obtains d1 d where "write_block env b (splice (j * SIZEOF_DIR_ENTRY) (entry_bytes i name pad) buf) st = Some (0, st\<lparr>disk := d1\<rparr>)"
    and "write_inode env ino p' (st\<lparr>disk := d1\<rparr>) = Some (0, st\<lparr>disk := d\<rparr>)" and "dok d"
    and "entered (current_superblock st) bm0 ino name i (blk (disk st)) p (blk d) p'"
    and "inode_at (blk d) (current_superblock st) ino = p'" and "file_ok (current_superblock st) bm p'"
proof -
  let ?sb = "current_superblock st" and ?buf = "splice (j * SIZEOF_DIR_ENTRY) (entry_bytes i name pad) buf"
  from st(1) slot_write_length [OF buf(1)] obtain d1 where
    d1: "write_block env b ?buf st = Some (0, st\<lparr>disk := d1\<rparr>)" "dok d1" "blk d1 = (blk (disk st))(b := ?buf)"
    by (rule write_block_ok)
  have "length (i_direct_blocks p') = 10" using ok p' by (simp add: file_ok_def)
  then obtain d where d: "write_inode env ino p' (st\<lparr>disk := d1\<rparr>) = Some (0, st\<lparr>disk := d1\<rparr>\<lparr>disk := d\<rparr>)" "dok d"
    "blk d = inode_put ino p' ?sb (blk d1)"
    using d1(2) v write_inode_ok [of "st\<lparr>disk := d1\<rparr>" ino p'] by auto
  have "entered ?sb bm0 ino name i (blk (disk st)) p (blk d) p'" "inode_at (blk d) ?sb ino = p'" "file_ok ?sb bm p'"
    using entered_block [OF st(3) ok v k b len [OF st(1)] buf old new name d1(3) p' d(3)] by simp_all
  then show thesis using d1(1) d(1,2) by (intro that [of d1 d]) simp_all
qed

text \<open>The two outcomes of the loop of \<open>fs_create\<close> over the blocks from index \<open>k\<close> on: there is no room (every
  remaining block of the directory is full, or no block of the disk is free) and nothing changes, or the
  name is entered.\<close>

definition no_room :: "u8 list \<Rightarrow> inode \<Rightarrow> nat \<Rightarrow> 'd fs_state \<Rightarrow> 'd fs_state option \<Rightarrow> bool" where
  "no_room bm p k st r \<longleftrightarrow> (\<exists>d. r = Some (st\<lparr>disk := d\<rparr>) \<and> dok d \<and> blk d = blk (disk st) \<and>
     ((\<forall>l. k \<le> l \<and> l < 10 \<longrightarrow> i_direct_blocks p ! l \<noteq> 0 \<and> find_free_entry (blk (disk st) (i_direct_blocks p ! l)) = None) \<or>
      (\<forall>j < unat (total_blocks (current_superblock st)). bitmap_bit bm j)))"

definition inserted :: "u8 list \<Rightarrow> u32 \<Rightarrow> u8 list \<Rightarrow> u32 \<Rightarrow> inode \<Rightarrow> 'd fs_state \<Rightarrow> 'd fs_state option \<Rightarrow> bool" where
  "inserted bm ino name i p st r \<longleftrightarrow> (\<exists>p' bm' fr d. r = Some (st\<lparr>block_bitmap := Some bm',
      current_superblock := (current_superblock st)\<lparr>free_blocks := fr\<rparr>, disk := d\<rparr>) \<and> dok d \<and>
    layout_ok (current_superblock st) bm' \<and> file_ok (current_superblock st) bm' p' \<and>
    inode_at (blk d) (current_superblock st) ino = p' \<and>
    entered (current_superblock st) bm ino name i (blk (disk st)) p (blk d) p')"

lemma insert_in_block:
  assumes st: "dok (disk st)" "length buf = FS_BLOCK_SIZE" "block_bitmap st = Some bm"
      "layout_ok (current_superblock st) bm" "file_ok (current_superblock st) bm p" "valid_id (current_superblock st) ino"
    and k: "k < 10" "i_direct_blocks p ! k \<noteq> 0" "find_free_entry (blk (disk st) (i_direct_blocks p ! k)) = Some j"
    and name: "dir_name name" "dir_find (blk (disk st)) name (i_direct_blocks p) = 0" "i \<noteq> 0" "length pad = 3"
  shows "inserted bm ino name i p st (insert_entry env ino (entry_bytes i name pad) (Suc n) k buf p st)"
proof -
  let ?sb = "current_superblock st" and ?ds = "i_direct_blocks p" and ?e = "entry_bytes i name pad"
  let ?b = "?ds ! k"
  let ?p = "p\<lparr>i_direct_blocks := ?ds[k := ?b], i_size := i_size p + of_nat SIZEOF_DIR_ENTRY\<rparr>"
  from st(1,2) obtain d1 where d1: "read_block env ?b buf st = Some (0, blk (disk st) ?b, st\<lparr>disk := d1\<rparr>)"
    "dok d1" "blk d1 = blk (disk st)" by (rule read_block_ok)
  let ?st = "st\<lparr>disk := d1\<rparr>"
  have j: "j < ENTRIES_PER_BLOCK" "entry_id (blk (disk st) ?b) j = 0" using k(3) by (simp_all add: find_free_entry_Some)
  have same: "p\<lparr>i_direct_blocks := ?ds[k := ?b]\<rparr> = p" by (cases p) simp
  have pp: "?p = p\<lparr>i_size := i_size p + of_nat SIZEOF_DIR_ENTRY\<rparr>" by (cases p) simp
  have sw: "slot_write (blk (disk st) ?b) ?e j"
    using entry_bytes_length [OF name(1,4)] len [OF st(1)] j(1) by (simp add: slot_write_def)
  have pre: "dok (disk ?st)" "block_bitmap ?st = Some bm" "layout_ok (current_superblock ?st) bm"
    "file_ok (current_superblock ?st) bm (p\<lparr>i_direct_blocks := ?ds[k := ?b]\<rparr>)" "valid_id (current_superblock ?st) ino"
    "?b \<noteq> 0 \<longrightarrow> ?b = ?b \<and> blk (disk st) ?b = blk (disk ?st) ?b" "?b = 0 \<longrightarrow> blk (disk st) ?b = replicate FS_BLOCK_SIZE 0 \<and> \<not> bitmap_bit bm (unat ?b - 1)"
    "dir_find (blk (disk ?st)) name ?ds = 0"
    using st name(2) d1(2,3) k(2) same by simp_all
  obtain d2 d where "write_block env ?b (splice (j * SIZEOF_DIR_ENTRY) ?e (blk (disk st) ?b)) ?st = Some (0, ?st\<lparr>disk := d2\<rparr>)"
    "write_inode env ino ?p (?st\<lparr>disk := d2\<rparr>) = Some (0, ?st\<lparr>disk := d\<rparr>)" "dok d"
    "entered (current_superblock ?st) bm ino name i (blk (disk ?st)) p (blk d) ?p"
    "inode_at (blk d) (current_superblock ?st) ino = ?p" "file_ok (current_superblock ?st) bm ?p"
    by (rule enter_slot [OF pre(1-5) k(1,2) sw j(2) pre(6,7) name(1) pre(8) name(3) refl])
  then have w: "write_block env ?b (splice (j * SIZEOF_DIR_ENTRY) ?e (blk (disk st) ?b)) ?st = Some (0, st\<lparr>disk := d2\<rparr>)"
    "write_inode env ino ?p (st\<lparr>disk := d2\<rparr>) = Some (0, st\<lparr>disk := d\<rparr>)" "dok d"
    "entered ?sb bm ino name i (blk (disk st)) p (blk d) ?p" "inode_at (blk d) ?sb ino = ?p" "file_ok ?sb bm ?p"
    using d1(3) by simp_all
  have "insert_entry env ino ?e (Suc n) k buf p st = Some (st\<lparr>disk := d\<rparr>)"
    using k(2,3) d1(1) w(1,2) unfolding pp by (simp add: Let_def)
  moreover have "st\<lparr>block_bitmap := Some bm, current_superblock := ?sb\<lparr>free_blocks := free_blocks ?sb\<rparr>, disk := d\<rparr> = st\<lparr>disk := d\<rparr>"
    using st(3) by (cases st) simp
  ultimately show ?thesis unfolding inserted_def using w(3-6) st(4)
    by (intro exI [of _ ?p] exI [of _ bm] exI [of _ "free_blocks ?sb"] exI [of _ d]) simp
qed

lemma insert_in_new_block:
  assumes st: "dok (disk st)" "block_bitmap st = Some bm"
      "layout_ok (current_superblock st) bm" "file_ok (current_superblock st) bm p" "valid_id (current_superblock st) ino"
    and k: "k < 10" "i_direct_blocks p ! k = 0"
    and name: "dir_name name" "dir_find (blk (disk st)) name (i_direct_blocks p) = 0" "i \<noteq> 0" "length pad = 3"
  shows "no_room bm p k st (insert_entry env ino (entry_bytes i name pad) (Suc n) k buf p st) \<or>
    inserted bm ino name i p st (insert_entry env ino (entry_bytes i name pad) (Suc n) k buf p st)"
proof -
  let ?sb = "current_superblock st" and ?ds = "i_direct_blocks p" and ?e = "entry_bytes i name pad"
  have bok: "bitmap_ok bm (total_blocks ?sb)" using st(3) by (simp add: layout_ok_def)
  from st(1,2) bok show ?thesis
  proof (cases rule: allocate_block_ok)
    case full
    have "st\<lparr>disk := disk st\<rparr> = st" by (cases st) simp
    moreover have "insert_entry env ino ?e (Suc n) k buf p st = Some st" using k(2) full(1) by (simp add: Let_def)
    ultimately have "no_room bm p k st (insert_entry env ino ?e (Suc n) k buf p st)"
      unfolding no_room_def using st(1) full(2) by (intro exI [of _ "disk st"]) simp
    then show ?thesis ..
  next
    case (fresh b d1)
    let ?bm = "bitmap_set (unat b - 1) bm" and ?fr = "free_blocks ?sb - 1" and ?z = "replicate FS_BLOCK_SIZE 0"
    let ?st = "st\<lparr>block_bitmap := Some ?bm, current_superblock := ?sb\<lparr>free_blocks := ?fr\<rparr>, disk := d1\<rparr>"
    let ?p = "p\<lparr>i_direct_blocks := ?ds[k := b], i_size := i_size p + of_nat SIZEOF_DIR_ENTRY\<rparr>"
    from find_free_entry_zeros obtain j where z: "find_free_entry ?z = Some j" by blast
    then have j: "j < ENTRIES_PER_BLOCK" "entry_id ?z j = 0" by (simp_all add: find_free_entry_Some)
    have ok: "file_ok ?sb ?bm (p\<lparr>i_direct_blocks := ?ds[k := b]\<rparr>)" using file_ok_set(1) [OF st(3,4) fresh(2-4) k] .
    have lay: "layout_ok ?sb ?bm" using layout_ok_set [OF st(3) fresh(2,3)] .
    have data: "blk d1 x = blk (disk st) x" if "data_start_block ?sb < x" for x
      using that layout_blocks(1) [OF st(3)] by (auto simp: fresh(6))
    have inodes: "inode_at (blk d1) ?sb l = inode_at (blk (disk st)) ?sb l" if "valid_id ?sb l" for l
      unfolding fresh(6) using inode_at_bitmap_block [OF st(3) that] by simp
    have sw: "slot_write ?z ?e j" using entry_bytes_length [OF name(1,4)] j(1) by (simp add: slot_write_def)
    have pre: "dok (disk ?st)" "block_bitmap ?st = Some ?bm" "layout_ok (current_superblock ?st) ?bm"
      "file_ok (current_superblock ?st) ?bm (p\<lparr>i_direct_blocks := ?ds[k := b]\<rparr>)" "valid_id (current_superblock ?st) ino"
      "?ds ! k \<noteq> 0 \<longrightarrow> b = ?ds ! k \<and> ?z = blk (disk ?st) b" "?ds ! k = 0 \<longrightarrow> ?z = replicate FS_BLOCK_SIZE 0 \<and> \<not> bitmap_bit bm (unat b - 1)"
      "dir_find (blk (disk ?st)) name ?ds = 0"
      using fresh(4,5) lay ok st(5) name(2) k(2) dir_find_data [OF st(4) data] by simp_all
    obtain d2 d where "write_block env b (splice (j * SIZEOF_DIR_ENTRY) ?e ?z) ?st = Some (0, ?st\<lparr>disk := d2\<rparr>)"
      "write_inode env ino ?p (?st\<lparr>disk := d2\<rparr>) = Some (0, ?st\<lparr>disk := d\<rparr>)" "dok d"
      "entered (current_superblock ?st) bm ino name i (blk (disk ?st)) p (blk d) ?p"
      "inode_at (blk d) (current_superblock ?st) ino = ?p" "file_ok (current_superblock ?st) ?bm ?p"
      by (rule enter_slot [OF pre(1-5) k(1) fresh(2) sw j(2) pre(6,7) name(1) pre(8) name(3) refl])
    then have w: "write_block env b (splice (j * SIZEOF_DIR_ENTRY) ?e ?z) ?st = Some (0, ?st\<lparr>disk := d2\<rparr>)"
      "write_inode env ino ?p (?st\<lparr>disk := d2\<rparr>) = Some (0, ?st\<lparr>disk := d\<rparr>)" "dok d"
      "entered ?sb bm ino name i (blk d1) p (blk d) ?p" "inode_at (blk d) ?sb ino = ?p" "file_ok ?sb ?bm ?p"
      by (simp_all add: entered_def dir_entered_def)
    have "insert_entry env ino ?e (Suc n) k buf p st = Some (?st\<lparr>disk := d\<rparr>)"
      using k(2) fresh(1,2) z w(1,2) by (simp add: Let_def)
    moreover have "entered ?sb bm ino name i (blk (disk st)) p (blk d) ?p"
      using w(4) dir_entered_from [OF _ st(4) data] inodes by (auto simp: entered_def)
    ultimately have "inserted bm ino name i p st (insert_entry env ino ?e (Suc n) k buf p st)"
      unfolding inserted_def using w(3,5,6) lay by (intro exI [of _ ?p] exI [of _ ?bm] exI [of _ ?fr] exI [of _ d]) simp
    then show ?thesis ..
  qed
qed

lemma no_room_Suc:
  assumes "no_room bm p (Suc k) (st\<lparr>disk := d1\<rparr>) r" and "blk d1 = blk (disk st)"
    and "i_direct_blocks p ! k \<noteq> 0" and "find_free_entry (blk (disk st) (i_direct_blocks p ! k)) = None"
  shows "no_room bm p k st r"
proof -
  from assms(1,2) obtain d where d: "r = Some (st\<lparr>disk := d\<rparr>)" "dok d" "blk d = blk (disk st)"
    "(\<forall>l. Suc k \<le> l \<and> l < 10 \<longrightarrow> i_direct_blocks p ! l \<noteq> 0 \<and> find_free_entry (blk (disk st) (i_direct_blocks p ! l)) = None) \<or>
     (\<forall>j < unat (total_blocks (current_superblock st)). bitmap_bit bm j)" by (auto simp: no_room_def)
  moreover have "i_direct_blocks p ! l \<noteq> 0 \<and> find_free_entry (blk (disk st) (i_direct_blocks p ! l)) = None"
    if "\<forall>l. Suc k \<le> l \<and> l < 10 \<longrightarrow> i_direct_blocks p ! l \<noteq> 0 \<and> find_free_entry (blk (disk st) (i_direct_blocks p ! l)) = None"
      "k \<le> l" "l < 10" for l
    using that assms(3,4) by (cases "l = k") auto
  ultimately show ?thesis unfolding no_room_def by (intro exI [of _ d]) blast
qed

lemma insert_entry_ok:
  assumes "dok (disk st)" and "length buf = FS_BLOCK_SIZE" and "block_bitmap st = Some bm"
    and "layout_ok (current_superblock st) bm" and "file_ok (current_superblock st) bm p"
    and "valid_id (current_superblock st) ino" and "k + n = 10" and "length pad = 3"
    and "dir_name name" and "dir_find (blk (disk st)) name (i_direct_blocks p) = 0" and "i \<noteq> 0"
  shows "no_room bm p k st (insert_entry env ino (entry_bytes i name pad) n k buf p st) \<or>
    inserted bm ino name i p st (insert_entry env ino (entry_bytes i name pad) n k buf p st)"
  using assms(1-7,10)
proof (induction n arbitrary: k buf st)
  case 0
  have "st\<lparr>disk := disk st\<rparr> = st" by (cases st) simp
  then show ?case using 0 by (auto simp: no_room_def intro!: exI [of _ "disk st"])
next
  case (Suc n)
  let ?b = "i_direct_blocks p ! k" and ?e = "entry_bytes i name pad"
  have k: "k < 10" using Suc.prems(7) by simp
  consider (new) "?b = 0" | (old) j where "?b \<noteq> 0" "find_free_entry (blk (disk st) ?b) = Some j"
    | (on) "?b \<noteq> 0" "find_free_entry (blk (disk st) ?b) = None" by fastforce
  then show ?case
  proof cases
    case new
    show ?thesis using Suc.prems k new assms(8,9,11) by (intro insert_in_new_block)
  next
    case old
    show ?thesis using insert_in_block [OF Suc.prems(1-6) k old assms(9) Suc.prems(8) assms(11,8)] by blast
  next
    case on
    from Suc.prems(1,2) obtain d1 where d1: "read_block env ?b buf st = Some (0, blk (disk st) ?b, st\<lparr>disk := d1\<rparr>)"
      "dok d1" "blk d1 = blk (disk st)" by (rule read_block_ok)
    let ?r = "insert_entry env ino ?e n (Suc k) (blk (disk st) ?b) p (st\<lparr>disk := d1\<rparr>)"
    have eq: "insert_entry env ino ?e (Suc n) k buf p st = ?r" using on d1(1) by (simp add: Let_def)
    have "no_room bm p (Suc k) (st\<lparr>disk := d1\<rparr>) ?r \<or> inserted bm ino name i p (st\<lparr>disk := d1\<rparr>) ?r"
      using Suc.prems d1(2,3) len [OF Suc.prems(1)] by (intro Suc.IH) simp_all
    then show ?thesis
    proof
      assume "no_room bm p (Suc k) (st\<lparr>disk := d1\<rparr>) ?r"
      then show ?thesis unfolding eq using no_room_Suc d1(3) on by blast
    next
      assume "inserted bm ino name i p (st\<lparr>disk := d1\<rparr>) ?r"
      then have "inserted bm ino name i p st ?r" using d1(3) by (simp add: inserted_def)
      then show ?thesis unfolding eq ..
    qed
  qed
qed

end

section \<open>Creating a file\<close>

lemma free_inodes_irrelevant [simp]:
  "inode_at bl (sb\<lparr>free_inodes := n\<rparr>) j = inode_at bl sb j" "valid_id (sb\<lparr>free_inodes := n\<rparr>) j = valid_id sb j"
  "layout_ok (sb\<lparr>free_inodes := n\<rparr>) bm = layout_ok sb bm" "file_ok (sb\<lparr>free_inodes := n\<rparr>) bm i = file_ok sb bm i"
  "inode_put j v (sb\<lparr>free_inodes := n\<rparr>) bl = inode_put j v sb bl"
  by (simp_all add: inode_at_def inode_block_def valid_id_def layout_ok_def table_ok_def file_ok_def inode_put_def)

lemma entered_counters [simp]:
  "dir_entered (sb\<lparr>free_inodes := n\<rparr>) = dir_entered sb" "entered (sb\<lparr>free_inodes := n\<rparr>) = entered sb"
  by (simp_all add: entered_def dir_entered_def fun_eq_iff)

text \<open>The inode \<open>fs_create\<close> writes.\<close>

definition new_inode :: "u32 \<Rightarrow> u16 \<Rightarrow> inode" where
  "new_inode ino type = zero_inode\<lparr>i_id := ino, i_type := type, i_permissions := 0x1A4\<rparr>"

lemma new_inode_blocks [simp]: "length (i_direct_blocks (new_inode ino type)) = 10"
  by (simp add: new_inode_def zero_inode_def)

text \<open>An inode copy that stays in the heap while other copies come and go.\<close>

lemma borrow_outer:
  assumes "heap_ok h L" and "kmalloc h 88 = Some (a, h1)" and "a \<noteq> 0"
  obtains k where "heap_ok h1 (insert (unat a, k) L)"
    and "\<And>h2. heap_ok h2 (insert (unat a, k) L) \<Longrightarrow> \<exists>h3. kfree h2 a = Some h3 \<and> heap_ok h3 L \<and> heap_fits h3 88"
proof -
  have sz: "0 < unat (88 :: u64)" "unat (88 :: u64) + 7 < 2 ^ 64" by simp_all
  from assms(1) sz show thesis
  proof (cases rule: kheap.alloc_cases)
    case null
    then show thesis using assms(2,3) by simp
  next
    case (block p s k)
    then have a: "p = a" "s = h1" using assms(2) by simp_all
    have "\<exists>h3. kfree h2 a = Some h3 \<and> heap_ok h3 L \<and> heap_fits h3 88" if ok: "heap_ok h2 (insert (unat a, k) L)" for h2
    proof -
      from kheap.release_spec [OF ok, of "unat a" k] obtain h3 where
        h3: "kfree h2 a = Some h3" "heap_ok h3 (insert (unat a, k) L - {(unat a, k)})" by auto
      moreover have "insert (unat a, k) L - {(unat a, k)} = L" using block(5) a by auto
      moreover have "unat (align8 88) \<le> k" using block(3) by (simp add: unat_align8)
      then have "heap_fits h3 88" using kfree_room [OF ok, of "unat a" k] h3(1) by simp
      ultimately show ?thesis by simp
    qed
    then show thesis using block(4) a by (intro that) auto
  qed
qed

context block_store begin

lemma allocate_inode_ok:
  assumes "dok (disk st)" and "inode_bitmap st = Some ib" and "bitmap_ok ib (total_inodes (current_superblock st))"
  obtains (full) "allocate_inode env st = Some (0, st)"
      and "\<forall>j < unat (total_inodes (current_superblock st)). bitmap_bit ib j"
  | (fresh) i d where "allocate_inode env st = Some (i, st\<lparr>inode_bitmap := Some (bitmap_set (unat i - 1) ib),
        current_superblock := (current_superblock st)\<lparr>free_inodes := free_inodes (current_superblock st) - 1\<rparr>,
        disk := d\<rparr>)"
      and "valid_id (current_superblock st) i" and "\<not> bitmap_bit ib (unat i - 1)"
      and "dok d" and "blk d = (blk (disk st))(inode_bitmap_block (current_superblock st) :=
             take FS_BLOCK_SIZE (bitmap_set (unat i - 1) ib))"
      and "\<forall>j < unat i - 1. bitmap_bit ib j"
proof -
  let ?sb = "current_superblock st"
  from assms(3) bitmap_find_spec [of 0 "unat (total_inodes ?sb)" ib]
  consider (none) "bitmap_find (unat (total_inodes ?sb)) 0 ib = Some None"
      "\<forall>j < unat (total_inodes ?sb). bitmap_bit ib j"
    | (some) r where "bitmap_find (unat (total_inodes ?sb)) 0 ib = Some (Some r)" "r < unat (total_inodes ?sb)"
      "\<not> bitmap_bit ib r" "\<forall>j < r. bitmap_bit ib j"
    by (auto simp: bitmap_ok_def)
  then show thesis
  proof cases
    case none
    then show thesis using assms(2) by (intro full) (simp_all add: allocate_inode_def)
  next
    case (some r)
    let ?ib = "bitmap_set r ib"
    let ?st = "st\<lparr>inode_bitmap := Some ?ib, current_superblock := ?sb\<lparr>free_inodes := free_inodes ?sb - 1\<rparr>\<rparr>"
    have r: "unat (of_nat r + 1 :: u32) = Suc r" using some(2) by (intro unat_Suc32 [of _ "total_inodes ?sb"]) simp
    then have nz: "(of_nat r + 1 :: u32) \<noteq> 0" by (metis nat.simps(3) unat_0)
    have "dok (disk ?st)" "length (take FS_BLOCK_SIZE ?ib) = FS_BLOCK_SIZE"
      using assms(1,3) by (simp_all add: bitmap_ok_def)
    then obtain d where d: "write_block env (inode_bitmap_block ?sb) (take FS_BLOCK_SIZE ?ib) ?st =
        Some (0, ?st\<lparr>disk := d\<rparr>)" "dok d"
      "blk d = (blk (disk ?st))(inode_bitmap_block ?sb := take FS_BLOCK_SIZE ?ib)"
      by (rule write_block_ok)
    have "allocate_inode env st = Some (of_nat r + 1, ?st\<lparr>disk := d\<rparr>)"
      using some(1) assms(2) d(1) by (simp add: allocate_inode_def Let_def)
    moreover have "of_nat r + 1 \<le> total_inodes ?sb" using r some(2) by (simp add: word_le_nat_alt)
    ultimately show thesis using fresh [of "of_nat r + 1" d] some(3,4) d nz r by (simp add: valid_id_def)
  qed
qed

text \<open>Allocating an inode and writing it: the inode table changes there only, and the data blocks not at all.\<close>

lemma make_inode_ok:
  assumes "dok (disk st)" and "inode_bitmap st = Some ib" and "bitmap_ok ib (total_inodes (current_superblock st))"
    and "layout_ok (current_superblock st) bm"
  obtains (full) "allocate_inode env st = Some (0, st)"
      and "\<forall>j < unat (total_inodes (current_superblock st)). bitmap_bit ib j"
  | (made) i d1 d where "allocate_inode env st = Some (i, st\<lparr>inode_bitmap := Some (bitmap_set (unat i - 1) ib),
        current_superblock := (current_superblock st)\<lparr>free_inodes := free_inodes (current_superblock st) - 1\<rparr>,
        disk := d1\<rparr>)"
      and "valid_id (current_superblock st) i" and "\<not> bitmap_bit ib (unat i - 1)"
      and "write_inode env i (new_inode i type) (st\<lparr>inode_bitmap := Some (bitmap_set (unat i - 1) ib),
        current_superblock := (current_superblock st)\<lparr>free_inodes := free_inodes (current_superblock st) - 1\<rparr>,
        disk := d1\<rparr>) = Some (0, st\<lparr>inode_bitmap := Some (bitmap_set (unat i - 1) ib),
        current_superblock := (current_superblock st)\<lparr>free_inodes := free_inodes (current_superblock st) - 1\<rparr>,
        disk := d\<rparr>)" and "dok d"
      and "\<forall>x. data_start_block (current_superblock st) < x \<longrightarrow> blk d x = blk (disk st) x"
      and "\<forall>j. valid_id (current_superblock st) j \<longrightarrow> inode_at (blk d) (current_superblock st) j =
        (if j = i then new_inode i type else inode_at (blk (disk st)) (current_superblock st) j)"
proof -
  let ?sb = "current_superblock st"
  have t: "table_ok ?sb" using assms(4) by (simp add: layout_ok_def)
  from assms(1-3) show thesis
  proof (cases rule: allocate_inode_ok)
    case full
    then show thesis by (rule that(1))
  next
    case (fresh i d1)
    let ?st = "st\<lparr>inode_bitmap := Some (bitmap_set (unat i - 1) ib),
        current_superblock := ?sb\<lparr>free_inodes := free_inodes ?sb - 1\<rparr>, disk := d1\<rparr>"
    have "dok (disk ?st)" "valid_id (current_superblock ?st) i" "length (i_direct_blocks (new_inode i type)) = 10"
      using fresh by simp_all
    then obtain d where "write_inode env i (new_inode i type) ?st = Some (0, ?st\<lparr>disk := d\<rparr>)" "dok d"
      "blk d = inode_put i (new_inode i type) (current_superblock ?st) (blk (disk ?st))" by (rule write_inode_ok)
    then have d: "write_inode env i (new_inode i type) ?st = Some (0, st\<lparr>inode_bitmap := Some (bitmap_set (unat i - 1) ib),
        current_superblock := ?sb\<lparr>free_inodes := free_inodes ?sb - 1\<rparr>, disk := d\<rparr>)" "dok d"
      "blk d = inode_put i (new_inode i type) ?sb (blk d1)" by simp_all
    have "blk d x = blk (disk st) x" if "data_start_block ?sb < x" for x
      using that layout_blocks(2,3) [OF assms(4)] fresh(2) by (force simp: d(3) fresh(5) inode_put_def)
    moreover have "inode_at (blk d1) ?sb j = inode_at (blk (disk st)) ?sb j" if "valid_id ?sb j" for j
      using layout_blocks(5) [OF assms(4) that] by (simp add: inode_at_def fresh(5))
    then have "inode_at (blk d) ?sb j = (if j = i then new_inode i type else inode_at (blk (disk st)) ?sb j)"
      if "valid_id ?sb j" for j
      using that inode_at_put [of "new_inode i type" "blk d1" ?sb i] len [OF fresh(4)]
        inode_at_put_other [of "new_inode i type" "blk d1" ?sb i j] fresh(2) t by (simp add: d(3))
    ultimately show thesis using that(2) [of i d1 d] fresh(1-3) d(1,2) by blast
  qed
qed

end

text \<open>The effect of a successful \<open>fs_create\<close> on the inode table and the inode bitmap.\<close>

definition created :: "superblock \<Rightarrow> u8 list \<Rightarrow> u32 \<Rightarrow> u32 \<Rightarrow> u16 \<Rightarrow> (u32 \<Rightarrow> u8 list) \<Rightarrow> (u32 \<Rightarrow> u8 list) \<Rightarrow> bool" where
  "created sb ib pid i type bl bl' \<longleftrightarrow> valid_id sb i \<and> i \<noteq> pid \<and> \<not> bitmap_bit ib (unat i - 1) \<and>
     inode_at bl' sb i = new_inode i type \<and>
     (\<forall>j. valid_id sb j \<and> j \<noteq> i \<and> j \<noteq> pid \<longrightarrow> inode_at bl' sb j = inode_at bl sb j)"

text \<open>No slot is left for a new entry: all ten blocks of the directory are full, or the disk is.\<close>

definition dir_full :: "superblock \<Rightarrow> u8 list \<Rightarrow> (u32 \<Rightarrow> u8 list) \<Rightarrow> inode \<Rightarrow> bool" where
  "dir_full sb bm bl p \<longleftrightarrow>
     (\<forall>l < 10. i_direct_blocks p ! l \<noteq> 0 \<and> find_free_entry (bl (i_direct_blocks p ! l)) = None) \<or>
     (\<forall>j < unat (total_blocks sb). bitmap_bit bm j)"

context block_store begin

text \<open>The part of \<open>fs_create\<close> after the name has been found to be new.\<close>

lemma create_entry_ok:
  assumes st: "dok (disk st)" "inode_bitmap st = Some ib" "bitmap_ok ib (total_inodes (current_superblock st))"
      "block_bitmap st = Some bm" "open_file (current_superblock st) bm (blk (disk st)) pid p"
      "bitmap_bit ib (unat pid - 1)"
    and name: "dir_name name" "dir_find (blk (disk st)) name (i_direct_blocks p) = 0" "length pad = 3"
    and alloc: "allocate_inode env st = Some (i, st1)" "i \<noteq> 0"
  obtains st2 ib' bm' fi fr d p' where "write_inode env i (new_inode i type) st1 = Some (0, st2)"
    and "insert_entry env pid (entry_bytes i name pad) 10 0 (stack_bytes env) p st2 = Some (st\<lparr>inode_bitmap := Some ib',
      block_bitmap := Some bm', current_superblock := (current_superblock st)\<lparr>free_inodes := fi, free_blocks := fr\<rparr>, disk := d\<rparr>)"
    and "dok d" and "ib' = bitmap_set (unat i - 1) ib" and "created (current_superblock st) ib pid i type (blk (disk st)) (blk d)"
    and "open_file (current_superblock st) bm' (blk d) pid p'"
    and "(bm' = bm \<and> p' = p \<and> dir_full (current_superblock st) bm (blk (disk st)) p \<and>
         (\<forall>x. data_start_block (current_superblock st) < x \<longrightarrow> blk d x = blk (disk st) x)) \<or>
       dir_entered (current_superblock st) bm name i (blk (disk st)) p (blk d) p'"
proof -
  let ?sb = "current_superblock st" and ?ib = "bitmap_set (unat i - 1) ib" and ?fi = "free_inodes (current_superblock st) - 1"
  have lay: "layout_ok ?sb bm" and fok: "file_ok ?sb bm p" and v: "valid_id ?sb pid" and at: "inode_at (blk (disk st)) ?sb pid = p"
    using st(5) by (simp_all add: open_file_def)
  from st(1-3) lay obtain d1 d2 where m: "st1 = st\<lparr>inode_bitmap := Some ?ib, current_superblock := ?sb\<lparr>free_inodes := ?fi\<rparr>, disk := d1\<rparr>"
    "valid_id ?sb i" "\<not> bitmap_bit ib (unat i - 1)"
    "write_inode env i (new_inode i type) st1 =
      Some (0, st\<lparr>inode_bitmap := Some ?ib, current_superblock := ?sb\<lparr>free_inodes := ?fi\<rparr>, disk := d2\<rparr>)" "dok d2"
    "\<forall>x. data_start_block ?sb < x \<longrightarrow> blk d2 x = blk (disk st) x"
    "\<forall>j. valid_id ?sb j \<longrightarrow> inode_at (blk d2) ?sb j = (if j = i then new_inode i type else inode_at (blk (disk st)) ?sb j)"
    using alloc by (cases rule: make_inode_ok [where type = type]) auto
  let ?st2 = "st\<lparr>inode_bitmap := Some ?ib, current_superblock := ?sb\<lparr>free_inodes := ?fi\<rparr>, disk := d2\<rparr>"
  have ne: "i \<noteq> pid" using m(3) st(6) by auto
  have data: "blk d2 x = blk (disk st) x" if "data_start_block ?sb < x" for x using m(6) that by blast
  let ?r = "insert_entry env pid (entry_bytes i name pad) 10 0 (stack_bytes env) p ?st2"
  have "no_room bm p 0 ?st2 ?r \<or> inserted bm pid name i p ?st2 ?r"
  proof (rule insert_entry_ok)
    show "dir_find (blk (disk ?st2)) name (i_direct_blocks p) = 0"
      using name(2) dir_find_data [OF fok data] by simp
  qed (use m(5) stack st(4) lay fok v name(1,3) alloc(2) in simp_all)
  then show thesis
  proof
    assume "no_room bm p 0 ?st2 ?r"
    then obtain d where d: "?r = Some (?st2\<lparr>disk := d\<rparr>)" "dok d" "blk d = blk d2"
      "(\<forall>l < 10. i_direct_blocks p ! l \<noteq> 0 \<and> find_free_entry (blk d2 (i_direct_blocks p ! l)) = None) \<or>
       (\<forall>j < unat (total_blocks ?sb). bitmap_bit bm j)" by (auto simp: no_room_def)
    have "?st2\<lparr>disk := d\<rparr> = st\<lparr>inode_bitmap := Some ?ib, block_bitmap := Some bm,
        current_superblock := ?sb\<lparr>free_inodes := ?fi, free_blocks := free_blocks ?sb\<rparr>, disk := d\<rparr>" using st(4) by (cases st) simp
    moreover have "blk d2 (i_direct_blocks p ! l) = blk (disk st) (i_direct_blocks p ! l)" if "l < 10" "i_direct_blocks p ! l \<noteq> 0" for l
      using that fok data by (simp add: file_ok_def)
    then have "dir_full ?sb bm (blk (disk st)) p" using d(4) unfolding dir_full_def by metis
    moreover have "created ?sb ib pid i type (blk (disk st)) (blk d)" "open_file ?sb bm (blk d) pid p"
      using m(2,3,7) ne lay fok v at unfolding d(3) by (simp_all add: created_def open_file_def)
    ultimately show thesis using that [OF m(4) _ d(2) refl] d(1,3) data by metis
  next
    assume "inserted bm pid name i p ?st2 ?r"
    then obtain p' bm' fr d where d: "?r = Some (?st2\<lparr>block_bitmap := Some bm',
        current_superblock := ?sb\<lparr>free_inodes := ?fi, free_blocks := fr\<rparr>, disk := d\<rparr>)" "dok d"
      "layout_ok ?sb bm'" "file_ok ?sb bm' p'" "inode_at (blk d) ?sb pid = p'"
      "entered ?sb bm pid name i (blk d2) p (blk d) p'" by (auto simp: inserted_def)
    have "?st2\<lparr>block_bitmap := Some bm', current_superblock := ?sb\<lparr>free_inodes := ?fi, free_blocks := fr\<rparr>, disk := d\<rparr> =
        st\<lparr>inode_bitmap := Some ?ib, block_bitmap := Some bm', current_superblock := ?sb\<lparr>free_inodes := ?fi, free_blocks := fr\<rparr>,
          disk := d\<rparr>" by (cases st) simp
    moreover have "created ?sb ib pid i type (blk (disk st)) (blk d)"
      using m(2,3,7) ne d(6) by (simp add: created_def entered_def)
    moreover have "open_file ?sb bm' (blk d) pid p'" using d(3-5) v by (simp add: open_file_def)
    moreover have "dir_entered ?sb bm name i (blk (disk st)) p (blk d) p'"
      using d(6) dir_entered_from [OF _ fok data] by (simp add: entered_def)
    ultimately show thesis using that [OF m(4) _ d(2) refl] d(1) by metis
  qed
qed

end

context block_store begin

text \<open>\<open>fs_create\<close> reads the directory and looks the name up with the copy of the directory's inode in the heap.\<close>

lemma create_prefix_ok:
  assumes st: "dok (disk st)" "valid_id (current_superblock st) pid" "inode_at (blk (disk st)) (current_superblock st) pid = p"
    and dir: "i_type p AND FS_INODE_TYPE_DIR \<noteq> 0" and name: "length name \<le> FS_MAX_FILENAME_LEN"
    and heap: "heap_ok (fs_heap st) L" "kmalloc (fs_heap st) 88 = Some (a, h1)" "a \<noteq> 0" "heap_fits h1 88"
  obtains d1 d h h2 where "get_inode env pid st = Some (Some (a, p), st\<lparr>disk := d1, fs_heap := h1\<rparr>)"
    and "fs_lookup env pid name (st\<lparr>disk := d1, fs_heap := h1\<rparr>) =
      Some (dir_find (blk (disk st)) name (i_direct_blocks p), st\<lparr>disk := d, fs_heap := h\<rparr>)"
    and "dok d" and "blk d = blk (disk st)" and "kfree h a = Some h2" and "heap_ok h2 L" and "heap_fits h2 88"
proof -
  let ?sb = "current_superblock st"
  from heap(1-3) obtain k where k: "heap_ok h1 (insert (unat a, k) L)"
    "\<And>h2. heap_ok h2 (insert (unat a, k) L) \<Longrightarrow> \<exists>h3. kfree h2 a = Some h3 \<and> heap_ok h3 L \<and> heap_fits h3 88"
    by (rule borrow_outer) blast
  from st(1,2) heap(2,3) obtain d1 where g: "get_inode env pid st = Some (Some (a, p), st\<lparr>disk := d1, fs_heap := h1\<rparr>)"
    "dok d1" "blk d1 = blk (disk st)" by (rule get_inode_ok) (simp add: st(3))
  let ?st = "st\<lparr>disk := d1, fs_heap := h1\<rparr>"
  have pre: "dok (disk ?st)" "valid_id (current_superblock ?st) pid"
    "inode_at (blk (disk ?st)) (current_superblock ?st) pid = p" "heap_ok (fs_heap ?st) (insert (unat a, k) L)" "heap_fits (fs_heap ?st) 88"
    using g(2,3) st k(1) heap(4) by simp_all
  obtain d h where l: "fs_lookup env pid name ?st = Some (dir_find (blk (disk ?st)) name (i_direct_blocks p), ?st\<lparr>disk := d, fs_heap := h\<rparr>)"
    "dok d" "blk d = blk (disk ?st)" "heap_ok h (insert (unat a, k) L)"
    by (rule fs_lookup_ok [OF pre(1-3) dir pre(4,5) name])
  from k(2) [OF l(4)] obtain h2 where "kfree h a = Some h2" "heap_ok h2 L" "heap_fits h2 88" by blast
  then show thesis using that [OF g(1)] l(1-3) g(3) by simp
qed

lemma fs_create_refused:
  assumes "dok (disk st)" and "valid_id (current_superblock st) pid"
    and "inode_at (blk (disk st)) (current_superblock st) pid = p"
    and "i_type p AND FS_INODE_TYPE_DIR \<noteq> 0" and "length name \<le> FS_MAX_FILENAME_LEN"
    and "heap_ok (fs_heap st) L" and "kmalloc (fs_heap st) 88 = Some (a, h1)" and "a \<noteq> 0" and "heap_fits h1 88"
    and "dir_find (blk (disk st)) name (i_direct_blocks p) \<noteq> 0"
  obtains d h where "fs_create env pid name type st = Some (0, st\<lparr>disk := d, fs_heap := h\<rparr>)" and "dok d"
    and "blk d = blk (disk st)" and "heap_ok h L" and "heap_fits h 88"
proof -
  from assms(1-9) obtain d1 d h h2 where c: "get_inode env pid st = Some (Some (a, p), st\<lparr>disk := d1, fs_heap := h1\<rparr>)"
    "fs_lookup env pid name (st\<lparr>disk := d1, fs_heap := h1\<rparr>) =
      Some (dir_find (blk (disk st)) name (i_direct_blocks p), st\<lparr>disk := d, fs_heap := h\<rparr>)"
    "dok d" "blk d = blk (disk st)" "kfree h a = Some h2" "heap_ok h2 L" "heap_fits h2 88" by (rule create_prefix_ok)
  have "is_dir (Some (a, p))" using assms(4) by (simp add: is_dir_def)
  then have "fs_create env pid name type st = Some (0, st\<lparr>disk := d, fs_heap := h2\<rparr>)"
    using assms(5,10) c(1,2,5) by (simp add: fs_create_def kfree_inode_def fs_kfree_def)
  then show thesis using c by (intro that)
qed

lemma fs_create_ok:
  assumes st: "dok (disk st)" "inode_bitmap st = Some ib" "bitmap_ok ib (total_inodes (current_superblock st))"
      "block_bitmap st = Some bm" "open_file (current_superblock st) bm (blk (disk st)) pid p"
      "bitmap_bit ib (unat pid - 1)"
    and dir: "i_type p AND FS_INODE_TYPE_DIR \<noteq> 0"
    and heap: "heap_ok (fs_heap st) L" "kmalloc (fs_heap st) 88 = Some (a, h1)" "a \<noteq> 0" "heap_fits h1 88"
    and name: "dir_name name" "dir_find (blk (disk st)) name (i_direct_blocks p) = 0"
  obtains (full) d h where "fs_create env pid name type st = Some (0, st\<lparr>disk := d, fs_heap := h\<rparr>)" and "dok d"
      and "blk d = blk (disk st)" and "heap_ok h L" and "heap_fits h 88"
      and "\<forall>j < unat (total_inodes (current_superblock st)). bitmap_bit ib j"
  | (new) i bm' fi fr d h p' where "fs_create env pid name type st = Some (i, st\<lparr>inode_bitmap := Some (bitmap_set (unat i - 1) ib),
        block_bitmap := Some bm', current_superblock := (current_superblock st)\<lparr>free_inodes := fi, free_blocks := fr\<rparr>,
        disk := d, fs_heap := h\<rparr>)"
      and "dok d" and "heap_ok h L" and "heap_fits h 88"
      and "created (current_superblock st) ib pid i type (blk (disk st)) (blk d)"
      and "open_file (current_superblock st) bm' (blk d) pid p'"
      and "(bm' = bm \<and> p' = p \<and> dir_full (current_superblock st) bm (blk (disk st)) p \<and>
           (\<forall>x. data_start_block (current_superblock st) < x \<longrightarrow> blk d x = blk (disk st) x)) \<or>
         dir_entered (current_superblock st) bm name i (blk (disk st)) p (blk d) p'"
proof -
  let ?sb = "current_superblock st"
  have v: "valid_id ?sb pid" "inode_at (blk (disk st)) ?sb pid = p" "length name \<le> FS_MAX_FILENAME_LEN" "layout_ok ?sb bm"
    using st(5) name(1) by (simp_all add: open_file_def dir_name_def)
  from st(1) v(1,2) dir v(3) heap obtain d1 d2 h h2 where c: "get_inode env pid st = Some (Some (a, p), st\<lparr>disk := d1, fs_heap := h1\<rparr>)"
    "fs_lookup env pid name (st\<lparr>disk := d1, fs_heap := h1\<rparr>) =
      Some (dir_find (blk (disk st)) name (i_direct_blocks p), st\<lparr>disk := d2, fs_heap := h\<rparr>)"
    "dok d2" "blk d2 = blk (disk st)" "kfree h a = Some h2" "heap_ok h2 L" "heap_fits h2 88" by (rule create_prefix_ok)
  have isd: "is_dir (Some (a, p))" using dir by (simp add: is_dir_def)
  let ?st = "st\<lparr>disk := d2, fs_heap := h\<rparr>" and ?pad = "take 3 (stack_bytes env)"
  have pre: "dok (disk ?st)" "inode_bitmap ?st = Some ib" "bitmap_ok ib (total_inodes (current_superblock ?st))"
    "block_bitmap ?st = Some bm" "open_file (current_superblock ?st) bm (blk (disk ?st)) pid p" "length ?pad = 3"
    "dir_find (blk (disk ?st)) name (i_direct_blocks p) = 0"
    using c(3,4) st name(2) stack by simp_all
  from pre(1-3) show thesis
  proof (cases rule: allocate_inode_ok)
    case full
    then have "fs_create env pid name type st = Some (0, st\<lparr>disk := d2, fs_heap := h2\<rparr>)"
      using v(3) isd name(2) c(1,2,5) by (simp add: fs_create_def kfree_inode_def fs_kfree_def)
    then show thesis using that(1) c(3,4,6,7) full(2) by simp
  next
    case (fresh i d3)
    have nz: "i \<noteq> 0" using fresh(2) by (simp add: valid_id_def)
    obtain st2 ib' bm' fi fr d p' where w: "write_inode env i (new_inode i type) (?st\<lparr>inode_bitmap := Some (bitmap_set (unat i - 1) ib),
        current_superblock := (current_superblock ?st)\<lparr>free_inodes := free_inodes (current_superblock ?st) - 1\<rparr>, disk := d3\<rparr>) = Some (0, st2)"
      "insert_entry env pid (entry_bytes i name ?pad) 10 0 (stack_bytes env) p st2 = Some (?st\<lparr>inode_bitmap := Some ib',
        block_bitmap := Some bm', current_superblock := (current_superblock ?st)\<lparr>free_inodes := fi, free_blocks := fr\<rparr>, disk := d\<rparr>)"
      "dok d" "ib' = bitmap_set (unat i - 1) ib" "created (current_superblock ?st) ib pid i type (blk (disk ?st)) (blk d)"
      "open_file (current_superblock ?st) bm' (blk d) pid p'"
      "(bm' = bm \<and> p' = p \<and> dir_full (current_superblock ?st) bm (blk (disk ?st)) p \<and>
         (\<forall>x. data_start_block (current_superblock ?st) < x \<longrightarrow> blk d x = blk (disk ?st) x)) \<or>
       dir_entered (current_superblock ?st) bm name i (blk (disk ?st)) p (blk d) p'"
      by (rule create_entry_ok [OF pre(1-5) st(6) name(1) pre(7,6) fresh(1) nz])
    have "fs_create env pid name type st = Some (i, ?st\<lparr>inode_bitmap := Some ib', block_bitmap := Some bm',
        current_superblock := ?sb\<lparr>free_inodes := fi, free_blocks := fr\<rparr>, disk := d, fs_heap := h2\<rparr>)"
      using v(3) isd name(2) c(1,2,5) fresh(1) nz w(1,2)
      by (simp add: fs_create_def kfree_inode_def fs_kfree_def new_inode_def)
    then show thesis using that(2) [where i = i and bm' = bm' and fi = fi and fr = fr and d = d and h = h2 and p' = p'] w(3-7) c(4,6,7) by simp
  qed
qed

end

section \<open>Removing a name\<close>

lemma entry_named_unique:
  assumes "entry_named buf j name" and "entry_named buf j name'" and "dir_name name" and "dir_name name'"
  shows "name' = name"
proof -
  let ?d = "drop (j * SIZEOF_DIR_ENTRY + 4) buf"
  have "?d = n @ 0 # drop (Suc (length n)) ?d" if "entry_named buf j n" for n
    using that append_take_drop_id [of "Suc (length n)" ?d] by (simp add: entry_named_def slice_def)
  from this [OF assms(1)] this [OF assms(2)] show ?thesis
    using assms(3,4) by (metis zero_split_unique dir_name_def)
qed

abbreviation no_entry :: "u8 list" where "no_entry \<equiv> replicate SIZEOF_DIR_ENTRY 0"

lemma find_entry_slot: "find_entry buf name = Some j \<Longrightarrow> slot_holds buf j name"
  by (auto simp: find_entry_def slot_holds_def dest!: find_upt_Some)

lemma slot_holds_remove:
  assumes "slot_write buf no_entry j" and "dir_name name"
  shows "slot_holds (splice (j * SIZEOF_DIR_ENTRY) no_entry buf) m name \<longleftrightarrow> m \<noteq> j \<and> slot_holds buf m name"
proof (cases "m < ENTRIES_PER_BLOCK")
  case True
  have "(le_word (slice 0 4 no_entry) :: u32) = 0" by (simp only: slice_def drop_replicate take_replicate le_word_zeros)
  then show ?thesis
    using True entry_id_splice [OF assms(1) True] entry_named_splice [OF assms(1) True assms(2)]
    by (cases "m = j") (simp_all add: slot_holds_def)
qed (simp add: slot_holds_def)

text \<open>Clearing the slot of a name changes no other name.\<close>

lemma block_find_remove:
  assumes "slot_write buf no_entry j" and "slot_holds buf j name" and "dir_name name" and "dir_name name'" and "name' \<noteq> name"
  shows "block_find (splice (j * SIZEOF_DIR_ENTRY) no_entry buf) name' = block_find buf name'"
proof -
  let ?b = "splice (j * SIZEOF_DIR_ENTRY) no_entry buf"
  have nj: "\<not> slot_holds buf j name'"
    using assms(2-5) entry_named_unique [of buf j name name'] by (auto simp: slot_holds_def)
  have "find_entry ?b name' = find_entry buf name'"
    unfolding find_entry_def using slot_holds_remove [OF assms(1,4)] nj
    by (intro find_upt_cong) (auto simp: slot_holds_def)
  moreover have "entry_id ?b k = entry_id buf k" if "find_entry buf name' = Some k" for k
  proof -
    have "slot_holds buf k name'" using that by (rule find_entry_slot)
    moreover from this have "k \<noteq> j" using nj by auto
    ultimately show ?thesis using entry_id_splice [OF assms(1), of k] by (simp add: slot_holds_def)
  qed
  ultimately show ?thesis by (auto simp: block_find_def split: option.splits)
qed

text \<open>The directory \<open>p\<close> without the name: every other name stands for what it stood for, and no block outside
  the directory changes.\<close>

definition dir_removed ::
  "superblock \<Rightarrow> u8 list \<Rightarrow> (u32 \<Rightarrow> u8 list) \<Rightarrow> inode \<Rightarrow> (u32 \<Rightarrow> u8 list) \<Rightarrow> bool" where
  "dir_removed sb name bl p bl' \<longleftrightarrow>
     (\<forall>n. dir_name n \<and> n \<noteq> name \<longrightarrow> dir_find bl' n (i_direct_blocks p) = dir_find bl n (i_direct_blocks p)) \<and>
     (dir_once bl name (i_direct_blocks p) \<longrightarrow> dir_find bl' name (i_direct_blocks p) = 0) \<and>
     (\<forall>x. data_start_block sb < x \<and> x \<notin> set (i_direct_blocks p) \<longrightarrow> bl' x = bl x)"

lemma dir_find_same: "(\<And>b. b \<in> set bs \<Longrightarrow> b \<noteq> 0 \<Longrightarrow> block_find (bl' b) name = block_find (bl b) name) \<Longrightarrow>
    dir_find bl' name bs = dir_find bl name bs"
  by (induction bs) auto

lemma removed_block:
  assumes lay: "layout_ok sb bm" and ok: "file_ok sb bm p" and v: "valid_id sb ino" and len: "\<And>x. length (bl x) = FS_BLOCK_SIZE"
    and b: "b \<in> set (i_direct_blocks p)" "b \<noteq> 0" and j: "slot_holds (bl b) j name" and name: "dir_name name"
    and p': "length (i_direct_blocks p') = 10"
    and bl': "bl' = inode_put ino p' sb (bl(b := splice (j * SIZEOF_DIR_ENTRY) no_entry (bl b)))"
  shows "dir_removed sb name bl p bl'" and "inode_at bl' sb ino = p'"
    and "\<And>l. valid_id sb l \<Longrightarrow> l \<noteq> ino \<Longrightarrow> inode_at bl' sb l = inode_at bl sb l"
proof -
  let ?ds = "i_direct_blocks p" and ?bl = "bl(b := splice (j * SIZEOF_DIR_ENTRY) no_entry (bl b))"
  have sw: "slot_write (bl b) no_entry j" using j len by (simp add: slot_write_def slot_holds_def)
  have len1: "length (?bl x) = FS_BLOCK_SIZE" for x using len slot_write_length [OF sw] by simp
  show "inode_at bl' sb ino = p'" unfolding bl' using p' len1 by (rule inode_at_put)
  have data: "bl' x = ?bl x" if "data_start_block sb < x" for x
    using that layout_blocks(3) [OF lay v] by (auto simp: bl' inode_put_def)
  have db: "data_start_block sb < x" if "x \<in> set ?ds" "x \<noteq> 0" for x
    using that ok by (auto simp: file_ok_def in_set_conv_nth)
  have "dir_find bl' n ?ds = dir_find bl n ?ds" if "dir_name n" "n \<noteq> name" for n
    using data [OF db] block_find_remove [OF sw j name that] by (intro dir_find_same) simp
  moreover have "dir_find bl' name ?ds = 0" if once: "dir_once bl name ?ds"
  proof -
    have "\<not> slot_holds (bl' c) m name" if c: "c \<in> set ?ds" "c \<noteq> 0" for c m
    proof
      assume "slot_holds (bl' c) m name"
      then have m: "slot_holds (bl c) m name" "c = b \<Longrightarrow> m \<noteq> j"
        using data [OF db [OF c]] slot_holds_remove [OF sw name] by (auto split: if_splits)
      obtain k l where "k < length ?ds" "?ds ! k = c" "l < length ?ds" "?ds ! l = b"
        using c(1) b(1) unfolding in_set_conv_nth by blast
      then have "k = l \<and> m = j" using once c(2) b(2) m(1) j unfolding dir_once_def by blast
      then show False using m(2) \<open>?ds ! k = c\<close> \<open>?ds ! l = b\<close> by auto
    qed
    then show ?thesis by (simp add: dir_find_zero block_find_slots)
  qed
  moreover have "bl' x = bl x" if "data_start_block sb < x" "x \<notin> set ?ds" for x
    using data [OF that(1)] that(2) b(1) by auto
  ultimately show "dir_removed sb name bl p bl'" by (simp add: dir_removed_def)
  fix l assume l: "valid_id sb l" "l \<noteq> ino"
  have "inode_at bl' sb l = inode_at ?bl sb l"
    unfolding bl' using p' len1 v l lay by (intro inode_at_put_other) (simp_all add: layout_ok_def)
  also have "\<dots> = inode_at bl sb l" using layout_blocks(3) [OF lay l(1)] db [OF b] by (auto simp: inode_at_def)
  finally show "inode_at bl' sb l = inode_at bl sb l" .
qed

context block_store begin

lemma remove_entry_ok:
  assumes "dok (disk st)" and "length buf = FS_BLOCK_SIZE" and "layout_ok (current_superblock st) bm"
    and "file_ok (current_superblock st) bm p" and "valid_id (current_superblock st) pid"
    and "set bs \<subseteq> set (i_direct_blocks p)" and "dir_name name"
    and p': "p' = p\<lparr>i_size := i_size p - of_nat SIZEOF_DIR_ENTRY\<rparr>"
  shows "\<exists>d. remove_entry env pid p name bs buf st = Some (dir_find (blk (disk st)) name bs, st\<lparr>disk := d\<rparr>) \<and> dok d \<and>
    (dir_find (blk (disk st)) name bs = 0 \<longrightarrow> blk d = blk (disk st)) \<and>
    (dir_find (blk (disk st)) name bs \<noteq> 0 \<longrightarrow>
       dir_removed (current_superblock st) name (blk (disk st)) p (blk d) \<and>
       inode_at (blk d) (current_superblock st) pid = p' \<and>
       (\<forall>l. valid_id (current_superblock st) l \<and> l \<noteq> pid \<longrightarrow>
          inode_at (blk d) (current_superblock st) l = inode_at (blk (disk st)) (current_superblock st) l))"
  using assms(1-6)
proof (induction bs arbitrary: buf st)
  case Nil
  have "st\<lparr>disk := disk st\<rparr> = st" by (cases st) simp
  then show ?case using Nil by (intro exI [of _ "disk st"]) simp
next
  case (Cons b bs)
  let ?sb = "current_superblock st" and ?bl = "blk (disk st)"
  show ?case
  proof (cases "b = 0")
    case True
    then show ?thesis using Cons by simp
  next
    case False
    from Cons.prems(1,2) obtain d1 where d1: "read_block env b buf st = Some (0, ?bl b, st\<lparr>disk := d1\<rparr>)"
      "dok d1" "blk d1 = ?bl" by (rule read_block_ok)
    show ?thesis
    proof (cases "find_entry (?bl b) name")
      case None
      then have "dir_find ?bl name (b # bs) = dir_find ?bl name bs" by (simp add: block_find_zero)
      moreover have "remove_entry env pid p name (b # bs) buf st = remove_entry env pid p name bs (?bl b) (st\<lparr>disk := d1\<rparr>)"
        using False None d1(1) by simp
      ultimately show ?thesis
        using Cons.IH [of "st\<lparr>disk := d1\<rparr>" "?bl b"] Cons.prems d1(2,3) len [OF Cons.prems(1)] by simp
    next
      case (Some j)
      note h = find_entry_slot [OF Some]
      let ?buf = "splice (j * SIZEOF_DIR_ENTRY) no_entry (?bl b)"
      have "slot_write (?bl b) no_entry j" using h len [OF Cons.prems(1)] by (simp add: slot_write_def slot_holds_def)
      from slot_write_length [OF this] obtain d2 where
        d2: "write_block env b ?buf (st\<lparr>disk := d1\<rparr>) = Some (0, st\<lparr>disk := d2\<rparr>)" "dok d2" "blk d2 = ?bl(b := ?buf)"
        using d1(2,3) write_block_ok [of "st\<lparr>disk := d1\<rparr>" ?buf b] by auto
      have l10: "length (i_direct_blocks p') = 10" using Cons.prems(4) p' by (simp add: file_ok_def)
      then obtain d where d: "write_inode env pid p' (st\<lparr>disk := d2\<rparr>) = Some (0, st\<lparr>disk := d\<rparr>)" "dok d"
        "blk d = inode_put pid p' ?sb (blk d2)"
        using d2(2) Cons.prems(5) write_inode_ok [of "st\<lparr>disk := d2\<rparr>" pid p'] by auto
      have f: "dir_find ?bl name (b # bs) = entry_id (?bl b) j" "entry_id (?bl b) j \<noteq> 0"
        using False Some find_entry_id [OF Some] by (simp_all add: block_find_def)
      have "remove_entry env pid p name (b # bs) buf st = Some (entry_id (?bl b) j, st\<lparr>disk := d\<rparr>)"
        using False Some d1(1) d2(1) d(1) p' by (simp add: Let_def)
      moreover have bset: "b \<in> set (i_direct_blocks p)" using Cons.prems(6) by simp
      note rb = removed_block [OF Cons.prems(3-5) len [OF Cons.prems(1)] bset False h assms(7) l10 d(3) [unfolded d2(3)]]
      ultimately show ?thesis unfolding f(1) using f(2) d(2) rb by (intro exI [of _ d]) simp
    qed
  qed
qed

end

section \<open>Deleting a file\<close>

lemma bitmap_ok_clear [simp]: "bitmap_ok (bitmap_clear i bm) n = bitmap_ok bm n"
  by (simp add: bitmap_ok_def)

text \<open>The bitmap \<open>bm\<close> after the blocks of a list have been given back.\<close>

definition freed :: "u8 list \<Rightarrow> u32 list \<Rightarrow> u8 list \<Rightarrow> bool" where
  "freed bm bs bm' \<longleftrightarrow> length bm' = length bm \<and>
     (\<forall>j. j div 8 < length bm \<longrightarrow> (bitmap_bit bm' j \<longleftrightarrow> bitmap_bit bm j \<and> (\<forall>b \<in> set bs. b \<noteq> 0 \<longrightarrow> unat b - 1 \<noteq> j)))"

lemma freed_Cons:
  assumes "(unat b - 1) div 8 < length bm" and "b \<noteq> 0" and "freed (bitmap_clear (unat b - 1) bm) bs bm'"
  shows "freed bm (b # bs) bm'"
proof -
  have "bitmap_bit bm' j \<longleftrightarrow> bitmap_bit bm j \<and> (\<forall>c \<in> set (b # bs). c \<noteq> 0 \<longrightarrow> unat c - 1 \<noteq> j)" if "j div 8 < length bm" for j
    using assms(2,3) that bitmap_bit_clear [OF assms(1) that] unfolding freed_def by simp blast
  then show ?thesis using assms(3) by (simp add: freed_def)
qed

lemma unat_inj_pred:
  assumes "unat (b :: u32) - 1 = unat c - 1" and "b \<noteq> 0" and "c \<noteq> 0"
  shows "b = c"
proof -
  have "0 < unat b" "0 < unat c" using assms(2,3) by (simp_all add: unat_gt_0)
  with assms(1) have "unat b = unat c" by linarith
  then show ?thesis by (simp add: word_unat_eq_iff)
qed

text \<open>Giving back the blocks of one file leaves the layout and the other files as they are.\<close>

lemma freed_layout:
  assumes "freed bm (i_direct_blocks i) bm'" and "layout_ok sb bm" and "file_ok sb bm i"
  shows "layout_ok sb bm'"
proof -
  have ok: "bitmap_ok bm (total_blocks sb)" "data_start_block sb < total_blocks sb" using assms(2) by (simp_all add: layout_ok_def)
  have "bitmap_bit bm' j" if j: "j \<le> unat (data_start_block sb)" for j
  proof -
    have "j div 8 < length bm" using j ok by (auto simp: bitmap_ok_def word_less_nat_alt)
    moreover have "unat b - 1 \<noteq> j" if "b \<in> set (i_direct_blocks i)" "b \<noteq> 0" for b
    proof -
      have "unat (data_start_block sb) < unat b" "unat b - 1 \<noteq> unat (data_start_block sb)"
        using that assms(3) by (auto simp: file_ok_def in_set_conv_nth word_less_nat_alt)
      then show ?thesis using j by linarith
    qed
    ultimately show ?thesis using assms(1,2) j by (simp add: freed_def layout_ok_def)
  qed
  then show ?thesis using assms(1,2) by (simp add: layout_ok_def freed_def bitmap_ok_def)
qed

lemma freed_file:
  assumes "freed bm (i_direct_blocks i) bm'" and "file_ok sb bm p" and "bitmap_ok bm (total_blocks sb)"
    and "set (i_direct_blocks i) \<inter> set (i_direct_blocks p) \<subseteq> {0}"
  shows "file_ok sb bm' p"
proof -
  let ?ds = "i_direct_blocks p"
  have "bitmap_bit bm' (unat (?ds ! k) - 1)" if k: "k < 10" "?ds ! k \<noteq> 0" for k
  proof -
    have p: "length ?ds = 10" "?ds ! k \<le> total_blocks sb" "bitmap_bit bm (unat (?ds ! k) - 1)"
      using assms(2) k by (simp_all add: file_ok_def)
    have "unat b - 1 \<noteq> unat (?ds ! k) - 1" if "b \<in> set (i_direct_blocks i)" "b \<noteq> 0" for b
    proof
      assume "unat b - 1 = unat (?ds ! k) - 1"
      then have "b = ?ds ! k" using that(2) k(2) by (rule unat_inj_pred)
      moreover have "?ds ! k \<in> set ?ds" using k(1) p(1) by simp
      ultimately show False using that assms(4) by auto
    qed
    then show ?thesis using assms(1) p(3) bitmap_index [OF assms(3) k(2) p(2)] by (simp add: freed_def)
  qed
  then show ?thesis using assms(2) by (simp add: file_ok_def)
qed

context block_store begin

lemma free_block_ok:
  assumes "dok (disk st)" and "block_bitmap st = Some bm" and "bitmap_ok bm (total_blocks (current_superblock st))"
    and "b \<noteq> 0" and "b \<le> total_blocks (current_superblock st)"
  obtains d where "free_block env b st = Some (st\<lparr>block_bitmap := Some (bitmap_clear (unat b - 1) bm),
      current_superblock := (current_superblock st)\<lparr>free_blocks := free_blocks (current_superblock st) + 1\<rparr>, disk := d\<rparr>)"
    and "dok d" and "blk d = (blk (disk st))(block_bitmap_block (current_superblock st) :=
      take FS_BLOCK_SIZE (bitmap_clear (unat b - 1) bm))"
proof -
  let ?sb = "current_superblock st" and ?bm = "bitmap_clear (unat b - 1) bm"
  let ?st = "st\<lparr>block_bitmap := Some ?bm, current_superblock := ?sb\<lparr>free_blocks := free_blocks ?sb + 1\<rparr>\<rparr>"
  have "dok (disk ?st)" "length (take FS_BLOCK_SIZE ?bm) = FS_BLOCK_SIZE" using assms(1,3) by (simp_all add: bitmap_ok_def)
  then obtain d where d: "write_block env (block_bitmap_block ?sb) (take FS_BLOCK_SIZE ?bm) ?st = Some (0, ?st\<lparr>disk := d\<rparr>)"
    "dok d" "blk d = (blk (disk ?st))(block_bitmap_block ?sb := take FS_BLOCK_SIZE ?bm)" by (rule write_block_ok)
  have "free_block env b st = Some (?st\<lparr>disk := d\<rparr>)"
    using assms(2,4,5) d(1) bitmap_index [OF assms(3-5)] by (simp add: free_block_def Let_def unat_pred32 not_le)
  then show thesis using d(2,3) by (intro that) simp_all
qed

lemma free_inode_ok:
  assumes "dok (disk st)" and "inode_bitmap st = Some ib" and "bitmap_ok ib (total_inodes (current_superblock st))"
    and "valid_id (current_superblock st) i"
  obtains d where "free_inode env i st = Some (st\<lparr>inode_bitmap := Some (bitmap_clear (unat i - 1) ib),
      current_superblock := (current_superblock st)\<lparr>free_inodes := free_inodes (current_superblock st) + 1\<rparr>, disk := d\<rparr>)"
    and "dok d" and "blk d = (blk (disk st))(inode_bitmap_block (current_superblock st) :=
      take FS_BLOCK_SIZE (bitmap_clear (unat i - 1) ib))"
proof -
  let ?sb = "current_superblock st" and ?ib = "bitmap_clear (unat i - 1) ib"
  let ?st = "st\<lparr>inode_bitmap := Some ?ib, current_superblock := ?sb\<lparr>free_inodes := free_inodes ?sb + 1\<rparr>\<rparr>"
  have i: "i \<noteq> 0" "i \<le> total_inodes ?sb" using assms(4) by (simp_all add: valid_id_def)
  have "dok (disk ?st)" "length (take FS_BLOCK_SIZE ?ib) = FS_BLOCK_SIZE" using assms(1,3) by (simp_all add: bitmap_ok_def)
  then obtain d where d: "write_block env (inode_bitmap_block ?sb) (take FS_BLOCK_SIZE ?ib) ?st = Some (0, ?st\<lparr>disk := d\<rparr>)"
    "dok d" "blk d = (blk (disk ?st))(inode_bitmap_block ?sb := take FS_BLOCK_SIZE ?ib)" by (rule write_block_ok)
  have "free_inode env i st = Some (?st\<lparr>disk := d\<rparr>)"
    using assms(2) i d(1) bitmap_index [OF assms(3) i] by (simp add: free_inode_def Let_def unat_pred32 not_le)
  then show thesis using d(2,3) by (intro that) simp_all
qed

lemma free_blocks_of_ok:
  assumes "dok (disk st)" and "block_bitmap st = Some bm" and "bitmap_ok bm (total_blocks (current_superblock st))"
    and "\<forall>b \<in> set bs. b \<le> total_blocks (current_superblock st)"
  shows "\<exists>bm' fr d. free_blocks_of env bs st = Some (st\<lparr>block_bitmap := Some bm',
      current_superblock := (current_superblock st)\<lparr>free_blocks := fr\<rparr>, disk := d\<rparr>) \<and> dok d \<and> freed bm bs bm' \<and>
    (\<forall>x. x \<noteq> block_bitmap_block (current_superblock st) \<longrightarrow> blk d x = blk (disk st) x)"
  using assms
proof (induction bs arbitrary: st bm)
  case Nil
  have "st\<lparr>block_bitmap := Some bm, current_superblock := (current_superblock st)\<lparr>free_blocks := free_blocks (current_superblock st)\<rparr>,
      disk := disk st\<rparr> = st" using Nil(2) by (cases st) simp
  then show ?case using Nil(1) by (intro exI [of _ bm] exI [of _ "free_blocks (current_superblock st)"] exI [of _ "disk st"])
    (simp add: freed_def)
next
  case (Cons b bs)
  let ?sb = "current_superblock st"
  show ?case
  proof (cases "b = 0")
    case True
    then show ?thesis using Cons by (simp add: freed_def)
  next
    case False
    have le: "b \<le> total_blocks ?sb" using Cons.prems(4) by simp
    let ?bm = "bitmap_clear (unat b - 1) bm"
    from Cons.prems(1-3) False le obtain d1 where d1: "free_block env b st = Some (st\<lparr>block_bitmap := Some ?bm,
        current_superblock := ?sb\<lparr>free_blocks := free_blocks ?sb + 1\<rparr>, disk := d1\<rparr>)" "dok d1"
      "blk d1 = (blk (disk st))(block_bitmap_block ?sb := take FS_BLOCK_SIZE ?bm)" by (rule free_block_ok)
    let ?st = "st\<lparr>block_bitmap := Some ?bm, current_superblock := ?sb\<lparr>free_blocks := free_blocks ?sb + 1\<rparr>, disk := d1\<rparr>"
    have "\<exists>bm' fr d. free_blocks_of env bs ?st = Some (?st\<lparr>block_bitmap := Some bm',
        current_superblock := (current_superblock ?st)\<lparr>free_blocks := fr\<rparr>, disk := d\<rparr>) \<and> dok d \<and> freed ?bm bs bm' \<and>
      (\<forall>x. x \<noteq> block_bitmap_block (current_superblock ?st) \<longrightarrow> blk d x = blk (disk ?st) x)"
      by (rule Cons.IH) (use Cons.prems d1(2) in simp_all)
    then obtain bm' fr d where d: "free_blocks_of env bs ?st = Some (st\<lparr>block_bitmap := Some bm',
        current_superblock := ?sb\<lparr>free_blocks := fr\<rparr>, disk := d\<rparr>)" "dok d" "freed ?bm bs bm'"
      "\<forall>x. x \<noteq> block_bitmap_block ?sb \<longrightarrow> blk d x = blk d1 x" by auto
    have "free_blocks_of env (b # bs) st = Some (st\<lparr>block_bitmap := Some bm',
        current_superblock := ?sb\<lparr>free_blocks := fr\<rparr>, disk := d\<rparr>)" using False d1(1) d(1) by simp
    moreover have "freed bm (b # bs) bm'" using freed_Cons [OF bitmap_index [OF Cons.prems(3) False le] False d(3)] .
    ultimately show ?thesis using d(2,4) d1(3) by (intro exI [of _ bm'] exI [of _ fr] exI [of _ d]) simp
  qed
qed

end

text \<open>The effect of \<open>fs_delete\<close> on the disk and on the bitmaps, for a file \<open>t\<close> with inode \<open>ti\<close>.\<close>

definition deleted ::
  "superblock \<Rightarrow> u32 \<Rightarrow> u8 list \<Rightarrow> inode \<Rightarrow> inode \<Rightarrow> u8 list \<Rightarrow> u8 list \<Rightarrow> (u32 \<Rightarrow> u8 list) \<Rightarrow> (u32 \<Rightarrow> u8 list) \<Rightarrow> bool" where
  "deleted sb pid name p ti bm bm' bl bl' \<longleftrightarrow> dir_removed sb name bl p bl' \<and> freed bm (i_direct_blocks ti) bm' \<and>
     open_file sb bm' bl' pid (p\<lparr>i_size := i_size p - of_nat SIZEOF_DIR_ENTRY\<rparr>) \<and>
     (\<forall>j. valid_id sb j \<and> j \<noteq> pid \<longrightarrow> inode_at bl' sb j = inode_at bl sb j)"

lemma dir_removed_from:
  assumes "dir_removed sb name bl p bl1" and "file_ok sb bm p" and "\<And>x. data_start_block sb < x \<Longrightarrow> bl' x = bl1 x"
  shows "dir_removed sb name bl p bl'"
  using assms(1,3) dir_find_data [OF assms(2,3)] by (simp add: dir_removed_def)

context block_store begin

text \<open>The part of \<open>fs_delete\<close> that gives the blocks and the inode back.\<close>

lemma release_file_ok:
  assumes "dok (disk st)" and "inode_bitmap st = Some ib" and "bitmap_ok ib (total_inodes (current_superblock st))"
    and "block_bitmap st = Some bm" and "layout_ok (current_superblock st) bm"
    and "valid_id (current_superblock st) t" and "file_ok (current_superblock st) bm ti"
  obtains bm' fr fi d1 d where "free_blocks_of env (i_direct_blocks ti) st = Some (st\<lparr>block_bitmap := Some bm',
      current_superblock := (current_superblock st)\<lparr>free_blocks := fr\<rparr>, disk := d1\<rparr>)"
    and "free_inode env t (st\<lparr>block_bitmap := Some bm', current_superblock := (current_superblock st)\<lparr>free_blocks := fr\<rparr>, disk := d1\<rparr>) =
      Some (st\<lparr>inode_bitmap := Some (bitmap_clear (unat t - 1) ib), block_bitmap := Some bm',
        current_superblock := (current_superblock st)\<lparr>free_blocks := fr, free_inodes := fi\<rparr>, disk := d\<rparr>)"
    and "dok d" and "freed bm (i_direct_blocks ti) bm'"
    and "\<And>x. data_start_block (current_superblock st) < x \<Longrightarrow> blk d x = blk (disk st) x"
    and "\<And>j. valid_id (current_superblock st) j \<Longrightarrow>
      inode_at (blk d) (current_superblock st) j = inode_at (blk (disk st)) (current_superblock st) j"
proof -
  let ?sb = "current_superblock st"
  have "\<forall>b \<in> set (i_direct_blocks ti). b \<le> total_blocks ?sb"
  proof
    fix b assume "b \<in> set (i_direct_blocks ti)"
    then show "b \<le> total_blocks ?sb" using assms(7) by (cases "b = 0") (auto simp: file_ok_def in_set_conv_nth)
  qed
  with assms(1,4,5) obtain bm' fr d1 where f: "free_blocks_of env (i_direct_blocks ti) st = Some (st\<lparr>block_bitmap := Some bm',
      current_superblock := ?sb\<lparr>free_blocks := fr\<rparr>, disk := d1\<rparr>)" "dok d1" "freed bm (i_direct_blocks ti) bm'"
    "\<forall>x. x \<noteq> block_bitmap_block ?sb \<longrightarrow> blk d1 x = blk (disk st) x"
    using free_blocks_of_ok [of st bm "i_direct_blocks ti"] by (auto simp: layout_ok_def)
  let ?st = "st\<lparr>block_bitmap := Some bm', current_superblock := ?sb\<lparr>free_blocks := fr\<rparr>, disk := d1\<rparr>" and ?fi = "free_inodes ?sb + 1"
  have pre: "dok (disk ?st)" "inode_bitmap ?st = Some ib" "bitmap_ok ib (total_inodes (current_superblock ?st))"
    "valid_id (current_superblock ?st) t" using assms f(2) by simp_all
  obtain d where d: "free_inode env t ?st = Some (?st\<lparr>inode_bitmap := Some (bitmap_clear (unat t - 1) ib),
      current_superblock := (current_superblock ?st)\<lparr>free_inodes := free_inodes (current_superblock ?st) + 1\<rparr>, disk := d\<rparr>)"
    "dok d" "blk d = (blk (disk ?st))(inode_bitmap_block (current_superblock ?st) := take FS_BLOCK_SIZE (bitmap_clear (unat t - 1) ib))"
    by (rule free_inode_ok [OF pre])
  have "free_inode env t ?st = Some (st\<lparr>inode_bitmap := Some (bitmap_clear (unat t - 1) ib), block_bitmap := Some bm',
      current_superblock := ?sb\<lparr>free_blocks := fr, free_inodes := ?fi\<rparr>, disk := d\<rparr>)" using d(1) by (cases st) simp
  moreover have "blk d x = blk (disk st) x" if "data_start_block ?sb < x" for x
    using that layout_blocks(1,2) [OF assms(5)] d(3) f(4) by auto
  moreover have "inode_at (blk d) ?sb j = inode_at (blk (disk st)) ?sb j" if "valid_id ?sb j" for j
    using layout_blocks(4,5) [OF assms(5) that] d(3) f(4) by (simp add: inode_at_def)
  ultimately show thesis using that [OF f(1) _ d(2) f(3)] by blast
qed

lemma fs_delete_missing:
  assumes "dok (disk st)" and "open_file (current_superblock st) bm (blk (disk st)) pid p"
    and "i_type p AND FS_INODE_TYPE_DIR \<noteq> 0" and "dir_name name"
    and "heap_ok (fs_heap st) L" and "heap_fits (fs_heap st) 88" and "dir_find (blk (disk st)) name (i_direct_blocks p) = 0"
  obtains d h where "fs_delete env pid name st = Some (-1, st\<lparr>disk := d, fs_heap := h\<rparr>)" and "dok d"
    and "blk d = blk (disk st)" and "heap_ok h L" and "heap_fits h 88"
proof -
  let ?sb = "current_superblock st"
  have o: "valid_id ?sb pid" "inode_at (blk (disk st)) ?sb pid = p" "layout_ok ?sb bm" "file_ok ?sb bm p"
    using assms(2) by (simp_all add: open_file_def)
  from assms(5,6) obtain a h1 h2 where h: "kmalloc (fs_heap st) 88 = Some (a, h1)" "a \<noteq> 0" "kfree h1 a = Some h2"
    "heap_ok h2 L" "heap_fits h2 88" by (rule borrow) blast
  from assms(1) o(1) h(1,2) obtain d1 where g: "get_inode env pid st = Some (Some (a, p), st\<lparr>disk := d1, fs_heap := h1\<rparr>)"
    "dok d1" "blk d1 = blk (disk st)" by (rule get_inode_ok) (simp add: o(2))
  let ?st = "st\<lparr>disk := d1, fs_heap := h1\<rparr>"
  obtain d where d: "remove_entry env pid p name (i_direct_blocks p) (stack_bytes env) ?st = Some (0, ?st\<lparr>disk := d\<rparr>)"
    "dok d" "blk d = blk (disk st)"
    using remove_entry_ok [of ?st "stack_bytes env" bm p pid "i_direct_blocks p" name, OF _ stack _ _ _ subset_refl assms(4) refl]
      g(2,3) o assms(7) by auto
  have "fs_delete env pid name st = Some (-1, st\<lparr>disk := d, fs_heap := h2\<rparr>)"
    using assms(3,4) g(1) d(1) h(3) by (simp add: fs_delete_def kfree_inode_def fs_kfree_def is_dir_def dir_name_def)
  then show thesis using d h by (intro that)
qed

lemma fs_delete_ok:
  assumes st: "dok (disk st)" "inode_bitmap st = Some ib" "bitmap_ok ib (total_inodes (current_superblock st))"
      "block_bitmap st = Some bm" "open_file (current_superblock st) bm (blk (disk st)) pid p"
    and dir: "i_type p AND FS_INODE_TYPE_DIR \<noteq> 0" and name: "dir_name name"
    and heap: "heap_ok (fs_heap st) L" "heap_fits (fs_heap st) 88"
    and t: "dir_find (blk (disk st)) name (i_direct_blocks p) = t" "t \<noteq> pid"
      "open_file (current_superblock st) bm (blk (disk st)) t ti" "set (i_direct_blocks ti) \<inter> set (i_direct_blocks p) \<subseteq> {0}"
  obtains bm' fr fi d h where "fs_delete env pid name st = Some (0, st\<lparr>inode_bitmap := Some (bitmap_clear (unat t - 1) ib),
      block_bitmap := Some bm', current_superblock := (current_superblock st)\<lparr>free_blocks := fr, free_inodes := fi\<rparr>,
      disk := d, fs_heap := h\<rparr>)"
    and "dok d" and "heap_ok h L" and "heap_fits h 88"
    and "deleted (current_superblock st) pid name p ti bm bm' (blk (disk st)) (blk d)"
proof -
  let ?sb = "current_superblock st" and ?p = "p\<lparr>i_size := i_size p - of_nat SIZEOF_DIR_ENTRY\<rparr>"
  have o: "valid_id ?sb pid" "inode_at (blk (disk st)) ?sb pid = p" "layout_ok ?sb bm" "file_ok ?sb bm p"
    and ot: "valid_id ?sb t" "inode_at (blk (disk st)) ?sb t = ti" "file_ok ?sb bm ti" "t \<noteq> 0"
    using st(5) t(3) by (simp_all add: open_file_def valid_id_def)
  from heap obtain a h1 h2 where h: "kmalloc (fs_heap st) 88 = Some (a, h1)" "a \<noteq> 0" "kfree h1 a = Some h2"
    "heap_ok h2 L" "heap_fits h2 88" by (rule borrow) blast
  from h(4,5) obtain a' h3 h4 where h': "kmalloc h2 88 = Some (a', h3)" "a' \<noteq> 0" "kfree h3 a' = Some h4"
    "heap_ok h4 L" "heap_fits h4 88" by (rule borrow) blast
  from st(1) o(1) h(1,2) obtain d1 where g: "get_inode env pid st = Some (Some (a, p), st\<lparr>disk := d1, fs_heap := h1\<rparr>)"
    "dok d1" "blk d1 = blk (disk st)" by (rule get_inode_ok) (simp add: o(2))
  let ?st = "st\<lparr>disk := d1, fs_heap := h1\<rparr>"
  obtain d2 where d2: "remove_entry env pid p name (i_direct_blocks p) (stack_bytes env) ?st = Some (t, ?st\<lparr>disk := d2\<rparr>)"
    "dok d2" "dir_removed ?sb name (blk (disk st)) p (blk d2)" "inode_at (blk d2) ?sb pid = ?p"
    "\<forall>l. valid_id ?sb l \<and> l \<noteq> pid \<longrightarrow> inode_at (blk d2) ?sb l = inode_at (blk (disk st)) ?sb l"
    using remove_entry_ok [of ?st "stack_bytes env" bm p pid "i_direct_blocks p" name, OF _ stack _ _ _ subset_refl name refl]
      g(2,3) o t(1) ot(4) by auto
  let ?st2 = "st\<lparr>disk := d2, fs_heap := h2\<rparr>"
  have "dok (disk ?st2)" "valid_id (current_superblock ?st2) t" "kmalloc (fs_heap ?st2) 88 = Some (a', h3)" using d2(2) ot(1) h'(1) by simp_all
  then obtain d3 where "get_inode env t ?st2 = Some (Some (a', inode_at (blk (disk ?st2)) (current_superblock ?st2) t), ?st2\<lparr>disk := d3, fs_heap := h3\<rparr>)"
    "dok d3" "blk d3 = blk (disk ?st2)" using h'(2) by (rule get_inode_ok)
  then have g2: "get_inode env t ?st2 = Some (Some (a', ti), st\<lparr>disk := d3, fs_heap := h3\<rparr>)" "dok d3" "blk d3 = blk d2"
    using d2(5) ot(1,2) t(2) by simp_all
  let ?st3 = "st\<lparr>disk := d3, fs_heap := h3\<rparr>"
  have pre: "dok (disk ?st3)" "inode_bitmap ?st3 = Some ib" "bitmap_ok ib (total_inodes (current_superblock ?st3))"
    "block_bitmap ?st3 = Some bm" "layout_ok (current_superblock ?st3) bm" "valid_id (current_superblock ?st3) t"
    "file_ok (current_superblock ?st3) bm ti" using g2(2) st o ot by simp_all
  obtain bm' fr fi d4 d where f: "free_blocks_of env (i_direct_blocks ti) ?st3 = Some (?st3\<lparr>block_bitmap := Some bm',
      current_superblock := (current_superblock ?st3)\<lparr>free_blocks := fr\<rparr>, disk := d4\<rparr>)"
    "free_inode env t (?st3\<lparr>block_bitmap := Some bm', current_superblock := (current_superblock ?st3)\<lparr>free_blocks := fr\<rparr>, disk := d4\<rparr>) =
      Some (?st3\<lparr>inode_bitmap := Some (bitmap_clear (unat t - 1) ib), block_bitmap := Some bm',
        current_superblock := (current_superblock ?st3)\<lparr>free_blocks := fr, free_inodes := fi\<rparr>, disk := d\<rparr>)"
    "dok d" "freed bm (i_direct_blocks ti) bm'"
    "\<And>x. data_start_block (current_superblock ?st3) < x \<Longrightarrow> blk d x = blk (disk ?st3) x"
    "\<And>j. valid_id (current_superblock ?st3) j \<Longrightarrow> inode_at (blk d) (current_superblock ?st3) j = inode_at (blk (disk ?st3)) (current_superblock ?st3) j"
    by (rule release_file_ok [OF pre]) blast
  have "fs_delete env pid name st = Some (0, st\<lparr>inode_bitmap := Some (bitmap_clear (unat t - 1) ib),
      block_bitmap := Some bm', current_superblock := ?sb\<lparr>free_blocks := fr, free_inodes := fi\<rparr>, disk := d, fs_heap := h4\<rparr>)"
    using dir name g(1) d2(1) h(3) g2(1) f(1,2) h'(3) ot(4)
    by (simp add: fs_delete_def kfree_inode_def fs_kfree_def is_dir_def dir_name_def)
  moreover have "dir_removed ?sb name (blk (disk st)) p (blk d)"
    using dir_removed_from [OF d2(3) o(4), of "blk d"] f(5) g2(3) by simp
  moreover have "open_file ?sb bm' (blk d) pid ?p"
    using freed_layout [OF f(4) o(3) ot(3)] freed_file [OF f(4) o(4) _ t(4)] o(1,3) d2(4) f(6) [of pid] g2(3)
    by (simp add: open_file_def layout_ok_def)
  ultimately show thesis using that f(3,4,6) d2(5) g2(3) h'(4,5) by (auto simp: deleted_def)
qed

end

end
