(* ===== verification/Fs_Format.thy ===== *)
theory Fs_Format
  imports Fs_Dir
begin

text \<open>
  \<open>fs_init\<close> of \<^verbatim>\<open>src/kern/fs/fs.c\<close>.  Its first branch formats, but it is taken only when block 0 cannot be read;
  the drivers always report success, so that is the case of no selected device, and everything that branch
  writes is lost but the copies in memory.  The second branch mounts a disk with the magic number and
  gives up on any other.
\<close>

section \<open>Bitmaps of the metadata\<close>

lemma bitmap_bit_zeros: "i < 8 * n \<Longrightarrow> \<not> bitmap_bit (replicate n 0) i"
  by (simp add: bitmap_bit_def less_mult_imp_div_less mult.commute)

lemma mark_blocks_ok:
  assumes "i + k \<le> 8 * length bm"
  shows "\<exists>bm'. mark_blocks k i (bm, sb) = Some (bm', sb\<lparr>free_blocks := free_blocks sb - of_nat k\<rparr>) \<and> length bm' = length bm \<and>
    (\<forall>j < 8 * length bm. bitmap_bit bm' j \<longleftrightarrow> i \<le> j \<and> j < i + k \<or> bitmap_bit bm j)"
  using assms
proof (induction k arbitrary: i bm sb)
  case 0
  have "sb\<lparr>free_blocks := free_blocks sb\<rparr> = sb" by (cases sb) simp
  then show ?case by auto
next
  case (Suc k)
  let ?bm = "bitmap_set i bm" and ?sb = "sb\<lparr>free_blocks := free_blocks sb - 1\<rparr>"
  have i: "i div 8 < length bm" using Suc.prems by simp
  have "Suc i + k \<le> 8 * length ?bm" using Suc.prems by simp
  from Suc.IH [OF this, of ?sb] obtain bm' where
    m: "mark_blocks k (Suc i) (?bm, ?sb) = Some (bm', ?sb\<lparr>free_blocks := free_blocks ?sb - of_nat k\<rparr>)" "length bm' = length bm"
    "\<forall>j < 8 * length bm. bitmap_bit bm' j \<longleftrightarrow> Suc i \<le> j \<and> j < Suc i + k \<or> bitmap_bit ?bm j" by auto
  have "bitmap_bit bm' j \<longleftrightarrow> i \<le> j \<and> j < i + Suc k \<or> bitmap_bit bm j" if "j < 8 * length bm" for j
  proof -
    have "j div 8 < length bm" using that by (simp add: less_mult_imp_div_less mult.commute)
    then show ?thesis using m(3) that bitmap_bit_set [OF i] by (cases "i = j") auto
  qed
  moreover have "mark_blocks (Suc k) i (bm, sb) = Some (bm', sb\<lparr>free_blocks := free_blocks sb - of_nat (Suc k)\<rparr>)"
    using i m(1) by (simp add: algebra_simps)
  ultimately show ?case using m(2) by blast
qed

section \<open>Formatting\<close>

lemma formatted:
  "total_blocks formatted_superblock = 1024" "total_inodes formatted_superblock = 128"
  "inode_bitmap_block formatted_superblock = 1" "block_bitmap_block formatted_superblock = 2"
  "inode_table_start_block formatted_superblock = 3" "data_start_block formatted_superblock = 6"
  "free_blocks formatted_superblock = 1018" "free_inodes formatted_superblock = 128" "magic formatted_superblock = FS_MAGIC"
  by (simp_all add: formatted_superblock_def bitmap_blocks_def Let_def)

lemma formatted_bitmap_blocks: "bitmap_blocks 128 = 1" "bitmap_blocks 1024 = 1"
  by (simp_all add: bitmap_blocks_def)

text \<open>The superblock after formatting; its count of free blocks is 1011, for 1017 clear bits.\<close>

definition mounted_superblock :: superblock where
  "mounted_superblock = formatted_superblock\<lparr>free_blocks := 1011, free_inodes := 127, root_inode := 1\<rparr>"

lemma mounted:
  "total_blocks mounted_superblock = 1024" "total_inodes mounted_superblock = 128"
  "magic mounted_superblock = FS_MAGIC" "bitmap_blocks 128 = 1" "bitmap_blocks 1024 = 1"
  by (simp_all add: mounted_superblock_def formatted formatted_bitmap_blocks)

text \<open>The bitmaps after formatting: the metadata blocks and the first inode are in use, and nothing else.\<close>

definition formatted_bitmaps :: "u8 list \<Rightarrow> u8 list \<Rightarrow> bool" where
  "formatted_bitmaps ib bm \<longleftrightarrow> length ib = FS_BLOCK_SIZE \<and> length bm = FS_BLOCK_SIZE \<and>
     (\<forall>j < 128. bitmap_bit ib j \<longleftrightarrow> j = 0) \<and> (\<forall>j < 1024. bitmap_bit bm j \<longleftrightarrow> j < 7)"

lemma superblock_of_take: "take SIZEOF_SUPERBLOCK buf = superblock_bytes s \<Longrightarrow> superblock_of buf = s"
proof -
  assume *: "take SIZEOF_SUPERBLOCK buf = superblock_bytes s"
  have "superblock_of buf = superblock_of (take SIZEOF_SUPERBLOCK buf)"
    by (simp add: superblock_of_def slice_def take_drop min_def)
  then show ?thesis unfolding * by (simp add: superblock.dec_enc)
qed

lemma root_inode_bit:
  assumes "j < 128"
  shows "bitmap_bit (bitmap_set 0 (replicate FS_BLOCK_SIZE 0)) j \<longleftrightarrow> j = 0"
proof -
  have "j div 8 < length (replicate FS_BLOCK_SIZE (0 :: u8))" using assms by simp
  then have "bitmap_bit (bitmap_set 0 (replicate FS_BLOCK_SIZE 0)) j \<longleftrightarrow> 0 = j \<or> bitmap_bit (replicate FS_BLOCK_SIZE 0) j"
    by (intro bitmap_bit_set) simp_all
  then show ?thesis using bitmap_bit_zeros [of j FS_BLOCK_SIZE] assms by auto
qed

lemma new_bitmap_ok:
  assumes "kmalloc (fs_heap st) 4096 = Some (p, h)" and "p \<noteq> 0"
  shows "\<exists>b. new_bitmap env 1 st = Some (Some b, st\<lparr>fs_heap := h\<rparr>) \<and> length b = FS_BLOCK_SIZE"
  using assms by (simp add: new_bitmap_def fs_kmalloc_def)

section \<open>No device\<close>

text \<open>A device that refuses every request: \<open>media\<close> is what it stores.\<close>

locale dead_store =
  fixes env :: "'d fs_env"
    and dead :: "'d \<Rightarrow> bool"
    and media :: "'d \<Rightarrow> 'm"
  assumes dead_rd: "dead d \<Longrightarrow> length buf = FS_BLOCK_SIZE \<Longrightarrow>
      \<exists>d'. bd_read env (ucast (b :: u32)) 1 buf d = Some (-1, buf, d') \<and> dead d' \<and> media d' = media d"
    and dead_wr: "dead d \<Longrightarrow> length buf = FS_BLOCK_SIZE \<Longrightarrow>
      \<exists>d'. bd_write env (ucast (b :: u32)) 1 buf d = Some (-1, d') \<and> dead d' \<and> media d' = media d"
    and dead_stack: "length (stack_bytes env) = FS_BLOCK_SIZE"
begin

lemma dead_read_block:
  assumes "dead (disk st)" and "length buf = FS_BLOCK_SIZE"
  obtains d where "read_block env b buf st = Some (-1, buf, st\<lparr>disk := d\<rparr>)" and "dead d" and "media d = media (disk st)"
  using dead_rd [OF assms, of b] by (auto simp: read_block_def)

lemma dead_write_block:
  assumes "dead (disk st)" and "length buf = FS_BLOCK_SIZE"
  obtains d where "write_block env b buf st = Some (-1, st\<lparr>disk := d\<rparr>)" and "dead d" and "media d = media (disk st)"
  using dead_wr [OF assms, of b] by (auto simp: write_block_def)

text \<open>The root inode: its bit is set in memory, and \<open>write_inode\<close> gives up.\<close>

lemma dead_allocate_root:
  assumes "dead (disk st)" and "inode_bitmap st = Some (replicate FS_BLOCK_SIZE 0)"
    and "current_superblock st = formatted_superblock\<lparr>free_blocks := n\<rparr>"
  obtains d where "allocate_inode env st = Some (1, st\<lparr>inode_bitmap := Some (bitmap_set 0 (replicate FS_BLOCK_SIZE 0)),
      current_superblock := formatted_superblock\<lparr>free_blocks := n, free_inodes := 127\<rparr>, disk := d\<rparr>)"
    and "dead d" and "media d = media (disk st)"
proof -
  let ?z = "replicate FS_BLOCK_SIZE (0 :: u8)"
  let ?st = "st\<lparr>inode_bitmap := Some (bitmap_set 0 ?z), current_superblock := formatted_superblock\<lparr>free_blocks := n, free_inodes := 127\<rparr>\<rparr>"
  have "\<not> bitmap_bit ?z 0" using bitmap_bit_zeros [of 0 FS_BLOCK_SIZE] by simp
  then have find: "bitmap_find (Suc 127) 0 ?z = Some (Some 0)" unfolding bitmap_find.simps(2) by simp
  have "dead (disk ?st)" "length (bitmap_set 0 ?z) = FS_BLOCK_SIZE" using assms(1) by simp_all
  then obtain d where d: "write_block env 1 (bitmap_set 0 ?z) ?st = Some (-1, ?st\<lparr>disk := d\<rparr>)" "dead d" "media d = media (disk ?st)"
    by (rule dead_write_block)
  have "unat (total_inodes (current_superblock st)) = Suc 127" by (simp add: assms(3) formatted)
  then have "allocate_inode env st = Some (1, ?st\<lparr>disk := d\<rparr>)"
    using assms(2,3) find d(1) by (simp add: allocate_inode_def Let_def formatted del: bitmap_find.simps)
  then show thesis using d by (intro that [of d]) simp_all
qed

lemma dead_write_inode:
  assumes "dead (disk st)" and "0 < i" and "i \<le> total_inodes (current_superblock st)"
  obtains d where "write_inode env i n st = Some (-1, st\<lparr>disk := d\<rparr>)" and "dead d" and "media d = media (disk st)"
proof -
  from assms(1) dead_stack obtain d where "read_block env (inode_block (current_superblock st) i) (stack_bytes env) st =
      Some (-1, stack_bytes env, st\<lparr>disk := d\<rparr>)" "dead d" "media d = media (disk st)" by (rule dead_read_block)
  then show thesis using assms(2,3) by (intro that [of d]) (auto simp: write_inode_def Let_def)
qed

text \<open>\<open>fs_init\<close> without a device: the bitmaps and the superblock of a new file system in memory, nothing stored.\<close>

lemma dead_fs_init:
  assumes "dead (disk st)"
    and "kmalloc (fs_heap st) 4096 = Some (a, h1)" and "a \<noteq> 0" and "kmalloc h1 4096 = Some (b, h2)" and "b \<noteq> 0"
  obtains ib bm d where "fs_init env st = Some (st\<lparr>current_superblock := mounted_superblock,
      inode_bitmap := Some ib, block_bitmap := Some bm, disk := d, fs_heap := h2\<rparr>)"
    and "dead d" and "media d = media (disk st)" and "formatted_bitmaps ib bm"
proof -
  let ?z = "replicate FS_BLOCK_SIZE (0 :: u8)" and ?sb = formatted_superblock
  let ?buf = "splice 0 (superblock_bytes ?sb) (stack_bytes env)" and ?sb1 = "?sb\<lparr>free_blocks := 1011\<rparr>"
  have lb: "length ?buf = FS_BLOCK_SIZE"
    using superblock.splice_length [where v = ?sb and off = 0 and buf = "stack_bytes env"] dead_stack by simp
  from assms(1) dead_stack obtain d0 where d0: "read_block env 0 (stack_bytes env) st = Some (-1, stack_bytes env, st\<lparr>disk := d0\<rparr>)"
    "dead d0" "media d0 = media (disk st)" by (rule dead_read_block)
  let ?st0 = "st\<lparr>disk := d0, current_superblock := ?sb\<rparr>"
  have "dead (disk ?st0)" using d0(2) by simp
  from this lb obtain d1 where d1: "write_block env 0 ?buf ?st0 = Some (-1, ?st0\<lparr>disk := d1\<rparr>)" "dead d1" "media d1 = media (disk ?st0)"
    by (rule dead_write_block)
  let ?st1 = "?st0\<lparr>disk := d1\<rparr>"
  obtain b1 where b1: "new_bitmap env 1 ?st1 = Some (Some b1, ?st1\<lparr>fs_heap := h1\<rparr>)" "length b1 = FS_BLOCK_SIZE"
    using new_bitmap_ok [of ?st1 a h1] assms(2,3) by auto
  obtain b2 where b2: "new_bitmap env 1 (?st1\<lparr>fs_heap := h1\<rparr>) = Some (Some b2, ?st1\<lparr>fs_heap := h2\<rparr>)" "length b2 = FS_BLOCK_SIZE"
    using new_bitmap_ok [of "?st1\<lparr>fs_heap := h1\<rparr>" b h2] assms(4,5) by auto
  obtain bm where bm: "mark_blocks 7 0 (?z, ?sb) = Some (bm, ?sb1)" "length bm = FS_BLOCK_SIZE"
    "\<forall>j < 8 * FS_BLOCK_SIZE. bitmap_bit bm j \<longleftrightarrow> j < 7"
    using mark_blocks_ok [of 0 7 ?z ?sb] bitmap_bit_zeros [of _ FS_BLOCK_SIZE] by (auto simp: formatted)
  let ?st2 = "?st1\<lparr>fs_heap := h2, inode_bitmap := Some ?z, block_bitmap := Some bm, current_superblock := ?sb1\<rparr>"
  have "dead (disk ?st2)" using d1(2) by simp
  from this length_replicate obtain d2 where d2: "write_block env 1 ?z ?st2 = Some (-1, ?st2\<lparr>disk := d2\<rparr>)" "dead d2" "media d2 = media (disk ?st2)"
    by (rule dead_write_block)
  have "dead (disk (?st2\<lparr>disk := d2\<rparr>))" using d2(2) by simp
  from this bm(2) obtain d3 where d3: "write_block env 2 bm (?st2\<lparr>disk := d2\<rparr>) = Some (-1, ?st2\<lparr>disk := d2\<rparr>\<lparr>disk := d3\<rparr>)" "dead d3"
    "media d3 = media (disk (?st2\<lparr>disk := d2\<rparr>))" by (rule dead_write_block)
  let ?st3 = "?st2\<lparr>disk := d3\<rparr>"
  have "dead (disk ?st3)" "inode_bitmap ?st3 = Some ?z" "current_superblock ?st3 = ?sb1" using d3(2) by simp_all
  then obtain d4 where d4: "allocate_inode env ?st3 = Some (1, ?st3\<lparr>inode_bitmap := Some (bitmap_set 0 ?z),
      current_superblock := ?sb1\<lparr>free_inodes := 127\<rparr>, disk := d4\<rparr>)" "dead d4" "media d4 = media (disk ?st3)"
    by (rule dead_allocate_root) simp
  let ?st4 = "?st3\<lparr>inode_bitmap := Some (bitmap_set 0 ?z), current_superblock := ?sb1\<lparr>free_inodes := 127\<rparr>, disk := d4\<rparr>"
  let ?root = "zero_inode\<lparr>i_id := 1, i_type := FS_INODE_TYPE_DIR, i_permissions := 0x1ED\<rparr>"
  have "dead (disk ?st4)" "0 < (1 :: u32)" "1 \<le> total_inodes (current_superblock ?st4)" using d4(2) by (simp_all add: formatted)
  then obtain d5 where d5: "write_inode env 1 ?root ?st4 = Some (-1, ?st4\<lparr>disk := d5\<rparr>)" "dead d5" "media d5 = media (disk ?st4)"
    by (rule dead_write_inode)
  let ?st5 = "?st4\<lparr>disk := d5, current_superblock := mounted_superblock\<rparr>" and ?buf2 = "splice 0 (superblock_bytes mounted_superblock) ?buf"
  have "dead (disk ?st5)" "length ?buf2 = FS_BLOCK_SIZE"
    using d5(2) superblock.splice_length [where v = mounted_superblock and off = 0 and buf = ?buf] lb by simp_all
  then obtain d where d: "write_block env 0 ?buf2 ?st5 = Some (-1, ?st5\<lparr>disk := d\<rparr>)" "dead d" "media d = media (disk ?st5)"
    by (rule dead_write_block)
  have sbs: "?sb1\<lparr>free_inodes := 127\<rparr>\<lparr>root_inode := 1\<rparr> = mounted_superblock" by (simp add: mounted_superblock_def)
  have "fs_init env st = Some (?st5\<lparr>disk := d\<rparr>)"
    using d0(1) d1(1) b1 b2 bm(1,2) d2(1) d3(1) d4(1) d5(1) d(1) sbs
    by (simp add: fs_init_def fs_format_def Let_def formatted formatted_bitmap_blocks del: mark_blocks.simps)
  moreover have "media d = media (disk st)" using d0(3) d1(3) d2(3) d3(3) d4(3) d5(3) d(3) by simp
  moreover have "formatted_bitmaps (bitmap_set 0 ?z) bm" using bm(2,3) root_inode_bit by (simp add: formatted_bitmaps_def)
  ultimately show thesis using d(2) by (intro that [where d = d and ib = "bitmap_set 0 ?z" and bm = bm]) simp_all
qed

end

section \<open>A disk that can be read\<close>

context block_store begin

lemma fs_init_mounts:
  assumes "dok (disk st)" and "take SIZEOF_SUPERBLOCK (blk (disk st) 0) = superblock_bytes sb" and "magic sb = FS_MAGIC"
    and "bitmap_blocks (total_inodes sb) = 1" and "bitmap_blocks (total_blocks sb) = 1"
    and "kmalloc (fs_heap st) 4096 = Some (a, h1)" and "a \<noteq> 0" and "kmalloc h1 4096 = Some (b, h2)" and "b \<noteq> 0"
  obtains d where "fs_init env st = Some (st\<lparr>current_superblock := sb, inode_bitmap := Some (blk (disk st) (inode_bitmap_block sb)),
      block_bitmap := Some (blk (disk st) (block_bitmap_block sb)), disk := d, fs_heap := h2\<rparr>)"
    and "dok d" and "blk d = blk (disk st)"
proof -
  let ?ib = "blk (disk st) (inode_bitmap_block sb)" and ?bm = "blk (disk st) (block_bitmap_block sb)"
  from assms(1) stack obtain d0 where d0: "read_block env 0 (stack_bytes env) st = Some (0, blk (disk st) 0, st\<lparr>disk := d0\<rparr>)"
    "dok d0" "blk d0 = blk (disk st)" by (rule read_block_ok)
  note f = superblock_of_take [OF assms(2)] len [OF assms(1)]
  let ?st0 = "st\<lparr>disk := d0, current_superblock := sb\<rparr>"
  obtain b1 where b1: "new_bitmap env 1 ?st0 = Some (Some b1, ?st0\<lparr>fs_heap := h1\<rparr>)" "length b1 = FS_BLOCK_SIZE"
    using new_bitmap_ok [of ?st0 a h1] assms(6,7) by auto
  obtain b2 where b2: "new_bitmap env 1 (?st0\<lparr>fs_heap := h1\<rparr>) = Some (Some b2, ?st0\<lparr>fs_heap := h2\<rparr>)" "length b2 = FS_BLOCK_SIZE"
    using new_bitmap_ok [of "?st0\<lparr>fs_heap := h1\<rparr>" b h2] assms(8,9) by auto
  from d0(2) b1(2) obtain d1 where d1: "read_block env (inode_bitmap_block sb) b1 (?st0\<lparr>fs_heap := h2\<rparr>) = Some (0, ?ib, ?st0\<lparr>fs_heap := h2, disk := d1\<rparr>)"
    "dok d1" "blk d1 = blk (disk st)"
    using read_block_ok [of "?st0\<lparr>fs_heap := h2\<rparr>" b1 "inode_bitmap_block sb"] d0(3) by auto
  from d1(2) b2(2) obtain d2 where d2: "read_block env (block_bitmap_block sb) b2 (?st0\<lparr>fs_heap := h2, disk := d1\<rparr>) = Some (0, ?bm, ?st0\<lparr>fs_heap := h2, disk := d2\<rparr>)"
    "dok d2" "blk d2 = blk (disk st)"
    using read_block_ok [of "?st0\<lparr>fs_heap := h2, disk := d1\<rparr>" b2 "block_bitmap_block sb"] d1(3) by auto
  have sp: "splice 0 xs ys = xs" if "length xs = FS_BLOCK_SIZE" "length ys = FS_BLOCK_SIZE" for xs ys :: "u8 list"
    using that by (simp add: splice_def)
  have "fs_init env st = Some (?st0\<lparr>fs_heap := h2, disk := d2, inode_bitmap := Some ?ib, block_bitmap := Some ?bm\<rparr>)"
    using d0(1) f(1) b1 b2 d1(1) d2(1) sp f(2) assms(3-5)
    by (simp add: fs_init_def Let_def)
  then show thesis using d2 by (intro that [of d2]) simp_all
qed

lemma fs_init_gives_up:
  assumes "dok (disk st)" and "take SIZEOF_SUPERBLOCK (blk (disk st) 0) = superblock_bytes sb" and "magic sb \<noteq> FS_MAGIC"
  obtains d where "fs_init env st = Some (st\<lparr>current_superblock := sb, disk := d\<rparr>)" and "dok d" and "blk d = blk (disk st)"
proof -
  from assms(1) stack obtain d0 where d0: "read_block env 0 (stack_bytes env) st = Some (0, blk (disk st) 0, st\<lparr>disk := d0\<rparr>)"
    "dok d0" "blk d0 = blk (disk st)" by (rule read_block_ok)
  with superblock_of_take [OF assms(2)] assms(3) show thesis
    by (intro that [of d0]) (simp_all add: fs_init_def Let_def)
qed

end

text \<open>Without bitmaps the allocation of an inode or a block reads through a null pointer.\<close>

lemma allocate_without_bitmap:
  "inode_bitmap st = None \<Longrightarrow> allocate_inode env st = None" "block_bitmap st = None \<Longrightarrow> allocate_block env st = None"
  by (simp_all add: allocate_inode_def allocate_block_def)

end
