(* ===== verification/Fs_Ufs.thy ===== *)
theory Fs_Ufs
  imports Fs_Format Block_Device
begin

text \<open>
  The file system on the UFS driver: the driver with a controller that keeps its contract fulfils the
  contract \<open>block_store\<close>, so the properties of the file operations hold for the two together.
\<close>

section \<open>The file system on the UFS driver\<close>

text \<open>The block operations of \<open>fs.c\<close> with the driver: the buffer lies in memory at \<open>stk\<close> while the driver runs.\<close>

definition ufs_env :: "'h hw \<Rightarrow> u64 \<Rightarrow> u8 list \<Rightarrow> 'h bdev fs_env" where
  "ufs_env hw stk junk =
     \<lparr>bd_read = (\<lambda>lba n buf d. do {
        (rc, d) \<leftarrow> block_device_read hw lba n stk (d\<lparr>bd_mem := write_bytes (bd_mem d) stk buf\<rparr>);
        Some (rc, read_bytes (bd_mem d) stk (length buf), d) }),
      bd_write = (\<lambda>lba n buf d. block_device_write hw lba n stk (d\<lparr>bd_mem := write_bytes (bd_mem d) stk buf\<rparr>)),
      stack_bytes = junk\<rparr>"

abbreviation ufs_blk :: "('h \<Rightarrow> ufs_ctrl) \<Rightarrow> 'h bdev \<Rightarrow> u32 \<Rightarrow> u8 list" where
  "ufs_blk view d \<equiv> u_blocks (view (hw_state d))"

definition ufs_disk_ok :: "('h \<Rightarrow> ufs_ctrl) \<Rightarrow> 'h bdev \<Rightarrow> bool" where
  "ufs_disk_ok view d \<longleftrightarrow> ufs_ready view d \<and> (\<forall>b. length (ufs_blk view d b) = FS_BLOCK_SIZE)"

locale ufs_disk = ufs_hardware hw view for hw :: "'h hw" and view :: "'h \<Rightarrow> ufs_ctrl" +
  fixes stk :: u64
    and junk :: "u8 list"
  assumes stk_ok: "buffer_ok stk FS_BLOCK_SIZE"
    and junk_length: "length junk = FS_BLOCK_SIZE"

sublocale ufs_disk \<subseteq> fs: block_store "ufs_env hw stk junk" "ufs_blk view" "ufs_disk_ok view"
proof
  fix d :: "'h bdev" and buf :: "u8 list" and b :: u32
  assume d: "ufs_disk_ok view d" and l: "length buf = FS_BLOCK_SIZE"
  let ?d = "d\<lparr>bd_mem := write_bytes (bd_mem d) stk buf\<rparr>"
  have ready: "ufs_ready view ?d" and lb: "length (ufs_blk view d b) = FS_BLOCK_SIZE" for b
    using d by (simp_all add: ufs_disk_ok_def ufs_ready_def)
  have one: "0 < unat (1 :: u32)" "unat (1 :: u32) < 2 ^ 16" by simp_all
  have ucast_b: "(ucast (ucast b :: u64) :: u32) = b" by (rule bit_word_eqI) (simp add: bit_simps)
  have blocks: "ufs_blocks (view (hw_state ?d)) (ucast (ucast b :: u64)) (unat (1 :: u32)) = ufs_blk view d b"
    by (simp add: ufs_blocks_def ucast_b)
  show "\<exists>d'. bd_read (ufs_env hw stk junk) (ucast b) 1 buf d = Some (0, ufs_blk view d b, d') \<and>
      ufs_disk_ok view d' \<and> ufs_blk view d' = ufs_blk view d"
  proof -
    from ready one obtain h where "block_device_read hw (ucast b) 1 stk ?d = Some (0, ?d\<lparr>bd_mem :=
        write_bytes (ufs_descriptors (bd_mem ?d) (ucast b) 1 stk UTP_TRD_DD_READ) stk (ufs_blk view d b), hw_state := h\<rparr>)"
      "view h = view (hw_state d)"
      by (rule ufs_read_effect [where lba = "ucast b" and buffer = stk]) (use blocks lb in auto)
    then show ?thesis using d l lb by (auto simp: ufs_env_def read_write_same ufs_disk_ok_def ufs_ready_def)
  qed
  show "\<exists>d'. bd_write (ufs_env hw stk junk) (ucast b) 1 buf d = Some (0, d') \<and>
      ufs_disk_ok view d' \<and> ufs_blk view d' = (ufs_blk view d)(b := buf)"
  proof -
    let ?m = "ufs_descriptors (bd_mem ?d) (ucast b) 1 stk UTP_TRD_DD_WRITE"
    from ready one obtain h where h: "block_device_write hw (ucast b) 1 stk ?d = Some (0, ?d\<lparr>bd_mem := ?m, hw_state := h\<rparr>)"
      "view h = (view (hw_state ?d))\<lparr>u_blocks := (\<lambda>c. if unat (c - ucast (ucast b :: u64)) < unat (1 :: u32)
        then read_bytes ?m (stk + 4096 * ucast (c - ucast (ucast b :: u64))) 4096 else u_blocks (view (hw_state ?d)) c)\<rparr>"
      by (rule ufs_write_effect)
    have "read_bytes ?m stk FS_BLOCK_SIZE = buf"
      using buffer_descriptors [OF stk_ok] l by (simp add: read_write_same)
    moreover have "unat (c - b) < 1 \<longleftrightarrow> c = b" for c
      using unat_gt_0 [of "c - b"] by auto
    ultimately have "u_blocks (view h) = (ufs_blk view d)(b := buf)"
      using h(2) by (auto simp: ucast_b fun_eq_iff)
    then show ?thesis using h d l by (auto simp: ufs_env_def ufs_disk_ok_def ufs_ready_def)
  qed
qed (simp_all add: ufs_disk_ok_def ufs_env_def junk_length)

text \<open>With no device selected the dispatch refuses every request and the controller sees nothing.\<close>

sublocale ufs_disk \<subseteq> none: dead_store "ufs_env hw stk junk" "\<lambda>d. active_block_device_type d = BLOCK_DEVICE_TYPE_NONE" hw_state
  by unfold_locales
    (auto simp: ufs_env_def block_device_read_def block_device_write_def read_write_same junk_length)

context ufs_disk begin

lemmas disk_length = fs.len
lemmas disk_get_inode = fs.get_inode_ok
lemmas disk_write_inode = fs.write_inode_ok
lemmas disk_allocate_block = fs.allocate_block_ok
lemmas disk_fs_write = fs.fs_write_ok
lemmas disk_fs_read = fs.fs_read_ok
lemmas disk_fs_read_past_end = fs.fs_read_past_end_ok

end

text \<open>A small instance: a formatted disk whose inode 2 is a file of 5 bytes in block 8.\<close>

definition sample_file :: inode where
  "sample_file = zero_inode\<lparr>i_id := 2, i_type := FS_INODE_TYPE_FILE, i_size := 5, i_direct_blocks := 8 # replicate 9 0\<rparr>"

definition sample_bitmap :: "u8 list" where
  "sample_bitmap = 0xFF # replicate 4095 0"

definition sample_fs :: "ufs_ctrl bdev fs_state" where
  "sample_fs =
     \<lparr>current_superblock = formatted_superblock, inode_bitmap = Some sample_bitmap, block_bitmap = Some sample_bitmap,
      disk = (sample_bdev True)\<lparr>hw_state := \<lparr>u_blocks = inode_put 2 sample_file formatted_superblock (\<lambda>_. replicate 4096 0),
        u_list_base = UFS_TRL_BASE, u_enabled = True\<rparr>\<rparr>, fs_heap = small_heap\<rparr>"

lemma sample_superblock:
  "total_blocks formatted_superblock = 1024" "total_inodes formatted_superblock = 128"
  "inode_bitmap_block formatted_superblock = 1" "block_bitmap_block formatted_superblock = 2"
  "inode_table_start_block formatted_superblock = 3" "data_start_block formatted_superblock = 6"
  by (simp_all add: formatted_superblock_def bitmap_blocks_def Let_def)

lemma sample_buffer: "buffer_ok 0x1000 4096"
  using region_apart [of 4096 "0xDEAE0000" "0x1000" 32 0] region_apart [of 4096 "0xDEAF0000" "0x1000" 16 0]
  by (simp add: buffer_ok_def)

interpretation sample_disk: ufs_disk ufs_controller "\<lambda>u. u" "0x1000" "replicate 4096 0"
  by unfold_locales (simp_all add: sample_buffer)

lemma sample_disk_ok: "ufs_disk_ok (\<lambda>u. u) (disk sample_fs)"
proof -
  have "length (inode_put 2 sample_file formatted_superblock (\<lambda>_. replicate 4096 0) b) = 4096" for b
    using inode.splice_length [of sample_file] inode_offset_bound [of 2]
    by (simp add: inode_put_def sample_file_def)
  then show ?thesis by (simp add: ufs_disk_ok_def ufs_ready_def sample_fs_def sample_bdev_def)
qed

lemma sample_bits: "bitmap_bit sample_bitmap j" if "j < 8" for j
proof -
  have ff: "(0xFF :: u8) = mask 8" by (simp add: mask_eq_exp_minus_1)
  show ?thesis using that unfolding bitmap_bit_def sample_bitmap_def ff by (simp add: bit_simps)
qed

lemma sample_open:
  "open_file formatted_superblock sample_bitmap (ufs_blk (\<lambda>u. u) (disk sample_fs)) 2 sample_file"
proof -
  have "layout_ok formatted_superblock sample_bitmap"
    using sample_bits by (auto simp: layout_ok_def table_ok_def bitmap_ok_def sample_superblock sample_bitmap_def)
  moreover have "i_direct_blocks sample_file ! k = (if k = 0 then 8 else 0)" if "k < 10" for k
    using that by (cases k) (simp_all add: sample_file_def)
  then have "file_ok formatted_superblock sample_bitmap sample_file"
    using sample_bits by (auto simp: file_ok_def sample_superblock) (simp add: sample_file_def)
  moreover have "inode_at (inode_put 2 sample_file formatted_superblock (\<lambda>_. replicate 4096 0)) formatted_superblock 2 = sample_file"
    by (rule inode_at_put) (simp_all add: sample_file_def)
  ultimately show ?thesis by (simp add: open_file_def valid_id_def sample_superblock sample_fs_def sample_bdev_def)
qed

lemma sample_heap: "heap_ok (fs_heap sample_fs) {}" "heap_fits (fs_heap sample_fs) 88"
  using small_heap_ok small_heap_rep
  by (auto simp: sample_fs_def heap_fits_def has_room_def unat_align8 intro: exI [of _ "[(4072, True)]"])

section \<open>Properties\<close>

text \<open>C20: \<open>write_inode\<close> stores an inode in the table on the disk, \<open>get_inode\<close> reads it back into a new heap
  object, and every other inode of the table reads as before.\<close>

theorem inode_table_round_trip:
  assumes "ufs_disk hw view stk junk" and "ufs_disk_ok view (disk st)" and "table_ok (current_superblock st)"
    and "valid_id (current_superblock st) ino" and "length (i_direct_blocks v) = 10"
    and "heap_ok (fs_heap st) L" and "heap_fits (fs_heap st) 88"
  shows "\<exists>st1. write_inode (ufs_env hw stk junk) ino v st = Some (0, st1) \<and>
    (\<forall>j. valid_id (current_superblock st) j \<longrightarrow>
      (\<exists>p st2 q st3. p \<noteq> 0 \<and> get_inode (ufs_env hw stk junk) j st1 =
          Some (Some (p, if j = ino then v else inode_at (ufs_blk view (disk st)) (current_superblock st) j), st2) \<and>
        q \<noteq> 0 \<and> get_inode (ufs_env hw stk junk) j st =
          Some (Some (q, inode_at (ufs_blk view (disk st)) (current_superblock st) j), st3)))"
proof -
  let ?env = "ufs_env hw stk junk" and ?sb = "current_superblock st"
  note get = ufs_disk.disk_get_inode [OF assms(1)] and wri = ufs_disk.disk_write_inode [OF assms(1)]
    and len = ufs_disk.disk_length [OF assms(1,2)]
  from wri [OF assms(2,4,5)] obtain d where d: "write_inode ?env ino v st = Some (0, st\<lparr>disk := d\<rparr>)"
    "ufs_disk_ok view d" "ufs_blk view d = inode_put ino v ?sb (ufs_blk view (disk st))" by metis
  from assms(6,7) obtain p h1 h2 where h: "kmalloc (fs_heap st) 88 = Some (p, h1)" "p \<noteq> 0" by (rule borrow) blast
  have "\<exists>p st2 q st3. p \<noteq> 0 \<and> get_inode ?env j (st\<lparr>disk := d\<rparr>) =
        Some (Some (p, if j = ino then v else inode_at (ufs_blk view (disk st)) ?sb j), st2) \<and>
      q \<noteq> 0 \<and> get_inode ?env j st = Some (Some (q, inode_at (ufs_blk view (disk st)) ?sb j), st3)"
    if j: "valid_id ?sb j" for j
  proof -
    have "inode_at (ufs_blk view d) ?sb j = (if j = ino then v else inode_at (ufs_blk view (disk st)) ?sb j)"
      unfolding d(3) using assms(3-5) j len by (auto simp: inode_at_put inode_at_put_other)
    moreover from get [of "st\<lparr>disk := d\<rparr>" j p h1] d(2) j h obtain d1 where
      "get_inode ?env j (st\<lparr>disk := d\<rparr>) = Some (Some (p, inode_at (ufs_blk view d) ?sb j), st\<lparr>disk := d1, fs_heap := h1\<rparr>)"
      by auto
    moreover from get [OF assms(2) j h] obtain d2 where
      "get_inode ?env j st = Some (Some (p, inode_at (ufs_blk view (disk st)) ?sb j), st\<lparr>disk := d2, fs_heap := h1\<rparr>)"
      by metis
    ultimately show ?thesis using h(2) by auto
  qed
  with d(1) show ?thesis by blast
qed

theorem inode_table_round_trip_witness:
  "\<exists>st1 p st2. write_inode (ufs_env ufs_controller 0x1000 (replicate 4096 0)) 3 zero_inode sample_fs = Some (0, st1) \<and>
     get_inode (ufs_env ufs_controller 0x1000 (replicate 4096 0)) 3 st1 = Some (Some (p, zero_inode), st2)"
proof -
  have "table_ok (current_superblock sample_fs)" "valid_id (current_superblock sample_fs) 3"
    "length (i_direct_blocks zero_inode) = 10"
    by (simp_all add: sample_fs_def table_ok_def valid_id_def sample_superblock zero_inode_def)
  from inode_table_round_trip [OF sample_disk.ufs_disk_axioms sample_disk_ok this sample_heap] this(2) show ?thesis by fastforce
qed

text \<open>C21: \<open>allocate_block\<close> never hands out a block that is in use: it returns 0 and changes nothing when every
  block is marked, and otherwise a number between 1 and \<open>total_blocks\<close> whose bit was clear and is now set, in
  memory and on the disk, with all other bits as before.\<close>

theorem allocate_block_fresh:
  assumes "ufs_disk hw view stk junk" and "ufs_disk_ok view (disk st)" and "block_bitmap st = Some bm"
    and "bitmap_ok bm (total_blocks (current_superblock st))"
  shows "\<exists>b st'. allocate_block (ufs_env hw stk junk) st = Some (b, st') \<and>
    (b = 0 \<longrightarrow> st' = st \<and> (\<forall>j < unat (total_blocks (current_superblock st)). bitmap_bit bm j)) \<and>
    (b \<noteq> 0 \<longrightarrow> b \<le> total_blocks (current_superblock st) \<and> \<not> bitmap_bit bm (unat b - 1) \<and>
      (\<exists>bm'. block_bitmap st' = Some bm' \<and> ufs_blk view (disk st') (block_bitmap_block (current_superblock st)) = take 4096 bm' \<and>
        (\<forall>j < unat (total_blocks (current_superblock st)). bitmap_bit bm' j \<longleftrightarrow> j = unat b - 1 \<or> bitmap_bit bm j)))"
proof -
  from assms(2-4) show ?thesis
  proof (cases rule: ufs_disk.disk_allocate_block [OF assms(1), consumes 3, case_names full fresh])
    case full
    then show ?thesis by auto
  next
    case (fresh b d)
    have "j div 8 < length bm" if "j < unat (total_blocks (current_superblock st))" for j
      using that assms(4) by (auto simp: bitmap_ok_def)
    then have "bitmap_bit (bitmap_set (unat b - 1) bm) j \<longleftrightarrow> j = unat b - 1 \<or> bitmap_bit bm j"
      if "j < unat (total_blocks (current_superblock st))" for j
      using that bitmap_bit_set [OF bitmap_index [OF assms(4) fresh(2,3)], of j] by auto
    with fresh show ?thesis by (intro exI conjI) auto
  qed
qed

theorem allocate_block_fresh_witness:
  "\<exists>b st'. allocate_block (ufs_env ufs_controller 0x1000 (replicate 4096 0)) sample_fs = Some (b, st')"
proof -
  have "block_bitmap sample_fs = Some sample_bitmap" by (simp add: sample_fs_def)
  moreover have "bitmap_ok sample_bitmap (total_blocks (current_superblock sample_fs))"
    using sample_open by (simp add: open_file_def layout_ok_def sample_fs_def)
  ultimately show ?thesis
    using allocate_block_fresh [OF sample_disk.ufs_disk_axioms sample_disk_ok, of sample_bitmap] by fastforce
qed

text \<open>C5: what \<open>fs_write\<close> stores, \<open>fs_read\<close> returns: the number \<open>n\<close> that \<open>fs_write\<close> reports is at most the count asked
  for and smaller only at the largest file size or when the disk is full, and reading \<open>n\<close> bytes at the same
  offset afterwards yields the first \<open>n\<close> bytes of the buffer.\<close>

theorem fs_write_read_round_trip:
  assumes "ufs_disk hw view stk junk" and "ufs_disk_ok view (disk st)" and "block_bitmap st = Some bm"
    and "open_file (current_superblock st) bm (ufs_blk view (disk st)) ino i"
    and "i_type i AND FS_INODE_TYPE_FILE \<noteq> 0" and "heap_ok (fs_heap st) L" and "heap_fits (fs_heap st) 88"
    and "unat offset + unat count < 2 ^ 44" and "unat count \<le> length buffer"
  shows "\<exists>n st1 st2. fs_write (ufs_env hw stk junk) ino offset buffer count st = Some (int (unat n), st1) \<and> n \<le> count \<and>
    (n < count \<longrightarrow> MAX_FILE \<le> unat offset + unat n \<or>
      (\<forall>j < unat (total_blocks (current_superblock st)). bitmap_bit (the (block_bitmap st1)) j)) \<and>
    fs_read (ufs_env hw stk junk) ino offset n st1 = Some (int (unat n), take (unat n) buffer, st2)"
proof -
  let ?env = "ufs_env hw stk junk" and ?sb = "current_superblock st"
  from assms(2-9) obtain n i' bm' fr d h where
    w: "fs_write ?env ino offset buffer count st = Some (int (unat n), st\<lparr>block_bitmap := Some bm',
       current_superblock := ?sb\<lparr>free_blocks := fr\<rparr>, disk := d, fs_heap := h\<rparr>)"
    "ufs_disk_ok view d" "heap_ok h L" "heap_fits h 88" "n \<le> count"
    "open_file ?sb bm' (ufs_blk view d) ino (i'\<lparr>i_size := max (i_size i) (offset + n)\<rparr>)"
    "written ?sb ino (unat offset) buffer 0 (unat n) (ufs_blk view (disk st)) i (ufs_blk view d) i'"
    "n < count \<longrightarrow> MAX_FILE \<le> unat offset + unat n \<or> (\<forall>j < unat (total_blocks ?sb). bitmap_bit bm' j)"
    by (rule ufs_disk.disk_fs_write [OF assms(1)])
  let ?st = "st\<lparr>block_bitmap := Some bm', current_superblock := ?sb\<lparr>free_blocks := fr\<rparr>, disk := d, fs_heap := h\<rparr>"
  let ?i = "i'\<lparr>i_size := max (i_size i) (offset + n)\<rparr>"
  have n: "unat n \<le> unat count" using w(5) by (simp add: word_le_nat_alt)
  have bound: "unat offset + unat n < 2 ^ 44" using n assms(8) by linarith
  then have sum: "unat (offset + n) = unat offset + unat n" by (simp add: unat_word_ariths)
  have le: "offset + n \<le> i_size ?i" by simp
  have len10: "length (i_direct_blocks ?i) = 10" using w(6) by (simp add: open_file_def file_ok_def)
  have cov: "covered ?i (unat offset) (unat n)" using w(7) by (auto simp: covered_def written_def has_byte_def)
  have m: "unat n = min (unat n) (unat (i_size ?i) - unat offset)"
    using le sum by (simp add: word_le_nat_alt min_def)
  have off: "offset \<le> i_size ?i" using le sum by (simp add: word_le_nat_alt)
  have "slice (unat offset) (unat n) (fbytes (ufs_blk view d) ?i) = take (unat n) buffer"
  proof (rule nth_equalityI)
    have lb: "length (ufs_blk view d b) = FS_BLOCK_SIZE" for b by (rule ufs_disk.disk_length [OF assms(1) w(2)])
    have mx: "unat offset + unat n \<le> MAX_FILE \<or> unat n = 0" using written_bound [OF w(7)] by blast
    have lf: "length (fbytes (ufs_blk view d) ?i) = MAX_FILE" using len10 lb by (rule length_fbytes)
    then show "length (slice (unat offset) (unat n) (fbytes (ufs_blk view d) ?i)) = length (take (unat n) buffer)"
      using mx n assms(9) by auto
    fix x assume "x < length (slice (unat offset) (unat n) (fbytes (ufs_blk view d) ?i))"
    then have x: "x < unat n" by simp
    then have "slice (unat offset) (unat n) (fbytes (ufs_blk view d) ?i) ! x = fbyte (ufs_blk view d) ?i (unat offset + x)"
      using lf mx len10 lb by (simp add: nth_slice nth_fbytes fbyte_def)
    also have "\<dots> = buffer ! x" using w(7) x by (simp add: written_def)
    finally show "slice (unat offset) (unat n) (fbytes (ufs_blk view d) ?i) ! x = take (unat n) buffer ! x" using x by simp
  qed
  moreover have r: "valid_id (current_superblock ?st) ino" "inode_at (ufs_blk view (disk ?st)) (current_superblock ?st) ino = ?i"
    "i_type ?i AND FS_INODE_TYPE_FILE \<noteq> 0"
    using w(6,7) assms(5) by (auto simp: open_file_def written_def)
  have "ufs_disk_ok view (disk ?st)" "heap_ok (fs_heap ?st) L" "heap_fits (fs_heap ?st) 88" using w(2-4) by simp_all
  with r obtain d2 h2 where "fs_read ?env ino offset n ?st = Some (int (unat n),
      slice (unat offset) (unat n) (fbytes (ufs_blk view (disk ?st)) ?i), ?st\<lparr>disk := d2, fs_heap := h2\<rparr>)"
    using ufs_disk.disk_fs_read [OF assms(1), where st = ?st and n = "unat n", OF _ r(1,2) len10 r(3) _ _ bound off m cov] by blast
  ultimately have "fs_read ?env ino offset n ?st = Some (int (unat n), take (unat n) buffer, ?st\<lparr>disk := d2, fs_heap := h2\<rparr>)" by simp
  with w(1,5,8) show ?thesis by fastforce
qed

theorem fs_write_read_round_trip_witness:
  "\<exists>n st1 st2. fs_write (ufs_env ufs_controller 0x1000 (replicate 4096 0)) 2 4090 (replicate 10 7) 10 sample_fs = Some (int (unat n), st1) \<and>
    n \<le> 10 \<and> fs_read (ufs_env ufs_controller 0x1000 (replicate 4096 0)) 2 4090 n st1 = Some (int (unat n), take (unat n) (replicate 10 7), st2)"
proof -
  have a: "block_bitmap sample_fs = Some sample_bitmap" "current_superblock sample_fs = formatted_superblock"
    "i_type sample_file AND FS_INODE_TYPE_FILE \<noteq> 0" "unat (4090 :: u64) + unat (10 :: u64) < 2 ^ 44"
    "unat (10 :: u64) \<le> length (replicate 10 (7 :: u8))"
    by (simp_all add: sample_fs_def sample_file_def)
  show ?thesis
    using fs_write_read_round_trip [OF sample_disk.ufs_disk_axioms sample_disk_ok a(1), unfolded a(2), OF sample_open a(3) sample_heap a(4,5)]
    by blast
qed

text \<open>C6: a write keeps the file system well formed and disturbs nothing else: the inode's blocks stay distinct,
  allocated data blocks, bytes of the file outside the written range keep their value, no other inode
  changes, and the size is the larger of the old one and the end of the write.\<close>

theorem fs_write_frame:
  assumes "ufs_disk hw view stk junk" and "ufs_disk_ok view (disk st)" and "block_bitmap st = Some bm"
    and "open_file (current_superblock st) bm (ufs_blk view (disk st)) ino i"
    and "i_type i AND FS_INODE_TYPE_FILE \<noteq> 0" and "heap_ok (fs_heap st) L" and "heap_fits (fs_heap st) 88"
    and "unat offset + unat count < 2 ^ 44" and "unat count \<le> length buffer"
  shows "\<exists>n st1 bm' i'. fs_write (ufs_env hw stk junk) ino offset buffer count st = Some (int (unat n), st1) \<and>
    block_bitmap st1 = Some bm' \<and> ufs_disk_ok view (disk st1) \<and> heap_ok (fs_heap st1) L \<and>
    open_file (current_superblock st1) bm' (ufs_blk view (disk st1)) ino i' \<and>
    i_size i' = max (i_size i) (offset + n) \<and>
    (\<forall>x. has_byte i x \<and> \<not> (unat offset \<le> x \<and> x < unat offset + unat n) \<longrightarrow>
       has_byte i' x \<and> fbyte (ufs_blk view (disk st1)) i' x = fbyte (ufs_blk view (disk st)) i x) \<and>
    (\<forall>j. valid_id (current_superblock st) j \<and> j \<noteq> ino \<longrightarrow>
       inode_at (ufs_blk view (disk st1)) (current_superblock st1) j =
       inode_at (ufs_blk view (disk st)) (current_superblock st) j)"
proof -
  let ?env = "ufs_env hw stk junk" and ?sb = "current_superblock st"
  from assms(2-9) obtain n i' bm' fr d h where
    w: "fs_write ?env ino offset buffer count st = Some (int (unat n), st\<lparr>block_bitmap := Some bm',
       current_superblock := ?sb\<lparr>free_blocks := fr\<rparr>, disk := d, fs_heap := h\<rparr>)"
    "ufs_disk_ok view d" "heap_ok h L" "heap_fits h 88" "n \<le> count"
    "open_file ?sb bm' (ufs_blk view d) ino (i'\<lparr>i_size := max (i_size i) (offset + n)\<rparr>)"
    "written ?sb ino (unat offset) buffer 0 (unat n) (ufs_blk view (disk st)) i (ufs_blk view d) i'"
    by (rule ufs_disk.disk_fs_write [OF assms(1)])
  let ?i = "i'\<lparr>i_size := max (i_size i) (offset + n)\<rparr>"
  have "has_byte ?i x \<and> fbyte (ufs_blk view d) ?i x = fbyte (ufs_blk view (disk st)) i x"
    if "has_byte i x" "\<not> (unat offset \<le> x \<and> x < unat offset + unat n)" for x
    using w(7) that by (auto simp: written_def has_byte_def)
  moreover have "inode_at (ufs_blk view d) ?sb j = inode_at (ufs_blk view (disk st)) ?sb j" if "valid_id ?sb j" "j \<noteq> ino" for j
    using w(7) that by (simp add: written_def)
  ultimately show ?thesis using w(1-3,6)
    by (intro exI [of _ n] exI [of _ "st\<lparr>block_bitmap := Some bm', current_superblock := ?sb\<lparr>free_blocks := fr\<rparr>,
        disk := d, fs_heap := h\<rparr>"] exI [of _ bm'] exI [of _ ?i]) simp
qed

theorem fs_write_frame_witness:
  "\<exists>n st1 bm' i'. fs_write (ufs_env ufs_controller 0x1000 (replicate 4096 0)) 2 1 (replicate 10 7) 10 sample_fs = Some (int (unat (n :: u64)), st1) \<and>
     open_file (current_superblock st1) bm' (ufs_blk (\<lambda>u. u) (disk st1)) 2 i' \<and> fbyte (ufs_blk (\<lambda>u. u) (disk st1)) i' 0 =
       fbyte (ufs_blk (\<lambda>u. u) (disk sample_fs)) sample_file 0"
proof -
  have a: "block_bitmap sample_fs = Some sample_bitmap" "current_superblock sample_fs = formatted_superblock"
    "i_type sample_file AND FS_INODE_TYPE_FILE \<noteq> 0" "unat (1 :: u64) + unat (10 :: u64) < 2 ^ 44"
    "unat (10 :: u64) \<le> length (replicate 10 (7 :: u8))" "has_byte sample_file 0" "\<not> unat (1 :: u64) \<le> 0"
    by (simp_all add: sample_fs_def sample_file_def has_byte_def)
  obtain n st1 bm' i' where t: "fs_write (ufs_env ufs_controller 0x1000 (replicate 4096 0)) 2 1 (replicate 10 7) 10 sample_fs =
      Some (int (unat (n :: u64)), st1)" "open_file (current_superblock st1) bm' (ufs_blk (\<lambda>u. u) (disk st1)) 2 i'"
    "\<forall>x. has_byte sample_file x \<and> \<not> (unat (1 :: u64) \<le> x \<and> x < unat (1 :: u64) + unat n) \<longrightarrow>
       has_byte i' x \<and> fbyte (ufs_blk (\<lambda>u. u) (disk st1)) i' x = fbyte (ufs_blk (\<lambda>u. u) (disk sample_fs)) sample_file x"
    using fs_write_frame [OF sample_disk.ufs_disk_axioms sample_disk_ok a(1), unfolded a(2), OF sample_open a(3) sample_heap a(4,5)]
    by blast
  have "fbyte (ufs_blk (\<lambda>u. u) (disk st1)) i' 0 = fbyte (ufs_blk (\<lambda>u. u) (disk sample_fs)) sample_file 0"
    using t(3) [rule_format, of 0] a(6) by simp
  with t(1,2) show ?thesis by blast
qed

text \<open>C38: an offset past the end of the file is not rejected.  The remaining length wraps around, so \<open>fs_read\<close> ignores
  the count, even 0: where the offset lies in an allocated block and the file has no block after that one, it
  copies the bytes of that block from the offset on to its end to the caller's buffer and reports
  that many.\<close>

theorem fs_read_past_end:
  assumes "ufs_disk hw view stk junk" and "ufs_disk_ok view (disk st)"
    and "open_file (current_superblock st) bm (ufs_blk view (disk st)) ino i"
    and "i_type i AND FS_INODE_TYPE_FILE \<noteq> 0" and "heap_ok (fs_heap st) L" and "heap_fits (fs_heap st) 88"
    and "i_size i < offset" and "unat offset < MAX_FILE" and "unat count < 2 ^ 44"
    and "i_direct_blocks i ! (unat offset div 4096) \<noteq> 0"
    and "unat offset div 4096 = 9 \<or> i_direct_blocks i ! Suc (unat offset div 4096) = 0"
  shows "\<exists>st'. fs_read (ufs_env hw stk junk) ino offset count st =
    Some (int (4096 - unat offset mod 4096),
      drop (unat offset mod 4096) (ufs_blk view (disk st) (i_direct_blocks i ! (unat offset div 4096))), st')"
proof -
  let ?bl = "ufs_blk view (disk st)" and ?k = "unat offset div 4096" and ?r = "unat offset mod 4096"
  have v: "valid_id (current_superblock st) ino" "inode_at ?bl (current_superblock st) ino = i"
    "length (i_direct_blocks i) = 10" using assms(3) by (simp_all add: open_file_def file_ok_def)
  note len = ufs_disk.disk_length [OF assms(1,2)]
  have "?k < 10" using assms(8) by (simp add: less_mult_imp_div_less)
  then have "slice (FS_BLOCK_SIZE * ?k + ?r) (4096 - ?r) (fbytes ?bl i) = slice ?r (4096 - ?r) (?bl (i_direct_blocks i ! ?k))"
    using v(3) len by (intro slice_fbytes) simp_all
  also have "\<dots> = drop ?r (?bl (i_direct_blocks i ! ?k))" using len by (simp add: slice_def)
  finally have "slice (unat offset) (4096 - ?r) (fbytes ?bl i) = drop ?r (?bl (i_direct_blocks i ! ?k))" by simp
  then show ?thesis
    using ufs_disk.disk_fs_read_past_end [OF assms(1,2) v assms(4-11)] by simp
qed

theorem fs_read_past_end_witness:
  "\<exists>st'. fs_read (ufs_env ufs_controller 0x1000 (replicate 4096 0)) 2 6 0 sample_fs =
     Some (4090, drop 6 (ufs_blk (\<lambda>u. u) (disk sample_fs) 8), st')"
proof -
  have a: "current_superblock sample_fs = formatted_superblock" "i_type sample_file AND FS_INODE_TYPE_FILE \<noteq> 0"
    "i_size sample_file < 6" "unat (6 :: u64) < MAX_FILE" "unat (0 :: u64) < 2 ^ 44"
    "i_direct_blocks sample_file ! (unat (6 :: u64) div 4096) \<noteq> 0"
    "unat (6 :: u64) div 4096 = 9 \<or> i_direct_blocks sample_file ! Suc (unat (6 :: u64) div 4096) = 0"
    "i_direct_blocks sample_file ! 0 = 8"
    by (simp_all add: sample_fs_def sample_file_def)
  show ?thesis
    using fs_read_past_end [OF sample_disk.ufs_disk_axioms sample_disk_ok, of sample_bitmap 2 sample_file, unfolded a(1),
        OF sample_open a(2) sample_heap a(3-7)] a(8) by simp
qed

end
