(* ===== verification/Fs_Names.thy ===== *)
theory Fs_Names
  imports Fs_Ufs
begin

text \<open>
  Names on the UFS disk: \<open>fs_create\<close>, \<open>fs_lookup\<close> and \<open>fs_delete\<close> of \<^verbatim>\<open>src/kern/fs/fs.c\<close> on the driver of
  \<^verbatim>\<open>src/kern/drivers/block/block_device.c\<close>, from the lemmas of \<^verbatim>\<open>Fs_Dir.thy\<close> about an arbitrary block store.
\<close>

context ufs_disk begin

lemmas disk_fs_lookup = fs.fs_lookup_ok
lemmas disk_fs_create_refused = fs.fs_create_refused
lemmas disk_fs_create = fs.fs_create_ok
lemmas disk_fs_delete_missing = fs.fs_delete_missing
lemmas disk_fs_delete = fs.fs_delete_ok
lemmas disk_fs_init = fs.fs_init_mounts
lemmas disk_fs_init_gives_up = fs.fs_init_gives_up
lemmas no_disk_fs_init = none.dead_fs_init

text \<open>Looking up a name in a directory, for a state with that directory on its disk.\<close>

lemma disk_lookup:
  assumes "ufs_disk_ok view (disk st)" and "open_file (current_superblock st) bm (ufs_blk view (disk st)) pid p"
    and "i_type p AND FS_INODE_TYPE_DIR \<noteq> 0" and "heap_ok (fs_heap st) L" and "heap_fits (fs_heap st) 88" and "dir_name n"
  shows "\<exists>st'. fs_lookup (ufs_env hw stk junk) pid n st = Some (dir_find (ufs_blk view (disk st)) n (i_direct_blocks p), st')"
proof -
  have o: "valid_id (current_superblock st) pid" "inode_at (ufs_blk view (disk st)) (current_superblock st) pid = p"
    "length n \<le> FS_MAX_FILENAME_LEN" using assms(2,6) by (simp_all add: open_file_def dir_name_def)
  show ?thesis by (rule disk_fs_lookup [OF assms(1) o(1,2) assms(3-5) o(3)]) blast
qed

end

section \<open>A small tree\<close>

text \<open>The root directory, inode 1, has one entry in block 8: the name \<open>a\<close> for the empty file with inode 2.\<close>

definition sample_dir :: inode where
  "sample_dir = zero_inode\<lparr>i_id := 1, i_type := FS_INODE_TYPE_DIR, i_size := 36, i_direct_blocks := 8 # replicate 9 0\<rparr>"

definition sample_dir_block :: "u8 list" where
  "sample_dir_block = splice (0 * SIZEOF_DIR_ENTRY) (entry_bytes 2 [97] [0, 0, 0]) (replicate 4096 0)"

definition sample_volume_blocks :: "u32 \<Rightarrow> u8 list" where
  "sample_volume_blocks = inode_put 1 sample_dir formatted_superblock
     (inode_put 2 (new_inode 2 FS_INODE_TYPE_FILE) formatted_superblock ((\<lambda>_. replicate 4096 0)(8 := sample_dir_block)))"

definition sample_volume :: "ufs_ctrl bdev fs_state" where
  "sample_volume = sample_fs\<lparr>disk := (disk sample_fs)\<lparr>hw_state := \<lparr>u_blocks = sample_volume_blocks,
     u_list_base = UFS_TRL_BASE, u_enabled = True\<rparr>\<rparr>\<rparr>"

lemma sample_volume_fields:
  "current_superblock sample_volume = formatted_superblock" "inode_bitmap sample_volume = Some sample_bitmap"
  "block_bitmap sample_volume = Some sample_bitmap" "fs_heap sample_volume = small_heap"
  "ufs_blk (\<lambda>u. u) (disk sample_volume) = sample_volume_blocks"
  by (simp_all add: sample_volume_def sample_fs_def)

lemma sample_slot: "slot_write (replicate 4096 0) (entry_bytes 2 [97] [0, 0, 0]) 0"
  by (simp add: slot_write_def entry_bytes_length dir_name_def)

lemma sample_dir_block_length: "length sample_dir_block = 4096"
  unfolding sample_dir_block_def using slot_write_length [OF sample_slot] .

lemma sample_dir_blocks: "i_direct_blocks sample_dir = 8 # replicate 9 0" "length (i_direct_blocks sample_dir) = 10"
  by (simp_all add: sample_dir_def)

lemma sample_volume_length: "length (sample_volume_blocks b) = 4096"
  using inode.splice_length [of sample_dir] inode.splice_length [of "new_inode 2 FS_INODE_TYPE_FILE"]
    inode_offset_bound [of 1] inode_offset_bound [of 2] sample_dir_block_length sample_dir_blocks(2)
  by (simp add: sample_volume_blocks_def inode_put_def)

lemma sample_volume_disk: "ufs_disk_ok (\<lambda>u. u) (disk sample_volume)"
  using sample_volume_length sample_disk_ok
  by (simp add: ufs_disk_ok_def ufs_ready_def sample_volume_def sample_fs_def sample_bdev_def)

lemma sample_volume_data: "sample_volume_blocks 8 = sample_dir_block"
  by (simp add: sample_volume_blocks_def inode_put_def inode_block_def sample_superblock)

lemma sample_layout: "layout_ok formatted_superblock sample_bitmap"
  using sample_open by (simp add: open_file_def)

lemma sample_dir_open: "open_file formatted_superblock sample_bitmap sample_volume_blocks 1 sample_dir"
proof -
  have "i_direct_blocks sample_dir ! k = (if k = 0 then 8 else 0)" if "k < 10" for k
    using that by (cases k) (simp_all add: sample_dir_blocks)
  then have "file_ok formatted_superblock sample_bitmap sample_dir"
    using sample_bits by (auto simp: file_ok_def sample_superblock sample_dir_blocks(2))
  moreover have "inode_at sample_volume_blocks formatted_superblock 1 = sample_dir"
    unfolding sample_volume_blocks_def using inode.splice_length [of "new_inode 2 FS_INODE_TYPE_FILE"] inode_offset_bound [of 2]
    by (intro inode_at_put) (simp_all add: sample_dir_blocks inode_put_def sample_dir_block_length)
  ultimately show ?thesis using sample_layout by (simp add: open_file_def valid_id_def sample_superblock)
qed

lemma sample_file_open: "open_file formatted_superblock sample_bitmap sample_volume_blocks 2 (new_inode 2 FS_INODE_TYPE_FILE)"
proof -
  let ?bl = "inode_put 2 (new_inode 2 FS_INODE_TYPE_FILE) formatted_superblock ((\<lambda>_. replicate 4096 0)(8 := sample_dir_block))"
  have "i_direct_blocks (new_inode 2 FS_INODE_TYPE_FILE) ! k = 0" if "k < 10" for k
    using that by (simp add: new_inode_def zero_inode_def)
  then have "file_ok formatted_superblock sample_bitmap (new_inode 2 FS_INODE_TYPE_FILE)" by (simp add: file_ok_def)
  moreover have len: "length (?bl b) = 4096" for b
    using inode.splice_length [of "new_inode 2 FS_INODE_TYPE_FILE"] inode_offset_bound [of 2]
    by (simp add: inode_put_def sample_dir_block_length)
  have "inode_at sample_volume_blocks formatted_superblock 2 = inode_at ?bl formatted_superblock 2"
    unfolding sample_volume_blocks_def using len sample_layout
    by (intro inode_at_put_other) (simp_all add: sample_dir_blocks valid_id_def sample_superblock layout_ok_def)
  moreover have "inode_at ?bl formatted_superblock 2 = new_inode 2 FS_INODE_TYPE_FILE"
    by (intro inode_at_put) (simp_all add: sample_dir_block_length)
  ultimately show ?thesis using sample_layout by (simp add: open_file_def valid_id_def sample_superblock)
qed

lemma sample_dir_find:
  assumes "dir_name n"
  shows "dir_find sample_volume_blocks n (i_direct_blocks sample_dir) = (if n = [97] then 2 else 0)"
proof -
  have a: "dir_name [97]" by (simp add: dir_name_def)
  have "block_find sample_dir_block n = (if n = [97] then 2 else 0)"
    using block_find_insert [OF sample_slot entry_id_zeros _ a assms] unfolding sample_dir_block_def
    by (simp only: block_find_zeros) simp
  moreover have "dir_find sample_volume_blocks n (replicate 9 0) = 0" unfolding dir_find_zero by simp
  ultimately show ?thesis unfolding sample_dir_blocks by (cases "n = [97]") (simp_all del: replicate.simps replicate_numeral add: sample_volume_data)
qed

lemma sample_heap_twice:
  obtains h where "kmalloc (fs_heap sample_volume) 88 = Some (4120, h)" and "heap_fits h 88"
proof -
  obtain h where "kmalloc small_heap 88 = Some (4120, h)" "heap_rep h [(88, False), (3960, True)]"
    using kmalloc_scan_rep [OF small_heap_rep, of 88] by (auto simp: unat_align8)
  then show thesis
    by (intro that [of h]) (auto simp: sample_volume_fields heap_fits_def has_room_def unat_align8 intro!: exI [of _ "[(88, False), (3960, True)]"])
qed

lemma sample_dir_once: "dir_once sample_volume_blocks [97] (i_direct_blocks sample_dir)"
proof -
  have z: "block_find (replicate 4096 0) [97] = 0" and a: "dir_name [97]" by (simp_all only: block_find_zeros) (simp add: dir_name_def)
  have "i_direct_blocks sample_dir ! k = 0" if "k < 10" "k \<noteq> 0" for k
    using that by (cases k) (simp_all add: sample_dir_blocks)
  then have "k = 0 \<and> i = 0" if "k < length (i_direct_blocks sample_dir)" "i_direct_blocks sample_dir ! k \<noteq> 0"
    "slot_holds (sample_volume_blocks (i_direct_blocks sample_dir ! k)) i [97]" for k i
    using that slot_holds_insert [OF sample_slot z a, of i] sample_dir_blocks(2)
    by (cases "k = 0") (auto simp: sample_dir_blocks(1) sample_volume_data sample_dir_block_def)
  then show ?thesis unfolding dir_once_def by metis
qed



section \<open>Properties\<close>

text \<open>C7: \<open>fs_create\<close> in a directory returns 0 exactly when the name exists or no inode is free, and then leaves the
  disk, the bitmaps and the superblock alone;
  otherwise it returns the number of an inode that was free, the new inode is on the disk, no other inode
  but that of the directory changes, nor does a block that belongs to another file, and \<open>fs_lookup\<close>
  finds the number under the name and under every other name what it found before.  The exception is a
  directory without room for an entry: then the name is not found although a number is returned.\<close>

theorem fs_create_lookup:
  assumes "ufs_disk hw view stk junk" and "ufs_disk_ok view (disk st)" and "inode_bitmap st = Some ib"
    and "bitmap_ok ib (total_inodes (current_superblock st))" and "block_bitmap st = Some bm"
    and "open_file (current_superblock st) bm (ufs_blk view (disk st)) pid p" and "bitmap_bit ib (unat pid - 1)"
    and "i_type p AND FS_INODE_TYPE_DIR \<noteq> 0" and "heap_ok (fs_heap st) L"
    and "kmalloc (fs_heap st) 88 = Some (a, h)" and "a \<noteq> 0" and "heap_fits h 88" and "dir_name name"
  shows "\<exists>i st1. fs_create (ufs_env hw stk junk) pid name type st = Some (i, st1) \<and>
    (i = 0 \<longleftrightarrow> dir_find (ufs_blk view (disk st)) name (i_direct_blocks p) \<noteq> 0 \<or>
        (\<forall>j < unat (total_inodes (current_superblock st)). bitmap_bit ib j)) \<and>
    (i = 0 \<longrightarrow> ufs_blk view (disk st1) = ufs_blk view (disk st) \<and> inode_bitmap st1 = inode_bitmap st \<and>
       block_bitmap st1 = block_bitmap st \<and> current_superblock st1 = current_superblock st) \<and>
    (i \<noteq> 0 \<longrightarrow> created (current_superblock st) ib pid i type (ufs_blk view (disk st)) (ufs_blk view (disk st1)) \<and>
       (\<forall>x. data_start_block (current_superblock st) < x \<and> bitmap_bit bm (unat x - 1) \<and> x \<notin> set (i_direct_blocks p) \<longrightarrow>
          ufs_blk view (disk st1) x = ufs_blk view (disk st) x) \<and>
       (\<exists>found. (found = i \<or> found = 0 \<and> dir_full (current_superblock st) bm (ufs_blk view (disk st)) p) \<and>
         (\<forall>n. dir_name n \<longrightarrow> (\<exists>st2. fs_lookup (ufs_env hw stk junk) pid n st1 =
            Some (if n = name then found else dir_find (ufs_blk view (disk st)) n (i_direct_blocks p), st2)))))"
proof -
  let ?env = "ufs_env hw stk junk" and ?sb = "current_superblock st" and ?bl = "ufs_blk view (disk st)"
  have o: "valid_id ?sb pid" "inode_at ?bl ?sb pid = p" "length name \<le> FS_MAX_FILENAME_LEN" "file_ok ?sb bm p"
    using assms(6,13) by (simp_all add: open_file_def dir_name_def)
  show ?thesis
  proof (cases "dir_find ?bl name (i_direct_blocks p) = 0")
    case False
    obtain d h where "fs_create ?env pid name type st = Some (0, st\<lparr>disk := d, fs_heap := h\<rparr>)" "ufs_blk view d = ?bl"
      by (rule ufs_disk.disk_fs_create_refused [OF assms(1,2) o(1,2) assms(8) o(3) assms(9-12) False])
    then show ?thesis using False by auto
  next
    case True
    show ?thesis
    proof (rule ufs_disk.disk_fs_create [OF assms(1-13) True, of type])
      fix d h assume "fs_create ?env pid name type st = Some (0, st\<lparr>disk := d, fs_heap := h\<rparr>)" "ufs_blk view d = ?bl"
        "\<forall>j < unat (total_inodes ?sb). bitmap_bit ib j"
      then show ?thesis by auto
    next
      fix i :: u32 and bm' fi fr d h p'
      let ?st = "st\<lparr>inode_bitmap := Some (bitmap_set (unat i - 1) ib), block_bitmap := Some bm',
        current_superblock := ?sb\<lparr>free_inodes := fi, free_blocks := fr\<rparr>, disk := d, fs_heap := h\<rparr>"
      assume c: "fs_create ?env pid name type st = Some (i, ?st)" "ufs_disk_ok view d" "heap_ok h L" "heap_fits h 88"
        "created ?sb ib pid i type ?bl (ufs_blk view d)" "open_file ?sb bm' (ufs_blk view d) pid p'"
        and "bm' = bm \<and> p' = p \<and> dir_full ?sb bm ?bl p \<and> (\<forall>x. data_start_block ?sb < x \<longrightarrow> ufs_blk view d x = ?bl x) \<or>
          dir_entered ?sb bm name i ?bl p (ufs_blk view d) p'"
      then consider (lost) "p' = p" "dir_full ?sb bm ?bl p" "\<And>x. data_start_block ?sb < x \<Longrightarrow> ufs_blk view d x = ?bl x"
        | (named) "dir_entered ?sb bm name i ?bl p (ufs_blk view d) p'" by blast
      then have r: "i_type p' AND FS_INODE_TYPE_DIR \<noteq> 0 \<and>
        (\<forall>x. data_start_block ?sb < x \<and> bitmap_bit bm (unat x - 1) \<and> x \<notin> set (i_direct_blocks p) \<longrightarrow> ufs_blk view d x = ?bl x) \<and>
        (\<exists>found. (found = i \<or> found = 0 \<and> dir_full ?sb bm ?bl p) \<and> (\<forall>n. dir_name n \<longrightarrow>
          dir_find (ufs_blk view d) n (i_direct_blocks p') = (if n = name then found else dir_find ?bl n (i_direct_blocks p))))"
      proof cases
        case lost
        then show ?thesis using assms(8) dir_find_data [OF o(4) lost(3)] True by auto
      next
        case named
        then show ?thesis using assms(8) by (auto simp: dir_entered_def)
      qed
      have "open_file (?sb\<lparr>free_inodes := fi, free_blocks := fr\<rparr>) bm' (ufs_blk view d) pid p'"
        using c(6) by (simp add: open_file_def)
      then have "\<exists>st2. fs_lookup ?env pid n ?st = Some (dir_find (ufs_blk view d) n (i_direct_blocks p'), st2)" if "dir_name n" for n
        using ufs_disk.disk_lookup [OF assms(1), of ?st bm' pid p' L n] c(2-4) r that by simp
      moreover have "i \<noteq> 0" "unat i - 1 < unat (total_inodes ?sb)" "\<not> bitmap_bit ib (unat i - 1)"
        using c(5) unat_gt_0 [of i] by (auto simp: created_def valid_id_def word_le_nat_alt)
      moreover from this have "\<not> (\<forall>j < unat (total_inodes ?sb). bitmap_bit ib j)" by blast
      ultimately show ?thesis using c(1,5) r True by (intro exI [of _ i] exI [of _ ?st]) force
    qed
  qed
qed

theorem fs_create_lookup_witness:
  "\<exists>i st1. fs_create (ufs_env ufs_controller 0x1000 (replicate 4096 0)) 1 [98] FS_INODE_TYPE_FILE sample_volume = Some (i, st1) \<and>
    i \<noteq> 0 \<and> (\<exists>st2. fs_lookup (ufs_env ufs_controller 0x1000 (replicate 4096 0)) 1 [97] st1 = Some (2, st2))"
proof -
  obtain h where h: "kmalloc (fs_heap sample_volume) 88 = Some (4120, h)" "heap_fits h 88" by (rule sample_heap_twice)
  have a: "bitmap_ok sample_bitmap (total_inodes (current_superblock sample_volume))" "bitmap_bit sample_bitmap (unat (1 :: u32) - 1)"
    "i_type sample_dir AND FS_INODE_TYPE_DIR \<noteq> 0" "heap_ok (fs_heap sample_volume) {}" "(4120 :: u64) \<noteq> 0" "dir_name [98]" "dir_name [97]"
    using sample_bits [of 0] small_heap_ok
    by (simp_all add: sample_volume_fields sample_superblock bitmap_ok_def sample_bitmap_def sample_dir_def dir_name_def)
  have o: "open_file (current_superblock sample_volume) sample_bitmap (ufs_blk (\<lambda>u. u) (disk sample_volume)) 1 sample_dir"
    using sample_dir_open by (simp add: sample_volume_fields)
  have "\<not> bitmap_bit sample_bitmap 8" by (simp add: bitmap_bit_def sample_bitmap_def)
  then have free: "\<not> (\<forall>j < unat (total_inodes (current_superblock sample_volume)). bitmap_bit sample_bitmap j)"
    by (auto simp: sample_volume_fields sample_superblock intro!: exI [of _ 8])
  have new: "dir_find (ufs_blk (\<lambda>u. u) (disk sample_volume)) [98] (i_direct_blocks sample_dir) = 0"
    using sample_dir_find [OF a(6)] by (simp add: sample_volume_fields)
  show ?thesis
    using new free fs_create_lookup [OF sample_disk.ufs_disk_axioms sample_volume_disk sample_volume_fields(2) a(1) sample_volume_fields(3)
        o a(2-4) h(1) a(5) h(2) a(6), of FS_INODE_TYPE_FILE] a(7) sample_dir_find [OF a(7)]
    unfolding sample_volume_fields by force
qed

text \<open>C8: \<open>fs_delete\<close> returns -1 and leaves the disk alone when the directory has no such name.  Otherwise it returns 0;
  \<open>fs_lookup\<close> then finds nothing under the name, which stood in one slot, and under every other name what it
  found before; exactly the bit of the file's inode and those of its blocks are cleared in the bitmaps, no
  inode but that of the directory changes, and neither does a block outside the directory.\<close>

theorem fs_delete_lookup:
  assumes "ufs_disk hw view stk junk" and "ufs_disk_ok view (disk st)" and "inode_bitmap st = Some ib"
    and "bitmap_ok ib (total_inodes (current_superblock st))" and "block_bitmap st = Some bm"
    and "open_file (current_superblock st) bm (ufs_blk view (disk st)) pid p" and "i_type p AND FS_INODE_TYPE_DIR \<noteq> 0"
    and "heap_ok (fs_heap st) L" and "heap_fits (fs_heap st) 88" and "dir_name name"
    and "t = dir_find (ufs_blk view (disk st)) name (i_direct_blocks p)"
    and "t = 0 \<or> t \<noteq> pid \<and> open_file (current_superblock st) bm (ufs_blk view (disk st)) t ti \<and>
      set (i_direct_blocks ti) \<inter> set (i_direct_blocks p) \<subseteq> {0} \<and> dir_once (ufs_blk view (disk st)) name (i_direct_blocks p)"
  shows "\<exists>rc st1. fs_delete (ufs_env hw stk junk) pid name st = Some (rc, st1) \<and>
    (t = 0 \<longrightarrow> rc = -1 \<and> ufs_blk view (disk st1) = ufs_blk view (disk st)) \<and>
    (t \<noteq> 0 \<longrightarrow> rc = 0 \<and> inode_bitmap st1 = Some (bitmap_clear (unat t - 1) ib) \<and>
       (\<exists>bm'. block_bitmap st1 = Some bm' \<and> freed bm (i_direct_blocks ti) bm') \<and>
       (\<forall>j. valid_id (current_superblock st) j \<and> j \<noteq> pid \<longrightarrow> inode_at (ufs_blk view (disk st1)) (current_superblock st) j =
          inode_at (ufs_blk view (disk st)) (current_superblock st) j) \<and>
       (\<forall>x. data_start_block (current_superblock st) < x \<and> x \<notin> set (i_direct_blocks p) \<longrightarrow>
          ufs_blk view (disk st1) x = ufs_blk view (disk st) x) \<and>
       (\<forall>n. dir_name n \<longrightarrow> (\<exists>st2. fs_lookup (ufs_env hw stk junk) pid n st1 =
          Some (if n = name then 0 else dir_find (ufs_blk view (disk st)) n (i_direct_blocks p), st2))))"
proof -
  let ?env = "ufs_env hw stk junk" and ?sb = "current_superblock st" and ?bl = "ufs_blk view (disk st)"
  show ?thesis
  proof (cases "t = 0")
    case True
    then have z: "dir_find ?bl name (i_direct_blocks p) = 0" using assms(11) by simp
    obtain d h where "fs_delete ?env pid name st = Some (-1, st\<lparr>disk := d, fs_heap := h\<rparr>)" "ufs_blk view d = ?bl"
      by (rule ufs_disk.disk_fs_delete_missing [OF assms(1,2,6,7,10,8,9) z])
    then show ?thesis using True by auto
  next
    case False
    then have t: "t \<noteq> pid" "open_file ?sb bm ?bl t ti" "set (i_direct_blocks ti) \<inter> set (i_direct_blocks p) \<subseteq> {0}"
      "dir_once ?bl name (i_direct_blocks p)" using assms(12) by simp_all
    obtain bm' fr fi d h where c: "fs_delete ?env pid name st = Some (0, st\<lparr>inode_bitmap := Some (bitmap_clear (unat t - 1) ib),
        block_bitmap := Some bm', current_superblock := ?sb\<lparr>free_blocks := fr, free_inodes := fi\<rparr>, disk := d, fs_heap := h\<rparr>)"
      "ufs_disk_ok view d" "heap_ok h L" "heap_fits h 88" "deleted ?sb pid name p ti bm bm' ?bl (ufs_blk view d)"
      by (rule ufs_disk.disk_fs_delete [OF assms(1-7) assms(10,8,9) assms(11) [symmetric] t(1-3)])
    let ?st = "st\<lparr>inode_bitmap := Some (bitmap_clear (unat t - 1) ib), block_bitmap := Some bm',
      current_superblock := ?sb\<lparr>free_blocks := fr, free_inodes := fi\<rparr>, disk := d, fs_heap := h\<rparr>"
    let ?p = "p\<lparr>i_size := i_size p - of_nat SIZEOF_DIR_ENTRY\<rparr>"
    have "open_file (?sb\<lparr>free_blocks := fr, free_inodes := fi\<rparr>) bm' (ufs_blk view d) pid ?p"
      using c(5) by (simp add: deleted_def open_file_def)
    then have "\<exists>st2. fs_lookup ?env pid n ?st = Some (dir_find (ufs_blk view d) n (i_direct_blocks p), st2)" if "dir_name n" for n
      using ufs_disk.disk_lookup [OF assms(1), of ?st bm' pid ?p L n] c(2-4) assms(7) that by simp
    moreover have "dir_find (ufs_blk view d) n (i_direct_blocks p) = (if n = name then 0 else dir_find ?bl n (i_direct_blocks p))"
      if "dir_name n" for n using that c(5) t(4) by (simp add: deleted_def dir_removed_def)
    ultimately show ?thesis using c(1,5) False
      by (intro exI [of _ 0] exI [of _ ?st]) (simp add: deleted_def dir_removed_def)
  qed
qed

theorem fs_delete_lookup_witness:
  "\<exists>st1 st2. fs_delete (ufs_env ufs_controller 0x1000 (replicate 4096 0)) 1 [97] sample_volume = Some (0, st1) \<and>
    fs_lookup (ufs_env ufs_controller 0x1000 (replicate 4096 0)) 1 [97] st1 = Some (0, st2)"
proof -
  obtain h where h: "kmalloc (fs_heap sample_volume) 88 = Some (4120, h)" by (rule sample_heap_twice)
  have a: "bitmap_ok sample_bitmap (total_inodes (current_superblock sample_volume))"
    "i_type sample_dir AND FS_INODE_TYPE_DIR \<noteq> 0" "heap_ok (fs_heap sample_volume) {}" "heap_fits (fs_heap sample_volume) 88" "dir_name [97]"
    using small_heap_ok sample_heap(2)
    by (simp_all add: sample_volume_fields sample_superblock bitmap_ok_def sample_bitmap_def sample_dir_def dir_name_def sample_fs_def)
  have o: "open_file (current_superblock sample_volume) sample_bitmap (ufs_blk (\<lambda>u. u) (disk sample_volume)) 1 sample_dir"
    using sample_dir_open by (simp add: sample_volume_fields)
  have t: "2 = dir_find (ufs_blk (\<lambda>u. u) (disk sample_volume)) [97] (i_direct_blocks sample_dir)"
    using sample_dir_find [OF a(5)] by (simp add: sample_volume_fields)
  have "set (i_direct_blocks (new_inode 2 FS_INODE_TYPE_FILE)) \<subseteq> {0}" by (auto simp: new_inode_def zero_inode_def)
  then have d: "(2 :: u32) = 0 \<or> 2 \<noteq> (1 :: u32) \<and> open_file (current_superblock sample_volume) sample_bitmap
      (ufs_blk (\<lambda>u. u) (disk sample_volume)) 2 (new_inode 2 FS_INODE_TYPE_FILE) \<and>
    set (i_direct_blocks (new_inode 2 FS_INODE_TYPE_FILE)) \<inter> set (i_direct_blocks sample_dir) \<subseteq> {0} \<and>
    dir_once (ufs_blk (\<lambda>u. u) (disk sample_volume)) [97] (i_direct_blocks sample_dir)"
    using sample_file_open sample_dir_once unfolding sample_volume_fields by auto
  have two: "(2 :: u32) \<noteq> 0" by simp
  let ?env = "ufs_env ufs_controller 0x1000 (replicate 4096 0)"
  obtain rc st1 where "fs_delete ?env 1 [97] sample_volume = Some (rc, st1)" "rc = 0"
    "\<forall>n. dir_name n \<longrightarrow> (\<exists>st2. fs_lookup ?env 1 n st1 = Some (if n = [97] then 0
       else dir_find (ufs_blk (\<lambda>u. u) (disk sample_volume)) n (i_direct_blocks sample_dir), st2))"
    using fs_delete_lookup [OF sample_disk.ufs_disk_axioms sample_volume_disk sample_volume_fields(2) a(1) sample_volume_fields(3)
        o a(2-5) t d] two by blast
  then show ?thesis using a(5) by (auto dest!: spec [of _ "[97]"])
qed




end
