(* ===== verification/Vfs.thy ===== *)
theory Vfs
  imports Heap_Client Lib
begin

text \<open>
  The virtual file system of \<^verbatim>\<open>src/kern/fs/vfs.c\<close>: a tree of nodes in the kernel heap, each with the
  address of its name, its type, its parent, its first child, its next sibling and the data of the
  file system below it.  The children of a directory are a list linked through the siblings; the
  loops over it are partial functions.  Names are addresses of strings the callers own.
\<close>

section \<open>Definitions\<close>

abbreviation VFS_NODE_DIR :: u32 where "VFS_NODE_DIR \<equiv> 1"
abbreviation VFS_NODE_FILE :: u32 where "VFS_NODE_FILE \<equiv> 2"

text \<open>\<open>vfs_node_t\<close>: 48 bytes, with the offsets of its fields.\<close>

abbreviation SIZEOF_VFS_NODE :: u64 where "SIZEOF_VFS_NODE \<equiv> 48"
abbreviation node_name :: u64 where "node_name \<equiv> 0"
abbreviation node_type :: u64 where "node_type \<equiv> 8"
abbreviation node_parent :: u64 where "node_parent \<equiv> 16"
abbreviation node_child :: u64 where "node_child \<equiv> 24"
abbreviation node_sibling :: u64 where "node_sibling \<equiv> 32"
abbreviation node_fs_data :: u64 where "node_fs_data \<equiv> 40"

record vfs_state =
  vheap :: kheap
  vroot :: u64
  vlog :: "kmsg list"

definition vfs_print :: "string \<Rightarrow> vfs_state \<Rightarrow> vfs_state" where
  "vfs_print s st = st\<lparr>vlog := vlog st @ [(s, [])]\<rparr>"

definition set_type :: "u64 \<Rightarrow> u32 \<Rightarrow> kheap \<Rightarrow> kheap" where
  "set_type node t h = h\<lparr>mem := store32 (mem h) (node + node_type) t\<rparr>"

text \<open>The six assignments to a new node.\<close>

definition init_node :: "u64 \<Rightarrow> u64 \<Rightarrow> u32 \<Rightarrow> u64 \<Rightarrow> u64 \<Rightarrow> kheap \<Rightarrow> kheap" where
  "init_node node name type parent fs_data h =
     (let h = set_field (node + node_name) name h;
          h = set_type node type h;
          h = set_field (node + node_parent) parent h;
          h = set_field (node + node_child) 0 h;
          h = set_field (node + node_sibling) 0 h
      in set_field (node + node_fs_data) fs_data h)"

text \<open>\<open>vfs_init\<close>; \<open>root_str\<close> is the address of the literal \<open>"root"\<close>.\<close>

definition vfs_init :: "u64 \<Rightarrow> vfs_state \<Rightarrow> (int \<times> vfs_state) option" where
  "vfs_init root_str st = do {
     (root, h) \<leftarrow> kmalloc (vheap st) SIZEOF_VFS_NODE;
     let st = st\<lparr>vheap := h, vroot := root\<rparr>;
     if root = 0 then Some (-1, vfs_print ''vfs_init: failed to allocate memory for root'' st)
     else Some (0, st\<lparr>vheap := init_node root root_str VFS_NODE_DIR 0 0 h\<rparr>)
   }"

definition vfs_get_root :: "vfs_state \<Rightarrow> u64" where
  "vfs_get_root st = vroot st"

text \<open>\<open>while (cur->sibling) cur = cur->sibling;\<close>\<close>

partial_function (option) last_sibling :: "mem \<Rightarrow> u64 \<Rightarrow> u64 option" where
  "last_sibling m cur =
     (if load64 m (cur + node_sibling) \<noteq> 0 then last_sibling m (load64 m (cur + node_sibling)) else Some cur)"

definition append_child :: "u64 \<Rightarrow> u64 \<Rightarrow> kheap \<Rightarrow> kheap option" where
  "append_child parent node h =
     (if load64 (mem h) (parent + node_child) = 0 then Some (set_field (parent + node_child) node h)
      else do {
        cur \<leftarrow> last_sibling (mem h) (load64 (mem h) (parent + node_child));
        Some (set_field (cur + node_sibling) node h)
      })"

text \<open>The common text of \<open>vfs_create_dir\<close> and \<open>vfs_create_file\<close>, \<open>who\<close> being the name in the messages.\<close>

definition vfs_create :: "string \<Rightarrow> u32 \<Rightarrow> u64 \<Rightarrow> u64 \<Rightarrow> u64 \<Rightarrow> vfs_state \<Rightarrow> (u64 \<times> vfs_state) option" where
  "vfs_create who type fs_data parent name st =
     (if parent = 0 \<or> load32 (mem (vheap st)) (parent + node_type) \<noteq> VFS_NODE_DIR
      then Some (0, vfs_print (who @ '': invalid parent'') st)
      else do {
        (node, h) \<leftarrow> kmalloc (vheap st) SIZEOF_VFS_NODE;
        if node = 0 then Some (0, vfs_print (who @ '': memory allocation failed'') (st\<lparr>vheap := h\<rparr>))
        else do {
          h \<leftarrow> append_child parent node (init_node node name type parent fs_data h);
          Some (node, st\<lparr>vheap := h\<rparr>)
        }
      })"

definition vfs_create_dir :: "u64 \<Rightarrow> u64 \<Rightarrow> vfs_state \<Rightarrow> (u64 \<times> vfs_state) option" where
  "vfs_create_dir parent name st = vfs_create ''vfs_create_dir'' VFS_NODE_DIR 0 parent name st"

definition vfs_create_file :: "u64 \<Rightarrow> u64 \<Rightarrow> u64 \<Rightarrow> vfs_state \<Rightarrow> (u64 \<times> vfs_state) option" where
  "vfs_create_file parent name fs_data st = vfs_create ''vfs_create_file'' VFS_NODE_FILE fs_data parent name st"

partial_function (option) lookup_loop :: "mem \<Rightarrow> u64 \<Rightarrow> u64 \<Rightarrow> u64 option" where
  "lookup_loop m name cur =
     (if cur = 0 then Some 0
      else do {
        r \<leftarrow> strcmp m (load64 m (cur + node_name)) name;
        if r = 0 then Some cur else lookup_loop m name (load64 m (cur + node_sibling))
      })"

definition vfs_lookup :: "u64 \<Rightarrow> u64 \<Rightarrow> vfs_state \<Rightarrow> u64 option" where
  "vfs_lookup node name st =
     (if node = 0 \<or> load32 (mem (vheap st)) (node + node_type) \<noteq> VFS_NODE_DIR then Some 0
      else lookup_loop (mem (vheap st)) name (load64 (mem (vheap st)) (node + node_child)))"

definition vfs_mount :: "u64 \<Rightarrow> u64 \<Rightarrow> vfs_state \<Rightarrow> int \<times> vfs_state" where
  "vfs_mount mount_point fs_root st =
     (if mount_point = 0 then (-1, vfs_print ''vfs_mount: invalid mount point'' st)
      else (0, st\<lparr>vheap := set_field (mount_point + node_fs_data) fs_root (vheap st)\<rparr>))"

text \<open>\<open>vfs_read\<close> and \<open>vfs_write\<close> call \<open>fs_read\<close> and \<open>fs_write\<close> with three arguments, which is not how
  \<^verbatim>\<open>fs.h\<close> declares them; the function they call is a parameter here.\<close>

definition vfs_read ::
  "(u64 \<Rightarrow> u64 \<Rightarrow> u32 \<Rightarrow> vfs_state \<Rightarrow> (int \<times> vfs_state) option) \<Rightarrow> u64 \<Rightarrow> u64 \<Rightarrow> u32 \<Rightarrow> vfs_state \<Rightarrow> (int \<times> vfs_state) option" where
  "vfs_read fs_read node buffer sz st =
     (if node = 0 \<or> load64 (mem (vheap st)) (node + node_fs_data) = 0
      then Some (-1, vfs_print ''vfs_read: invalid node or missing filesystem data'' st)
      else fs_read (load64 (mem (vheap st)) (node + node_fs_data)) buffer sz st)"

definition vfs_write ::
  "(u64 \<Rightarrow> u64 \<Rightarrow> u32 \<Rightarrow> vfs_state \<Rightarrow> (int \<times> vfs_state) option) \<Rightarrow> u64 \<Rightarrow> u64 \<Rightarrow> u32 \<Rightarrow> vfs_state \<Rightarrow> (int \<times> vfs_state) option" where
  "vfs_write fs_write node buffer sz st =
     (if node = 0 \<or> load64 (mem (vheap st)) (node + node_fs_data) = 0
      then Some (-1, vfs_print ''vfs_write: invalid node or missing filesystem data'' st)
      else fs_write (load64 (mem (vheap st)) (node + node_fs_data)) buffer sz st)"

section \<open>The children of a directory\<close>

fun sib_chain :: "mem \<Rightarrow> u64 \<Rightarrow> u64 list \<Rightarrow> bool" where
  "sib_chain m a [] \<longleftrightarrow> a = 0"
| "sib_chain m a (x # xs) \<longleftrightarrow> a = x \<and> x \<noteq> 0 \<and> sib_chain m (load64 m (x + node_sibling)) xs"

text \<open>A node is a live heap object of at least 48 bytes.\<close>

definition vnode :: "(nat \<times> nat) set \<Rightarrow> u64 \<Rightarrow> bool" where
  "vnode L x \<longleftrightarrow> (\<exists>k\<ge>48. (unat x, k) \<in> L)"

definition dir_ok :: "kheap \<Rightarrow> (nat \<times> nat) set \<Rightarrow> u64 \<Rightarrow> u64 list \<Rightarrow> bool" where
  "dir_ok h L d xs \<longleftrightarrow> heap_ok h L \<and> vnode L d \<and> load32 (mem h) (d + node_type) = VFS_NODE_DIR \<and>
     sib_chain (mem h) (load64 (mem h) (d + node_child)) xs \<and> (\<forall>x \<in> set xs. vnode L x) \<and> distinct xs \<and> d \<notin> set xs"

lemma vnode_nonzero: "heap_ok h L \<Longrightarrow> vnode L x \<Longrightarrow> x \<noteq> 0"
  using kheap.live_bounds by (fastforce simp: vnode_def)

lemma last_sibling_chain:
  assumes "sib_chain m a xs" and "xs \<noteq> []"
  shows "last_sibling m a = Some (last xs)"
  using assms
proof (induction xs arbitrary: a)
  case (Cons x xs)
  show ?case
  proof (cases xs)
    case Nil
    with Cons.prems show ?thesis by (subst last_sibling.simps) simp
  next
    case (Cons y ys)
    with Cons.prems Cons.IH [of "load64 m (x + node_sibling)"] show ?thesis
      by (subst last_sibling.simps) simp
  qed
qed simp

lemma sib_chain_append:
  assumes "sib_chain m a xs" and "distinct (xs @ [n])" and "n \<noteq> 0" and "xs \<noteq> []"
    and "\<And>x. x \<in> set xs \<Longrightarrow> x \<noteq> last xs \<Longrightarrow> load64 m' (x + node_sibling) = load64 m (x + node_sibling)"
    and "load64 m' (last xs + node_sibling) = n" and "load64 m' (n + node_sibling) = 0"
  shows "sib_chain m' a (xs @ [n])"
  using assms
proof (induction xs arbitrary: a)
  case (Cons x xs)
  show ?case
  proof (cases "xs = []")
    case True
    with Cons.prems show ?thesis by simp
  next
    case False
    have "x \<noteq> last xs" using Cons.prems(2) False by auto
    then have "load64 m' (x + node_sibling) = load64 m (x + node_sibling)"
      using Cons.prems(5) [of x] False by simp
    moreover have "sib_chain m' (load64 m (x + node_sibling)) (xs @ [n])"
      using Cons.prems False by (intro Cons.IH) auto
    ultimately show ?thesis using Cons.prems(1) by simp
  qed
qed simp

lemma sib_chain_cong:
  "sib_chain m a xs \<Longrightarrow> (\<And>x. x \<in> set xs \<Longrightarrow> load64 m' (x + node_sibling) = load64 m (x + node_sibling)) \<Longrightarrow>
     sib_chain m' a xs"
  by (induction xs arbitrary: a) auto

text \<open>Fields of a node while the heap evolves.\<close>

lemma vnode_field:
  assumes "heap_ok h L" and "vnode K x" and "K \<subseteq> L" and "unat off + 8 \<le> 48" and "evolves h K h' L'"
  shows "load64 (mem h') (x + off) = load64 (mem h) (x + off)"
proof -
  obtain k where k: "48 \<le> k" "(unat x, k) \<in> K" using assms(2) by (auto simp: vnode_def)
  then show ?thesis using evolves_read [OF assms(1) k(2) assms(3) _ assms(5), of off] assms(4) by simp
qed

lemma vnode_type:
  assumes "heap_ok h L" and "vnode K x" and "K \<subseteq> L" and "evolves h K h' L'"
  shows "load32 (mem h') (x + node_type) = load32 (mem h) (x + node_type)"
proof -
  obtain k where k: "48 \<le> k" "(unat x, k) \<in> K" using assms(2) by (auto simp: vnode_def)
  then show ?thesis using evolves_read32 [OF assms(1) k(2) assms(3) _ assms(4), of node_type] by simp
qed

text \<open>A new node.\<close>

lemma load64_set_type:
  assumes "8 \<le> unat (j - node_type)" and "8 \<le> unat (node_type - j)"
  shows "load64 (mem (set_type a t h)) (a + j) = load64 (mem h) (a + j)"
proof (rule load64_cong)
  fix x assume x: "x \<in> region (a + j) 8"
  have "region (a + node_type) 8 \<inter> region (a + j) 8 = {}" using region_apart [of 8 j node_type 8 a] assms by simp
  then have "x \<notin> region (a + node_type) 4" using x region_mono [of 4 8 "a + node_type"] by auto
  then show "mem (set_type a t h) x = mem h x" by (simp add: set_type_def store32_frame)
qed

lemma init_node_fields:
  fixes n :: u64
  shows "load64 (mem (init_node n name type parent data h)) n = name"
    and "load32 (mem (init_node n name type parent data h)) (n + node_type) = type"
    and "load64 (mem (init_node n name type parent data h)) (n + node_parent) = parent"
    and "load64 (mem (init_node n name type parent data h)) (n + node_child) = 0"
    and "load64 (mem (init_node n name type parent data h)) (n + node_sibling) = 0"
    and "load64 (mem (init_node n name type parent data h)) (n + node_fs_data) = data"
proof -
  let ?h = "init_node n name type parent data h"
  note simps = init_node_def Let_def load64_set_field load64_set_field_same load64_set_type load32_set_field
  show "load64 (mem ?h) n = name"
    by (simp add: simps load64_set_field [where j = 0, simplified] load64_set_type [where j = 0, simplified])
  have "load32 (mem (set_type n type h')) (n + node_type) = type" for h' by (simp add: set_type_def load32_store32_same)
  then show "load32 (mem ?h) (n + node_type) = type" by (simp add: simps)
  show "load64 (mem ?h) (n + node_parent) = parent" "load64 (mem ?h) (n + node_child) = 0"
    "load64 (mem ?h) (n + node_sibling) = 0" "load64 (mem ?h) (n + node_fs_data) = data"
    by (simp_all add: simps)
qed

lemma evolves_init_node:
  assumes "heap_ok h L" and "(p, k) \<in> L" and "48 \<le> k"
  shows "evolves h (L - {(p, k)}) (init_node (of_nat p) name type parent data h) L"
proof -
  let ?P = "\<lambda>h'. evolves h (L - {(p, k)}) h' L"
  have step: "?P (set_field (of_nat p + off) v h')" if "?P h'" "unat off + 8 \<le> 48" for h' off v
    using evolves_step [OF that(1) evolves_set [OF evolves_ok [OF that(1)] assms(2)]] that(2) assms(3) by simp
  have step_type: "?P (set_type (of_nat p) type h')" if "?P h'" for h'
    using evolves_step [OF that evolves_write [OF evolves_ok [OF that] assms(2), of node_type "le_bytes 4 type"]] assms(3)
    by (simp add: set_type_def store32_def)
  have "?P h" using assms(1) by (simp add: evolves_def)
  then show ?thesis unfolding init_node_def Let_def by (intro step step_type) simp_all
qed


lemma init_node_room:
  assumes "heap_ok h L" and "(p, k) \<in> L" and "48 \<le> k" and "heap_room h r"
  shows "heap_room (init_node (of_nat p) name type parent data h) r"
proof -
  let ?P = "\<lambda>h'. heap_ok h' L \<and> heap_room h' r"
  have step: "?P (set_field (of_nat p + off) v h')" if "?P h'" "unat off + 8 \<le> 48" for h' off v
    using that assms(2,3) heap_room_set [of h' L p k off r v] evolves_ok [OF evolves_set [of h' L p k off v]] by simp
  have step_type: "?P (set_type (of_nat p) type h')" if "?P h'" for h'
    using that assms(2,3) heap_room_write [of h' L p k node_type "le_bytes 4 type" r]
      evolves_ok [OF evolves_write [of h' L p k node_type "le_bytes 4 type"]]
    by (simp add: set_type_def store32_def)
  have "?P h" using assms(1,4) by simp
  then have "?P (init_node (of_nat p) name type parent data h)" unfolding init_node_def Let_def by (intro step step_type) simp_all
  then show ?thesis ..
qed

text \<open>Appending a node: what the directory's list becomes, and what is left alone.\<close>

lemma vnode_word: "vnode L x \<Longrightarrow> \<exists>k\<ge>48. (unat x, k) \<in> L"
  by (simp add: vnode_def)

lemma vnode_apart:
  assumes "heap_ok h L" and "vnode L x" and "(p, k) \<in> L" and "unat x \<noteq> p"
  shows "vnode (L - {(p, k)}) x"
  using assms(2,4) by (auto simp: vnode_def)

lemma evolves_link:
  assumes "heap_ok h L" and "vnode L x" and "unat off + 8 \<le> 48"
  obtains k where "(unat x, k) \<in> L" and "48 \<le> k" and "evolves h (L - {(unat x, k)}) (set_field (x + off) v h) L"
proof -
  from assms(2) obtain k where k: "48 \<le> k" "(unat x, k) \<in> L" by (auto simp: vnode_def)
  then show thesis using evolves_set [OF assms(1) k(2), of off v] assms(3) by (intro that [of k]) simp_all
qed

text \<open>Everything of a child but its link to the next one, and everything of a directory but its first child.\<close>

definition node_kept :: "mem \<Rightarrow> mem \<Rightarrow> u64 \<Rightarrow> bool" where
  "node_kept m m' x \<longleftrightarrow> load32 m' (x + node_type) = load32 m (x + node_type) \<and>
     (\<forall>off \<in> {node_name, node_parent, node_child, node_fs_data}. load64 m' (x + off) = load64 m (x + off))"

definition dir_kept :: "mem \<Rightarrow> mem \<Rightarrow> u64 \<Rightarrow> bool" where
  "dir_kept m m' d \<longleftrightarrow> load32 m' (d + node_type) = load32 m (d + node_type) \<and>
     (\<forall>off \<in> {node_name, node_parent, node_sibling, node_fs_data}. load64 m' (d + off) = load64 m (d + off))"

lemma vnode_kept:
  assumes "heap_ok h L" and "vnode K x" and "K \<subseteq> L" and "evolves h K h' L'"
  shows "node_kept (mem h) (mem h') x" and "dir_kept (mem h) (mem h') x"
  using vnode_field [OF assms(1-3) _ assms(4)] vnode_field [OF assms(1-3) _ assms(4), of node_name] vnode_type [OF assms]
  by (simp_all add: node_kept_def dir_kept_def)

lemma kept_trans:
  "node_kept m m1 x \<Longrightarrow> node_kept m1 m' x \<Longrightarrow> node_kept m m' x" "dir_kept m m1 x \<Longrightarrow> dir_kept m1 m' x \<Longrightarrow> dir_kept m m' x"
  by (simp_all add: node_kept_def dir_kept_def)

lemma link_kept:
  "node_kept (mem h) (mem (set_field (x + node_sibling) v h)) x" "dir_kept (mem h) (mem (set_field (x + node_child) v h)) x"
  using load64_set_field [where a = x and j = 0] by (simp_all add: node_kept_def dir_kept_def load64_set_field load32_set_field)

lemma append_child_ok:
  assumes dir: "dir_ok h L d xs" and n: "vnode L n" "n \<noteq> d" "n \<notin> set xs" "load64 (mem h) (n + node_sibling) = 0"
  obtains h' k y where "append_child d n h = Some h'" and "dir_ok h' L d (xs @ [n])"
    and "y \<in> insert d (set xs)" and "(unat y, k) \<in> L" and "evolves h (L - {(unat y, k)}) h' L"
    and "\<And>x. x \<in> set (xs @ [n]) \<Longrightarrow> node_kept (mem h) (mem h') x" and "dir_kept (mem h) (mem h') d"
proof -
  have ok: "heap_ok h L" and d: "vnode L d" "load32 (mem h) (d + node_type) = VFS_NODE_DIR"
    and ch: "sib_chain (mem h) (load64 (mem h) (d + node_child)) xs" and xs: "\<forall>x \<in> set xs. vnode L x" "distinct xs" "d \<notin> set xs"
    using dir by (simp_all add: dir_ok_def)
  have n0: "n \<noteq> 0" using ok n(1) by (rule vnode_nonzero)
  show thesis
  proof (cases "xs = []")
    case True
    obtain k where k: "(unat d, k) \<in> L" "evolves h (L - {(unat d, k)}) (set_field (d + node_child) n h) L"
      using evolves_link [OF ok d(1), of node_child n] by auto
    let ?h = "set_field (d + node_child) n h"
    have "unat n \<noteq> unat d" using n(2) by (simp add: word_unat_eq_iff)
    then have v: "vnode (L - {(unat d, k)}) n" using vnode_apart [OF ok n(1) k(1)] by simp
    have f: "load64 (mem ?h) (n + off) = load64 (mem h) (n + off)" if "unat off + 8 \<le> 48" for off
      using vnode_field [OF ok v _ that k(2)] by blast
    have "append_child d n h = Some ?h" using ch True by (simp add: append_child_def)
    moreover have "dir_ok ?h L d [n]"
      using evolves_ok [OF k(2)] d n f [of node_sibling] n0
      by (simp add: dir_ok_def load64_set_field_same load32_set_field)
    moreover have "node_kept (mem h) (mem ?h) n" using vnode_kept(1) [OF ok v _ k(2)] by blast
    ultimately show thesis using k link_kept(2) True by (intro that [of ?h d k]) simp_all
  next
    case False
    let ?y = "last xs"
    have y: "?y \<in> set xs" "vnode L ?y" using False xs(1) by auto
    obtain k where k: "(unat ?y, k) \<in> L" "evolves h (L - {(unat ?y, k)}) (set_field (?y + node_sibling) n h) L"
      using evolves_link [OF ok y(2), of node_sibling n] by auto
    let ?h = "set_field (?y + node_sibling) n h"
    have f: "load64 (mem ?h) (x + off) = load64 (mem h) (x + off)" if "vnode L x" "x \<noteq> ?y" "unat off + 8 \<le> 48" for x off
    proof -
      have "unat x \<noteq> unat ?y" using that(2) by (simp add: word_unat_eq_iff)
      then show ?thesis using vnode_field [OF ok vnode_apart [OF ok that(1) k(1)] _ that(3) k(2)] by blast
    qed
    have dy: "d \<noteq> ?y" "n \<noteq> ?y" using xs(3) y(1) n(3) by auto
    have "load64 (mem h) (d + node_child) \<noteq> 0" using ch False by (cases xs) auto
    then have app: "append_child d n h = Some ?h"
      using last_sibling_chain [OF ch False] by (simp add: append_child_def)
    have "unat d \<noteq> unat ?y" using dy(1) by (simp add: word_unat_eq_iff)
    then have ty: "load32 (mem ?h) (d + node_type) = VFS_NODE_DIR"
      using vnode_type [OF ok vnode_apart [OF ok d(1) k(1)] _ k(2)] d(2) by simp
    have "sib_chain (mem ?h) (load64 (mem h) (d + node_child)) (xs @ [n])"
      using ch False xs n n0 f [of _ node_sibling] dy
      by (intro sib_chain_append [where m = "mem h"]) (auto simp: load64_set_field_same)
    then have "dir_ok ?h L d (xs @ [n])"
      using evolves_ok [OF k(2)] d(1) xs n ty f [OF d(1) dy(1), of node_child] by (simp add: dir_ok_def)
    moreover have kept: "node_kept (mem h) (mem ?h) x" "dir_kept (mem h) (mem ?h) x" if "vnode L x" "x \<noteq> ?y" for x
    proof -
      have "unat x \<noteq> unat ?y" using that(2) by (simp add: word_unat_eq_iff)
      then show "node_kept (mem h) (mem ?h) x" "dir_kept (mem h) (mem ?h) x"
        using vnode_kept [OF ok vnode_apart [OF ok that(1) k(1)] _ k(2)] by blast+
    qed
    have "node_kept (mem h) (mem ?h) x" if "x \<in> set (xs @ [n])" for x
      using that link_kept(1) kept(1) [of x] xs(1) n(1) by (cases "x = ?y") auto
    ultimately show thesis using app k y(1) kept(2) [OF d(1) dy(1)] by (intro that [of ?h ?y k]) auto
  qed
qed

text \<open>Looking a name up: the first child with that name.\<close>

definition named :: "mem \<Rightarrow> (u64 \<Rightarrow> u8 list) \<Rightarrow> u64 list \<Rightarrow> bool" where
  "named m nm xs \<longleftrightarrow> (\<forall>x \<in> set xs. c_string m (load64 m (x + node_name)) (nm x))"

definition first_named :: "(u64 \<Rightarrow> u8 list) \<Rightarrow> u8 list \<Rightarrow> u64 list \<Rightarrow> u64" where
  "first_named nm s xs = (case find (\<lambda>x. nm x = s) xs of Some x \<Rightarrow> x | None \<Rightarrow> 0)"

lemma lookup_loop_chain:
  assumes "sib_chain m a xs" and "named m nm xs" and "c_string m name s"
  shows "lookup_loop m name a = Some (first_named nm s xs)"
  using assms
proof (induction xs arbitrary: a)
  case Nil
  then show ?case by (subst lookup_loop.simps) (simp add: first_named_def)
next
  case (Cons x xs)
  then have st: "c_string m (load64 m (x + node_name)) (nm x)" by (simp add: named_def)
  have "\<exists>r. strcmp m (load64 m (x + node_name)) name = Some r \<and> (r = 0 \<longleftrightarrow> nm x = s)"
    using strcmp_c_string [OF st Cons.prems(3)] cmp_bytes_zero [OF c_string_nonzero [OF st] c_string_nonzero [OF Cons.prems(3)]] by auto
  moreover have "lookup_loop m name (load64 m (x + node_sibling)) = Some (first_named nm s xs)"
    using Cons.prems by (intro Cons.IH) (simp_all add: named_def)
  ultimately show ?case using Cons.prems(1) by (subst lookup_loop.simps) (auto simp: first_named_def)
qed


text \<open>A directory with the names of its children, which lie outside the heap.\<close>

definition string_at :: "kheap \<Rightarrow> u64 \<Rightarrow> u8 list \<Rightarrow> bool" where
  "string_at h a s \<longleftrightarrow> c_string (mem h) a s \<and> length s < 2 ^ 64 \<and> region a (Suc (length s)) \<inter> heap_area h = {}"

definition vfs_dir :: "vfs_state \<Rightarrow> (nat \<times> nat) set \<Rightarrow> u64 \<Rightarrow> u64 list \<Rightarrow> (u64 \<Rightarrow> u8 list) \<Rightarrow> bool" where
  "vfs_dir st L d xs nm \<longleftrightarrow> dir_ok (vheap st) L d xs \<and>
     (\<forall>x \<in> set xs. string_at (vheap st) (load64 (mem (vheap st)) (x + node_name)) (nm x))"

lemma evolves_string:
  assumes "string_at h a s" and "evolves h K h' L'"
  shows "string_at h' a s"
proof -
  have eq: "mem h' (a + of_nat i) = mem h (a + of_nat i)" if "i \<le> length s" for i
  proof -
    have "a + of_nat i \<in> region a (Suc (length s))" using that assms(1) by (intro region_offset) (simp_all add: string_at_def)
    then have "a + of_nat i \<notin> heap_area h" using assms(1) unfolding string_at_def by blast
    then show ?thesis using assms(2) unfolding evolves_def by blast
  qed
  have "c_string (mem h) a s" using assms(1) by (simp add: string_at_def)
  from this eq have "c_string (mem h') a s" by (rule c_string_cong)
  with assms show ?thesis by (simp add: string_at_def evolves_def)
qed

lemma evolves_dir:
  assumes "dir_ok h L d xs" and "evolves h L h' L'" and "L \<subseteq> L'"
  shows "dir_ok h' L' d xs"
proof -
  have ok: "heap_ok h L" using assms(1) by (simp add: dir_ok_def)
  have f: "load64 (mem h') (x + off) = load64 (mem h) (x + off)" if "vnode L x" "unat off + 8 \<le> 48" for x off
    using vnode_field [OF ok that(1) order_refl that(2) assms(2)] .
  have v: "vnode L' x" if "vnode L x" for x using that assms(3) by (auto simp: vnode_def)
  have d: "vnode L d" using assms(1) by (simp add: dir_ok_def)
  have xs: "vnode L x" if "x \<in> set xs" for x using assms(1) that by (simp add: dir_ok_def)
  have "sib_chain (mem h) (load64 (mem h) (d + node_child)) xs" using assms(1) by (simp add: dir_ok_def)
  then have "sib_chain (mem h') (load64 (mem h) (d + node_child)) xs"
    by (rule sib_chain_cong) (rule f [OF xs], simp_all)
  then show ?thesis
    using assms(1) evolves_ok [OF assms(2)] v f [OF d, of node_child] vnode_type [OF ok d order_refl assms(2)]
    by (simp add: dir_ok_def)
qed

text \<open>What the creation of a child does: nothing when the heap has no block for a node, and otherwise a fresh node at the end
  of the directory, with everything else of the directory and of the other children as it was.\<close>

definition child_added ::
  "vfs_state \<Rightarrow> (nat \<times> nat) set \<Rightarrow> u64 \<Rightarrow> u64 list \<Rightarrow> (u64 \<Rightarrow> u8 list) \<Rightarrow> u64 \<Rightarrow> u8 list \<Rightarrow> u32 \<Rightarrow> u64 \<Rightarrow> u64 \<Rightarrow> vfs_state \<Rightarrow> bool" where
  "child_added st L d xs nm name s type data n st' \<longleftrightarrow>
     (n = 0 \<and> \<not> heap_fits (vheap st) SIZEOF_VFS_NODE \<and> vheap st' = vheap st \<or>
      n \<noteq> 0 \<and> n \<notin> set xs \<and> (\<exists>k. (unat n, k) \<notin> L \<and> vfs_dir st' (insert (unat n, k) L) d (xs @ [n]) (nm(n := s))) \<and>
      load64 (mem (vheap st')) (n + node_name) = name \<and>
      load32 (mem (vheap st')) (n + node_type) = type \<and> load64 (mem (vheap st')) (n + node_parent) = d \<and>
      load64 (mem (vheap st')) (n + node_child) = 0 \<and> load64 (mem (vheap st')) (n + node_fs_data) = data \<and>
      (\<forall>x \<in> set xs. node_kept (mem (vheap st)) (mem (vheap st')) x) \<and> dir_kept (mem (vheap st)) (mem (vheap st')) d)"

text \<open>The names of the children after a node was appended.\<close>

lemma child_names:
  assumes dir: "vfs_dir st L d xs nm" and name: "string_at (vheap st) name s" and e: "evolves (vheap st) L h2 L'"
    and e3: "evolves h2 L'' h3 L'" and n: "load64 (mem h3) (n + node_name) = name" and x: "x \<in> set (xs @ [n])" "n \<notin> set xs"
    and same: "load64 (mem h3) (x + node_name) = load64 (mem h2) (x + node_name)"
  shows "string_at h3 (load64 (mem h3) (x + node_name)) ((nm(n := s)) x)"
proof (cases "x = n")
  case True
  then show ?thesis using n evolves_string [OF evolves_string [OF name e] e3] by simp
next
  case False
  then have x': "x \<in> set xs" using x(1) by simp
  have dok: "dir_ok (vheap st) L d xs" using dir by (simp add: vfs_dir_def)
  then have "load64 (mem h3) (x + node_name) = load64 (mem (vheap st)) (x + node_name)"
    using same x' vnode_field [OF _ _ order_refl _ e, of x node_name] by (simp add: dir_ok_def)
  with False x' dir show ?thesis
    using evolves_string [OF evolves_string [OF _ e] e3] by (simp add: vfs_dir_def)
qed

lemma vfs_create_ok:
  assumes dir: "vfs_dir st L d xs nm" and name: "string_at (vheap st) name s"
  shows "\<exists>n st'. vfs_create who type data d name st = Some (n, st') \<and> child_added st L d xs nm name s type data n st'"
proof -
  let ?h = "vheap st"
  have dok: "dir_ok ?h L d xs" and ok: "heap_ok ?h L" and d: "vnode L d"
    and isd: "load32 (mem ?h) (d + node_type) = VFS_NODE_DIR" using dir by (simp_all add: vfs_dir_def dir_ok_def)
  have d0: "d \<noteq> 0" using ok d by (rule vnode_nonzero)
  have sz: "0 < unat SIZEOF_VFS_NODE" "unat SIZEOF_VFS_NODE + 7 < 2 ^ 64" by simp_all
  from ok sz show ?thesis
  proof (cases rule: evolves_alloc)
    case null
    then have "\<not> heap_fits ?h SIZEOF_VFS_NODE" using kheap.alloc_fits [OF ok _ _ null] by auto
    with null show ?thesis using d0 isd by (simp add: vfs_create_def vfs_print_def child_added_def)
  next
    case (block p k h1)
    let ?n = "of_nat p :: u64" and ?L = "insert (p, k) L"
    let ?h2 = "init_node ?n name type d data h1"
    have un: "unat ?n = p" and n0: "?n \<noteq> 0" using block(2,3) by (simp_all add: unat_of_nat64 of_nat_lt64)
    have "?L - {(p, k)} = L" using block(6) by auto
    then have e2: "evolves h1 L ?h2 ?L"
      using evolves_init_node [OF evolves_ok [OF block(5)], of p k] block(4) by simp
    have e: "evolves ?h L ?h2 ?L" using evolves_step [OF block(5) e2] .
    have dok2: "dir_ok ?h2 ?L d xs" using evolves_dir [OF dok e] by blast
    have fresh: "vnode L x \<Longrightarrow> x \<noteq> ?n" for x using block(6) un by (auto simp: vnode_def)
    have "\<forall>x \<in> set xs. vnode L x" using dok by (simp add: dir_ok_def)
    then have n: "vnode ?L ?n" "?n \<noteq> d" "?n \<notin> set xs" "load64 (mem ?h2) (?n + node_sibling) = 0"
      using block(4) un fresh fresh [OF d] by (auto simp: vnode_def init_node_fields(5))
    from dok2 n obtain h3 j y where h3: "append_child d ?n ?h2 = Some h3" "dir_ok h3 ?L d (xs @ [?n])"
      "y \<in> insert d (set xs)" "(unat y, j) \<in> ?L" "evolves ?h2 (?L - {(unat y, j)}) h3 ?L"
      "\<And>x. x \<in> set (xs @ [?n]) \<Longrightarrow> node_kept (mem ?h2) (mem h3) x" "dir_kept (mem ?h2) (mem h3) d"
      by (rule append_child_ok) blast
    have nm: "load64 (mem h3) (x + node_name) = load64 (mem ?h2) (x + node_name)" if "x \<in> set (xs @ [?n])" for x
      using h3(6) [OF that] by (simp add: node_kept_def)
    have "vnode L y" using h3(3) d dok by (auto simp: dir_ok_def)
    then have "unat ?n \<noteq> unat y" using fresh by (metis word_unat_eq_iff)
    then have vn: "vnode (?L - {(unat y, j)}) ?n" using n(1) un by (auto simp: vnode_def)
    have ok2: "heap_ok ?h2 ?L" using evolves_ok [OF e] .
    have f: "load64 (mem h3) (?n + off) = load64 (mem ?h2) (?n + off)" if "unat off + 8 \<le> 48" for off
      using vnode_field [OF ok2 vn _ that h3(5)] by blast
    have ty: "load32 (mem h3) (?n + node_type) = type"
      using vnode_type [OF ok2 vn _ h3(5)] init_node_fields(2) by auto
    have names: "string_at h3 (load64 (mem h3) (x + node_name)) ((nm(?n := s)) x)" if "x \<in> set (xs @ [?n])" for x
      using child_names [OF dir name e h3(5) _ that n(3) nm [OF that]] f [of node_name] init_node_fields(1) by simp
    have create: "vfs_create who type data d name st = Some (?n, st\<lparr>vheap := h3\<rparr>)"
      using d0 isd block(1) n0 h3(1) by (simp add: vfs_create_def)
    have "node_kept (mem ?h) (mem h3) x" if "x \<in> set xs" for x
      using that dok kept_trans(1) [OF vnode_kept(1) [OF ok _ order_refl e] h3(6)] by (simp add: dir_ok_def)
    moreover have "dir_kept (mem ?h) (mem h3) d"
      using kept_trans(2) [OF vnode_kept(2) [OF ok d order_refl e] h3(7)] .
    ultimately have "child_added st L d xs nm name s type data ?n (st\<lparr>vheap := h3\<rparr>)"
      using n0 n(3) block(6) h3(2) names ty f [of node_name] f [of node_parent] f [of node_child] f [of node_fs_data] init_node_fields un
      by (auto simp: child_added_def vfs_dir_def)
    with create show ?thesis by blast
  qed
qed

lemma vfs_lookup_ok:
  assumes "vfs_dir st L d xs nm" and "c_string (mem (vheap st)) name s"
  shows "vfs_lookup d name st = Some (first_named nm s xs)"
proof -
  have "heap_ok (vheap st) L" "vnode L d" using assms(1) by (simp_all add: vfs_dir_def dir_ok_def)
  then have "d \<noteq> 0" by (rule vnode_nonzero)
  moreover have "named (mem (vheap st)) nm xs" using assms(1) by (auto simp: vfs_dir_def named_def string_at_def)
  ultimately show ?thesis
    using assms by (auto simp: vfs_lookup_def vfs_dir_def dir_ok_def intro!: lookup_loop_chain)
qed

lemma first_named_append:
  assumes "n \<notin> set xs"
  shows "first_named (nm(n := s)) s (xs @ [n]) = (if s \<in> nm ` set xs then first_named nm s xs else n)"
proof -
  have "find (\<lambda>x. (nm(n := s)) x = s) (xs @ [n]) = (case find (\<lambda>x. nm x = s) xs of None \<Rightarrow> Some n | Some x \<Rightarrow> Some x)"
    using assms by (induction xs) auto
  moreover have "find (\<lambda>x. nm x = s) xs = None \<longleftrightarrow> s \<notin> nm ` set xs" by (auto simp: find_None_iff)
  ultimately show ?thesis by (cases "find (\<lambda>x. nm x = s) xs") (simp_all add: first_named_def)
qed


lemma created_lookup:
  assumes "child_added st L d xs nm name s type data n st'" and "n \<noteq> 0"
  shows "vfs_lookup d name st' = Some (if s \<in> nm ` set xs then first_named nm s xs else n)"
proof -
  from assms obtain k where dir: "vfs_dir st' (insert (unat n, k) L) d (xs @ [n]) (nm(n := s))" and n: "n \<notin> set xs"
    and nm: "load64 (mem (vheap st')) (n + node_name) = name" by (auto simp: child_added_def)
  have "c_string (mem (vheap st')) name s" using dir nm by (auto simp: vfs_dir_def string_at_def)
  from vfs_lookup_ok [OF dir this] first_named_append [OF n] show ?thesis by simp
qed

lemma vfs_init_ok:
  assumes "heap_ok (vheap st) {}" and "heap_room (vheap st) (unat (align8 SIZEOF_VFS_NODE) + HDR + 4000)"
  obtains k st' where "vfs_init root_str st = Some (0, st')" and "vfs_dir st' {(unat (vroot st'), k)} (vroot st') [] nm"
    and "evolves (vheap st) {} (vheap st') {(unat (vroot st'), k)}" and "heap_room (vheap st') 4000"
proof -
  have sz: "0 < unat SIZEOF_VFS_NODE" "unat SIZEOF_VFS_NODE + 7 < 2 ^ 64" "SIZEOF_VFS_NODE \<noteq> 0" by simp_all
  from assms(1) sz(1,2) show thesis
  proof (cases rule: evolves_alloc)
    case null
    then show thesis using kmalloc_room [OF assms(2) _ sz(3) null] by simp
  next
    case (block p k h)
    let ?r = "of_nat p :: u64"
    let ?h = "init_node ?r root_str VFS_NODE_DIR 0 0 h"
    have un: "unat ?r = p" and n0: "?r \<noteq> 0" using block(2,3) by (simp_all add: unat_of_nat64 of_nat_lt64)
    have e: "evolves h {} ?h {(p, k)}"
      using evolves_init_node [OF evolves_ok [OF block(5)], of p k] block(4) by simp
    have "heap_room h 4000" using kmalloc_room [OF assms(2) _ sz(3) block(1)] by simp
    then have room: "heap_room ?h 4000" using init_node_room [OF evolves_ok [OF block(5)], of p k] block(4) by simp
    have "vfs_init root_str st = Some (0, st\<lparr>vheap := ?h, vroot := ?r\<rparr>)"
      using block(1) n0 by (simp add: vfs_init_def Let_def)
    moreover have "vfs_dir (st\<lparr>vheap := ?h, vroot := ?r\<rparr>) {(p, k)} ?r [] nm"
      using evolves_ok [OF e] un block(4) init_node_fields(2,4) by (auto simp: vfs_dir_def dir_ok_def vnode_def)
    ultimately show thesis using evolves_step [OF block(5) e] un room
      by (intro that [of "st\<lparr>vheap := ?h, vroot := ?r\<rparr>" k]) simp_all
  qed
qed

section \<open>Properties\<close>

text \<open>C30: \<open>vfs_create_dir\<close> and \<open>vfs_create_file\<close> implement adding to the end of a directory's list.  They return null, and
  change nothing, only when the heap has no free block for a node; otherwise the directory has exactly the
  new node more, with its name, type, parent and data, every field of the directory but its first child and
  every field of the other children but the link to the next is as before, and \<open>vfs_lookup\<close> of the name
  returns the new node unless an older child has the same name.\<close>

theorem vfs_create_refines:
  assumes "vfs_dir st L d xs nm" and "string_at (vheap st) name s"
  shows "(\<exists>n st'. vfs_create_dir d name st = Some (n, st') \<and> child_added st L d xs nm name s VFS_NODE_DIR 0 n st' \<and>
      (n \<noteq> 0 \<longrightarrow> vfs_lookup d name st' = Some (if s \<in> nm ` set xs then first_named nm s xs else n))) \<and>
    (\<exists>n st'. vfs_create_file d name data st = Some (n, st') \<and> child_added st L d xs nm name s VFS_NODE_FILE data n st' \<and>
      (n \<noteq> 0 \<longrightarrow> vfs_lookup d name st' = Some (if s \<in> nm ` set xs then first_named nm s xs else n)))"
  unfolding vfs_create_dir_def vfs_create_file_def
  using vfs_create_ok [OF assms, of "''vfs_create_dir''" VFS_NODE_DIR 0]
    vfs_create_ok [OF assms, of "''vfs_create_file''" VFS_NODE_FILE data] created_lookup by blast

theorem vfs_create_refines_witness:
  "\<exists>root st n st'. vfs_init 0 \<lparr>vheap = small_heap, vroot = 0, vlog = []\<rparr> = Some (0, st) \<and> root = vroot st \<and>
     vfs_create_dir root 0 st = Some (n, st') \<and> n \<noteq> 0 \<and> vfs_lookup root 0 st' = Some n"
proof -
  let ?st = "\<lparr>vheap = small_heap, vroot = 0, vlog = []\<rparr>"
  have sz: "unat (align8 SIZEOF_VFS_NODE) = 48" by (simp add: unat_align8)
  have "heap_room small_heap 4072"
    using small_heap_rep by (auto simp: heap_room_def has_room_def intro: exI [of _ "[(4072, True)]"])
  then have "heap_ok (vheap ?st) {}" "heap_room (vheap ?st) (unat (align8 SIZEOF_VFS_NODE) + HDR + 4000)"
    using small_heap_ok by (simp_all add: sz)
  then obtain k st where st: "vfs_init 0 ?st = Some (0, st)" "vfs_dir st {(unat (vroot st), k)} (vroot st) [] (\<lambda>_. [])"
    "evolves (vheap ?st) {} (vheap st) {(unat (vroot st), k)}" "heap_room (vheap st) 4000" by (rule vfs_init_ok)
  have "heap_fits (vheap st) SIZEOF_VFS_NODE"
    using heap_room_mono [OF st(4)] sz by (simp add: heap_room_fits)
  moreover have "mem small_heap 0 = 0" by (simp add: small_heap_def kmalloc_init_def wr_hdr_def write_bytes_frame region_def)
  then have str: "string_at (vheap ?st) 0 []" by (simp add: string_at_def heap_area_def region_def unat_eq_zero)
  obtain n st' where "vfs_create_dir (vroot st) 0 st = Some (n, st')"
    "child_added st {(unat (vroot st), k)} (vroot st) [] (\<lambda>_. []) 0 [] VFS_NODE_DIR 0 n st'"
    "n \<noteq> 0 \<longrightarrow> vfs_lookup (vroot st) 0 st' = Some n"
    using vfs_create_refines [OF st(2) evolves_string [OF str st(3)], THEN conjunct1] by auto
  ultimately have "vfs_create_dir (vroot st) 0 st = Some (n, st') \<and> n \<noteq> 0 \<and> vfs_lookup (vroot st) 0 st' = Some n"
    by (auto simp: child_added_def)
  with st(1) show ?thesis by blast
qed

end
