(* ===== verification/Kernel.thy ===== *)
theory Kernel
  imports Serial Dtb Vm_Maps Sched Fs_Names Vfs
begin

text \<open>
  The start of the kernel in \<^verbatim>\<open>src/kern/kernel.c\<close>: \<open>kernel_main\<close> composed of the operations of the
  components.  The machine has one memory, one core and one set of device registers; every component
  keeps its static variables in its own record, and a call runs the component on the shared parts and
  puts them back.  The file system keeps its bitmaps as values, so what its calls leave in the memory
  is the heap's own bytes inside the heap and the driver's outside of it.
\<close>

section \<open>State\<close>

record 'h kernel =
  k_heap :: kheap
  k_hw :: 'h
  k_cpu :: cpu
  k_vm :: vm_state
  k_dtb :: dtb_state
  k_con :: "'h console"
  k_fs :: "'h bdev fs_state"
  k_vfs :: vfs_state
  k_sched :: sched_state

text \<open>The addresses the linker chooses: page tables, vectors, stack buffers, functions and string literals;
  \<open>s_message\<close> for the messages the components print.\<close>

record kernel_image =
  l1_table :: u64
  l2_table :: u64
  exception_vectors :: u64
  print_buffer :: u64
  fs_buffer :: u64
  fs_junk :: "u8 list"
  task_a :: u64
  task_b :: u64
  yield_return :: u64
  s_panic :: u64
  s_newline :: u64
  s_chosen :: u64
  s_framebuffer :: u64
  s_no_framebuffer :: u64
  s_astral :: u64
  s_memory :: u64
  s_reg :: u64
  s_root :: u64
  s_vfs_failed :: u64
  s_no_root :: u64
  s_bin :: u64
  s_etc :: u64
  s_dev :: u64
  s_vfs_ready :: u64
  s_task_a :: u64
  s_task_b :: u64
  s_exception :: u64
  s_message :: "string \<Rightarrow> u64"

abbreviation kmem :: "'h kernel \<Rightarrow> mem" where "kmem k \<equiv> mem (k_heap k)"

section \<open>Calls of the components\<close>

definition on_console :: "('h console \<Rightarrow> 'h console option) \<Rightarrow> 'h kernel \<Rightarrow> 'h kernel option" where
  "on_console f k = do {
     c \<leftarrow> f ((k_con k)\<lparr>con_mem := kmem k, con_hw := k_hw k\<rparr>);
     Some (k\<lparr>k_con := c, k_hw := con_hw c, k_heap := (k_heap k)\<lparr>mem := con_mem c\<rparr>\<rparr>)
   }"

definition on_fs :: "('h bdev fs_state \<Rightarrow> 'h bdev fs_state option) \<Rightarrow> 'h kernel \<Rightarrow> 'h kernel option" where
  "on_fs f k = do {
     s \<leftarrow> f ((k_fs k)\<lparr>disk := (disk (k_fs k))\<lparr>bd_mem := kmem k, hw_state := k_hw k\<rparr>, fs_heap := k_heap k\<rparr>);
     let h = fs_heap s;
     let m = (\<lambda>x. if x \<in> region (heap_start_ptr h) (unat (total_heap_size h)) then mem h x else bd_mem (disk s) x);
     Some (k\<lparr>k_fs := s, k_hw := hw_state (disk s), k_heap := h\<lparr>mem := m\<rparr>\<rparr>)
   }"

definition print :: "'h hw \<Rightarrow> kernel_image \<Rightarrow> u64 \<Rightarrow> u64 list \<Rightarrow> 'h kernel \<Rightarrow> 'h kernel option" where
  "print hw im fmt args k = on_console (kprintf hw (print_buffer im) fmt args) k"

text \<open>The mapping table, the scheduler and the virtual file system record the messages they print; after a
  call its messages are sent to the console.  A call prints only just before it returns, or, when there is no
  page table for a new task, before it releases blocks of the heap.\<close>

primrec print_messages :: "'h hw \<Rightarrow> kernel_image \<Rightarrow> kmsg list \<Rightarrow> 'h kernel \<Rightarrow> 'h kernel option" where
  "print_messages hw im [] k = Some k"
| "print_messages hw im (msg # msgs) k = do {
     k \<leftarrow> print hw im (s_message im (fst msg)) (snd msg) k;
     print_messages hw im msgs k
   }"

definition on_vm :: "'h hw \<Rightarrow> kernel_image \<Rightarrow> (vm_state \<Rightarrow> vm_state) \<Rightarrow> 'h kernel \<Rightarrow> 'h kernel option" where
  "on_vm hw im f k =
     (let v = f (k_vm k);
          flushes = tlb_flushes v - tlb_flushes (k_vm k)
      in print_messages hw im (drop (length (vm_log (k_vm k))) (vm_log v))
           (k\<lparr>k_vm := v, k_cpu := (flush_tlb ^^ flushes) (k_cpu k)\<rparr>))"

definition on_sched :: "'h hw \<Rightarrow> kernel_image \<Rightarrow> (sched_state \<Rightarrow> sched_state option) \<Rightarrow> 'h kernel \<Rightarrow> 'h kernel option" where
  "on_sched hw im f k = do {
     s \<leftarrow> f ((k_sched k)\<lparr>core := k_cpu k, heap := k_heap k\<rparr>);
     print_messages hw im (drop (length (console (k_cpu k))) (console (core s)))
       (k\<lparr>k_sched := s, k_cpu := core s, k_heap := heap s\<rparr>)
   }"

definition on_vfs :: "'h hw \<Rightarrow> kernel_image \<Rightarrow> (vfs_state \<Rightarrow> ('a \<times> vfs_state) option) \<Rightarrow> 'h kernel \<Rightarrow> ('a \<times> 'h kernel) option" where
  "on_vfs hw im f k = do {
     (r, v) \<leftarrow> f ((k_vfs k)\<lparr>vheap := k_heap k\<rparr>);
     k \<leftarrow> print_messages hw im (drop (length (vlog (k_vfs k))) (vlog v)) (k\<lparr>k_vfs := v, k_heap := vheap v\<rparr>);
     Some (r, k)
   }"

section \<open>\<^verbatim>\<open>kernel.c\<close>\<close>

text \<open>\<open>crash_core_panic\<close>, with its output on the console.\<close>

definition panic :: "'h hw \<Rightarrow> kernel_image \<Rightarrow> u64 \<Rightarrow> u64 list \<Rightarrow> 'h kernel \<Rightarrow> 'h kernel control option" where
  "panic hw im fmt args k = do {
     k \<leftarrow> print hw im (s_panic im) [] k;
     k \<leftarrow> on_console (kprintf_varg hw (print_buffer im) fmt args) k;
     k \<leftarrow> print hw im (s_newline im) [] k;
     Some (case cpu_halt (k_cpu k) of Returns c \<Rightarrow> Stop (k\<lparr>k_cpu := c\<rparr>) | Parked c \<Rightarrow> Stop (k\<lparr>k_cpu := c\<rparr>))
   }"

text \<open>One round of the loop of \<open>dummy_task_func_a\<close> and of \<open>dummy_task_func_b\<close>, with the value of \<open>counter\<close>.\<close>

definition yield :: "kernel_image \<Rightarrow> 'h kernel \<Rightarrow> 'h kernel control option" where
  "yield im k = do {
     r \<leftarrow> sched_yield (yield_return im) ((k_sched k)\<lparr>core := k_cpu k, heap := k_heap k\<rparr>);
     let put = (\<lambda>s. k\<lparr>k_sched := s, k_cpu := core s, k_heap := heap s\<rparr>);
     Some (case r of Back s \<Rightarrow> Back (put s) | Stop s \<Rightarrow> Stop (put s) | Switch s \<Rightarrow> Switch (put s))
   }"

definition dummy_task_func_a :: "'h hw \<Rightarrow> kernel_image \<Rightarrow> u64 \<Rightarrow> 'h kernel \<Rightarrow> 'h kernel control option" where
  "dummy_task_func_a hw im counter k = do { k \<leftarrow> print hw im (s_task_a im) [counter] k; yield im k }"

definition dummy_task_func_b :: "'h hw \<Rightarrow> kernel_image \<Rightarrow> u64 \<Rightarrow> 'h kernel \<Rightarrow> 'h kernel control option" where
  "dummy_task_func_b hw im counter k = do { k \<leftarrow> print hw im (s_task_b im) [counter] k; yield im k }"

text \<open>From the entry to the device tree: UART, core check, vectors, mappings and page tables.\<close>

definition kernel_entry :: "'h hw \<Rightarrow> kernel_image \<Rightarrow> u64 \<Rightarrow> 'h kernel \<Rightarrow> 'h kernel control option" where
  "kernel_entry hw im dtb_addr k = do {
     k \<leftarrow> on_console (\<lambda>c. Some (uart_init hw c)) k;
     case check_and_halt_core (k_cpu k) of
       Parked c \<Rightarrow> Some (Stop (k\<lparr>k_cpu := c\<rparr>))
     | Returns c \<Rightarrow> do {
         r \<leftarrow> cpu_set_state (\<lambda>_. CPU_STATE_RUNNING) CPU_STATE_RUNNING c;
         let c = (case r of Returns c \<Rightarrow> c | Parked c \<Rightarrow> c);
         let c = msr VBAR_EL1 (exception_vectors im) c;
         k \<leftarrow> on_vm hw im vm_init (k\<lparr>k_cpu := c\<rparr>);
         (c, h) \<leftarrow> cpu_enable_mmu (l1_table im) (l2_table im) (k_cpu k) (k_heap k);
         Some (Back (k\<lparr>k_cpu := c, k_heap := h, k_dtb := dtb_init (mem h) dtb_addr (k_dtb k)\<rparr>))
       }
   }"

text \<open>\<open>for (int i = 0; i < (fb_height * fb_pitch) / 4; i++) fb[i] = 0;\<close>\<close>

primrec fb_clear :: "nat \<Rightarrow> mem \<Rightarrow> u64 \<Rightarrow> nat \<Rightarrow> mem" where
  "fb_clear 0 m fb i = m"
| "fb_clear (Suc n) m fb i = fb_clear n (store32 m (fb + 4 * of_nat i) 0) fb (Suc i)"

definition start_console :: "'h hw \<Rightarrow> kernel_image \<Rightarrow> u64 \<Rightarrow> 'h kernel \<Rightarrow> 'h kernel option" where
  "start_console hw im prop_val k =
     (let fb = ucast (be32 (kmem k) prop_val);
          fb_width = be32 (kmem k) (prop_val + 4);
          fb_height = be32 (kmem k) (prop_val + 8);
          fb_pitch = be32 (kmem k) (prop_val + 12);
          k = k\<lparr>k_con := kprintf_init fb fb_width fb_height fb_pitch (k_con k)\<rparr>;
          k = k\<lparr>k_heap := (k_heap k)\<lparr>mem := fb_clear (unat (fb_height * fb_pitch div 4)) (kmem k) fb 0\<rparr>\<rparr>
      in print hw im (s_astral im) [] k)"

definition start_heap :: "kernel_image \<Rightarrow> 'h kernel \<Rightarrow> 'h kernel option" where
  "start_heap im k = do {
     (rc, info) \<leftarrow> dtb_get_memory_info (kmem k) (s_memory im) (s_reg im) (k_dtb k);
     Some (case info of
         Some (mem_start, mem_size) \<Rightarrow> k\<lparr>k_heap := kmalloc_init (k_heap k) mem_start mem_size\<rparr>
       | None \<Rightarrow> k\<lparr>k_heap := kmalloc_init (k_heap k) 0x80000000 (256 * 1024 * 1024)\<rparr>)
   }"

definition start_files :: "'h hw \<Rightarrow> kernel_image \<Rightarrow> 'h kernel \<Rightarrow> 'h kernel option" where
  "start_files hw im k = do {
     let k = k\<lparr>k_fs := (k_fs k)\<lparr>disk := set_active_block_device BLOCK_DEVICE_TYPE_UFS (disk (k_fs k))\<rparr>\<rparr>;
     k \<leftarrow> on_fs (fs_init (ufs_env hw (fs_buffer im) (fs_junk im))) k;
     (rc, k) \<leftarrow> on_vfs hw im (vfs_init (s_root im)) k;
     if rc \<noteq> 0 then print hw im (s_vfs_failed im) [] k
     else if vfs_get_root (k_vfs k) = 0 then print hw im (s_no_root im) [] k
     else do {
       let root_dir = vfs_get_root (k_vfs k);
       (n, k) \<leftarrow> on_vfs hw im (vfs_create_dir root_dir (s_bin im)) k;
       (n, k) \<leftarrow> on_vfs hw im (vfs_create_dir root_dir (s_etc im)) k;
       (n, k) \<leftarrow> on_vfs hw im (vfs_create_dir root_dir (s_dev im)) k;
       print hw im (s_vfs_ready im) [] k
     }
   }"

text \<open>The tasks, the timer and the scheduler, and the loop that halts the core if the scheduler returns.\<close>

definition start_tasks :: "'h hw \<Rightarrow> kernel_image \<Rightarrow> 'h kernel \<Rightarrow> 'h kernel control option" where
  "start_tasks hw im k = do {
     k \<leftarrow> on_sched hw im (\<lambda>s. Some (sched_init s)) k;
     k \<leftarrow> on_sched hw im (sched_create_task (l1_table im) (task_a im) 4096) k;
     k \<leftarrow> on_sched hw im (sched_create_task (l1_table im) (task_b im) 4096) k;
     k \<leftarrow> on_sched hw im (\<lambda>s. Some (timer_enable_interrupt (timer_init s))) k;
     let k = k\<lparr>k_cpu := cpu_enable_interrupts (k_cpu k)\<rparr>;
     r \<leftarrow> sched_schedule (yield_return im) ((k_sched k)\<lparr>core := k_cpu k, heap := k_heap k\<rparr>);
     let put = (\<lambda>s. k\<lparr>k_sched := s, k_cpu := core s, k_heap := heap s\<rparr>);
     Some (case r of
         Switch s \<Rightarrow> Switch (put s)
       | Stop s \<Rightarrow> Stop (put s)
       | Back s \<Rightarrow> (case cpu_halt (core s) of
           Returns c \<Rightarrow> Stop (put (s\<lparr>core := c\<rparr>)) | Parked c \<Rightarrow> Stop (put (s\<lparr>core := c\<rparr>))))
   }"

definition kernel_main :: "'h hw \<Rightarrow> kernel_image \<Rightarrow> u64 \<Rightarrow> 'h kernel \<Rightarrow> 'h kernel control option" where
  "kernel_main hw im dtb_addr k = do {
     r \<leftarrow> kernel_entry hw im dtb_addr k;
     case r of
       Back k \<Rightarrow> do {
         (prop_val, len) \<leftarrow> dtb_get_property (kmem k) (s_chosen im) (s_framebuffer im) (k_dtb k);
         if prop_val \<noteq> 0 \<and> (case len of Some n \<Rightarrow> n \<ge> 16 | None \<Rightarrow> False) then do {
           k \<leftarrow> start_console hw im prop_val k;
           k \<leftarrow> start_heap im k;
           k \<leftarrow> start_files hw im k;
           start_tasks hw im k
         }
         else panic hw im (s_no_framebuffer im) [] k
       }
     | Stop k \<Rightarrow> Some (Stop k)
     | Switch k \<Rightarrow> Some (Switch k)
   }"

definition exception_handler :: "'h hw \<Rightarrow> kernel_image \<Rightarrow> u64 \<Rightarrow> u32 \<Rightarrow> 'h kernel \<Rightarrow> 'h kernel control option" where
  "exception_handler hw im sp type k = panic hw im (s_exception im) [ucast type, sp] k"

section \<open>Memory the start-up code writes\<close>

text \<open>\<open>outside W P m\<close>: the predicate holds of the memory whatever the bytes in \<open>W\<close> become.\<close>

definition outside :: "u64 set \<Rightarrow> (mem \<Rightarrow> bool) \<Rightarrow> mem \<Rightarrow> bool" where
  "outside W P m \<longleftrightarrow> (\<forall>m'. (\<forall>x. x \<notin> W \<longrightarrow> m' x = m x) \<longrightarrow> P m')"

lemma outsideD: "outside W P m \<Longrightarrow> (\<And>x. x \<notin> W \<Longrightarrow> m' x = m x) \<Longrightarrow> P m'"
  by (auto simp: outside_def)

text \<open>The two page tables, and the page at address 0 where the table of the framebuffer is built.\<close>

definition table_area :: "kernel_image \<Rightarrow> u64 set" where
  "table_area im = region (l1_table im) 4096 \<union> region (l2_table im) 4096 \<union> region 0 4096"

lemma boot_mem_frame:
  assumes "x \<notin> region l1 4096 \<union> region l2 4096 \<union> region 0 4096"
  shows "boot_mem l1 l2 m x = m x"
proof -
  let ?m1 = "store64 (memset (memset m l1 0 4096) l2 0 4096) (l1 + 8 * of_nat 0) (l2 OR 3)"
  let ?m2 = "l2_fill 512 ?m1 l2 0"
  have word: "x \<notin> region (l1 + 8 * of_nat i) 8" if "i < 512" for i
    using that assms region_index [of i 4096 l1] by auto
  have "boot_mem l1 l2 m x = store64 (memset ?m2 0 0 4096) (l1 + 8 * of_nat 1) 3 x"
    unfolding boot_mem_def using assms by (intro store_fold_frame) auto
  also have "\<dots> = memset ?m2 0 0 4096 x" using word [of 1] by (intro store64_frame) simp
  also have "\<dots> = ?m2 x" using assms by (intro memset_table(1)) simp
  also have "\<dots> = ?m1 x" using assms by (intro l2_fill_frame) simp_all
  also have "\<dots> = memset (memset m l1 0 4096) l2 0 4096 x" using word [of 0] by (intro store64_frame) simp
  also have "\<dots> = memset m l1 0 4096 x" using assms by (intro memset_table(1)) simp
  also have "\<dots> = m x" using assms by (intro memset_table(1)) simp
  finally show ?thesis .
qed

section \<open>Output\<close>

definition ascii :: "string \<Rightarrow> u8 list" where
  "ascii s = map of_char s"

text \<open>A format string without conversions that ends before the line buffer is full.\<close>

definition plain_text :: "u8 list \<Rightarrow> bool" where
  "plain_text s \<longleftrightarrow> 0x25 \<notin> set s \<and> 0 \<notin> set s \<and> length s \<le> 255"

lemma expand_no_conversion: "0x25 \<notin> set s \<Longrightarrow> expand strs s ap = Some s"
proof (induction s)
  case (Cons c s)
  then show ?case using expand_plain [of c strs s ap] by (cases s) auto
qed simp

lemma readable_frame:
  "readable m str S a s \<Longrightarrow> (\<And>x. x \<notin> region str S \<Longrightarrow> m' x = m x) \<Longrightarrow> readable m' str S a s"
  unfolding readable_def using c_string_cong [of m a s m'] by auto

context uart_hardware
begin

text \<open>What a printing call keeps: everything but the line buffer, the console and the UART.\<close>

lemma print_uart:
  assumes "kprintf_framebuffer (k_con k) = 0" and "plain_text s" and "readable (kmem k) (print_buffer im) 256 fmt s"
    and "enabled (k_hw k)"
  shows "\<exists>m' h' c'. print hw im fmt [] k =
      Some (k\<lparr>k_con := c', k_hw := h', k_heap := (k_heap k)\<lparr>mem := m'\<rparr>\<rparr>) \<and>
    enabled h' \<and> sent h' = sent (k_hw k) @ crlf s \<and> kprintf_framebuffer c' = 0 \<and>
    (\<forall>x. x \<notin> region (print_buffer im) 256 \<longrightarrow> m' x = kmem k x)"
proof -
  let ?c = "(k_con k)\<lparr>con_mem := kmem k, con_hw := k_hw k\<rparr>"
  have e: "expand (\<lambda>_. None) s [] = Some s" using assms(2) by (intro expand_no_conversion) (simp add: plain_text_def)
  have s: "take 255 s = s" "0 \<notin> set s" using assms(2) by (simp_all add: plain_text_def)
  from kprintf_uart [of ?c "\<lambda>_. None" s "[]" s "print_buffer im" fmt] assms(1,3,4) e s
  obtain m' h' where "kprintf hw (print_buffer im) fmt [] ?c = Some (?c\<lparr>con_mem := m', con_hw := h'\<rparr>)"
    "enabled h'" "sent h' = sent (k_hw k) @ crlf s" "\<forall>x. x \<notin> region (print_buffer im) 256 \<longrightarrow> m' x = kmem k x" by auto
  then show ?thesis using assms(1)
    by (intro exI [of _ m'] exI [of _ h'] exI [of _ "?c\<lparr>con_mem := m', con_hw := h'\<rparr>"]) (simp add: print_def on_console_def)
qed

text \<open>A panic with a plain message sends the three texts and halts the core.\<close>

lemma panic_uart:
  assumes fb: "kprintf_framebuffer (k_con k) = 0" and on: "enabled (k_hw k)" and core: "cpu_get_core_id (k_cpu k) < 8"
    and s: "plain_text p" "plain_text s" "plain_text n"
    and r: "readable (kmem k) (print_buffer im) 256 (s_panic im) p" "readable (kmem k) (print_buffer im) 256 fmt s"
      "readable (kmem k) (print_buffer im) 256 (s_newline im) n"
  shows "\<exists>m' h' c'. panic hw im fmt [] k =
      Some (Stop (k\<lparr>k_con := c', k_hw := h', k_heap := (k_heap k)\<lparr>mem := m'\<rparr>,
        k_cpu := cpu_disable_interrupts ((k_cpu k)\<lparr>cpu_states :=
          (cpu_states (k_cpu k))[unat (cpu_get_core_id (k_cpu k)) := CPU_STATE_HALTED]\<rparr>)\<rparr>)) \<and>
    sent h' = sent (k_hw k) @ crlf (p @ s @ n)"
proof -
  let ?k = "\<lambda>c h m. k\<lparr>k_con := c, k_hw := h, k_heap := (k_heap k)\<lparr>mem := m\<rparr>\<rparr>"
  have print': "print hw im f [] k = on_console (kprintf_varg hw (print_buffer im) f []) k" for f and k :: "'h kernel"
    by (simp add: print_def kprintf_def [abs_def])
  obtain m1 h1 c1 where 1: "print hw im (s_panic im) [] k = Some (?k c1 h1 m1)" "enabled h1" "sent h1 = sent (k_hw k) @ crlf p"
    "kprintf_framebuffer c1 = 0" "\<forall>x. x \<notin> region (print_buffer im) 256 \<longrightarrow> m1 x = kmem k x"
    using print_uart [OF fb s(1) r(1) on] by blast
  have "readable m1 (print_buffer im) 256 fmt s" using readable_frame [OF r(2)] 1(5) by simp
  then obtain m2 h2 c2 where 2: "print hw im fmt [] (?k c1 h1 m1) = Some (?k c2 h2 m2)" "enabled h2" "sent h2 = sent h1 @ crlf s"
    "kprintf_framebuffer c2 = 0" "\<forall>x. x \<notin> region (print_buffer im) 256 \<longrightarrow> m2 x = m1 x"
    using print_uart [of "?k c1 h1 m1" s im fmt] 1(2,4) s(2) by auto
  have "readable m2 (print_buffer im) 256 (s_newline im) n" using readable_frame [OF r(3)] 1(5) 2(5) by simp
  then obtain m3 h3 c3 where 3: "print hw im (s_newline im) [] (?k c2 h2 m2) = Some (?k c3 h3 m3)" "sent h3 = sent h2 @ crlf n"
    using print_uart [of "?k c2 h2 m2" n im "s_newline im"] 2(2,4) s(3) by auto
  have "panic hw im fmt [] k = Some (Stop ((?k c3 h3 m3)\<lparr>k_cpu := cpu_disable_interrupts ((k_cpu k)\<lparr>cpu_states :=
          (cpu_states (k_cpu k))[unat (cpu_get_core_id (k_cpu k)) := CPU_STATE_HALTED]\<rparr>)\<rparr>))"
    using 1(1) 2(1) 3(1) core by (simp add: panic_def print' cpu_halt_eq not_le [symmetric])
  moreover have "sent h3 = sent (k_hw k) @ crlf (p @ s @ n)" using 1(3) 2(3) 3(2) by (simp add: crlf_def)
  ultimately show ?thesis by auto
qed

end


section \<open>Starting\<close>

text \<open>The string literals on the way to the panic.\<close>

definition literals :: "kernel_image \<Rightarrow> mem \<Rightarrow> bool" where
  "literals im m \<longleftrightarrow> c_text m (s_chosen im) (ascii ''/chosen'') \<and> c_string m (s_framebuffer im) (ascii ''framebuffer'') \<and>
     readable m (print_buffer im) 256 (s_panic im) (ascii ''kernel panic: '') \<and>
     readable m (print_buffer im) 256 (s_no_framebuffer im) (ascii ''framebuffer info not found in dtb!'' @ [10]) \<and>
     readable m (print_buffer im) 256 (s_newline im) [10]"

text \<open>The state at the entry: static variables zero, and a device tree and the literals away from the areas the
  page tables are built in.\<close>

definition cold_start :: "kernel_image \<Rightarrow> u64 \<Rightarrow> dtree \<Rightarrow> 'h kernel \<Rightarrow> bool" where
  "cold_start im a t k \<longleftrightarrow> heap_start_ptr (k_heap k) = 0 \<and> kprintf_framebuffer (k_con k) = 0 \<and>
     length (cpu_states (k_cpu k)) = 8 \<and> length (vm_map_entries (k_vm k)) = MAX_VM_MAP_ENTRIES \<and> tables_apart (l1_table im) (l2_table im) \<and>
     outside (table_area im) (\<lambda>m. tree_at m a t \<and> literals im m) (kmem k)"

lemma on_vm_init:
  assumes "length (vm_map_entries (k_vm k)) = MAX_VM_MAP_ENTRIES"
  shows "on_vm hw im vm_init k = Some (k\<lparr>k_vm := vm_init (k_vm k), k_cpu := flush_tlb (k_cpu k)\<rparr>)"
  using vm_init_quiet [OF assms] by (simp add: on_vm_def)

lemma panic_texts:
  "plain_text (ascii ''kernel panic: '')" "plain_text (ascii ''framebuffer info not found in dtb!'' @ [10])" "plain_text [10]"
  "ascii ''/chosen'' = 0x2F # ascii ''chosen''" "ascii ''chosen'' \<noteq> []"
  by (simp_all add: plain_text_def ascii_def of_char_def)

context uart_hardware
begin

lemma kernel_entry_master:
  assumes "cold_start im a t k" and "cpu_get_core_id (k_cpu k) = 0"
  shows "\<exists>k'. kernel_entry hw im a k = Some (Back k') \<and> enabled (k_hw k') \<and> sent (k_hw k') = sent (k_hw k) \<and>
    cpu_get_core_id (k_cpu k') = 0 \<and> length (cpu_states (k_cpu k')) = 8 \<and> kprintf_framebuffer (k_con k') = 0 \<and>
    tree_at (kmem k') a t \<and> literals im (kmem k') \<and> k_dtb k' = dtb_init (kmem k') a (k_dtb k) \<and>
    heap_start_ptr (k_heap k') = 0 \<and> k_sched k' = k_sched k \<and> k_fs k' = k_fs k \<and> k_vfs k' = k_vfs k"
proof -
  let ?c = "(k_con k)\<lparr>con_mem := kmem k, con_hw := k_hw k\<rparr>"
  let ?b = "boot_mem (l1_table im) (l2_table im) (kmem k)"
  have k: "tables_apart (l1_table im) (l2_table im)" "heap_start_ptr (k_heap k) = 0" "kprintf_framebuffer (k_con k) = 0"
    using assms(1) by (simp_all add: cold_start_def)
  have "tree_at ?b a t \<and> literals im ?b"
    using assms(1) boot_mem_frame [of _ "l1_table im" "l2_table im" "kmem k"]
    by (intro outsideD [where m = "kmem k" and W = "table_area im" and P = "\<lambda>m. tree_at m a t \<and> literals im m"])
      (simp_all add: cold_start_def table_area_def)
  moreover from uart_init_ok [of ?c] obtain h where
    h: "uart_init hw ?c = ?c\<lparr>con_hw := h\<rparr>" "enabled h" "sent h = sent (k_hw k)" by auto
  moreover have "check_and_halt_core (k_cpu k) = Returns (k_cpu k)" using assms(2) by (simp add: check_and_halt_core_def)
  ultimately show ?thesis using assms k cpu_enable_mmu_boot [OF k(1), of "k_heap k"]
    by (simp add: kernel_entry_def on_console_def on_vm_init flush_tlb_def cpu_set_state_def msr_def sys_op_def cold_start_def Let_def
      cpu_get_core_id_def mrs_def)
qed

lemma kernel_main_master:
  assumes "cold_start im a t k" and "cpu_get_core_id (k_cpu k) = 0"
  shows "\<exists>k'. kernel_main hw im a k = Some (Stop k') \<and>
    sent (k_hw k') = sent (k_hw k) @ crlf (ascii ''kernel panic: framebuffer info not found in dtb!'' @ [10, 10]) \<and>
    cpu_states (k_cpu k') ! 0 = CPU_STATE_HALTED \<and> irq_masked (k_cpu k') \<and>
    heap_start_ptr (k_heap k') = 0 \<and> k_sched k' = k_sched k \<and> k_fs k' = k_fs k \<and> k_vfs k' = k_vfs k"
proof -
  from kernel_entry_master [OF assms] obtain k1 where
    k1: "kernel_entry hw im a k = Some (Back k1)" "enabled (k_hw k1)" "sent (k_hw k1) = sent (k_hw k)" "cpu_get_core_id (k_cpu k1) = 0"
    "length (cpu_states (k_cpu k1)) = 8" "kprintf_framebuffer (k_con k1) = 0" "tree_at (kmem k1) a t"
    "literals im (kmem k1)" "k_dtb k1 = dtb_init (kmem k1) a (k_dtb k)" "heap_start_ptr (k_heap k1) = 0"
    "k_sched k1 = k_sched k" "k_fs k1 = k_fs k" "k_vfs k1 = k_vfs k" by blast
  have "dtb_get_property (kmem k1) (s_chosen im) (s_framebuffer im) (k_dtb k1) = Some (0, None)"
    using get_property_tree [OF k1(7), of "s_chosen im" "ascii ''chosen''" "s_framebuffer im" "ascii ''framebuffer''" "k_dtb k"]
      k1(8,9) by (simp add: literals_def panic_texts(4,5) returns_prop_def)
  then have main: "kernel_main hw im a k = panic hw im (s_no_framebuffer im) [] k1" using k1(1) by (simp add: kernel_main_def)
  have core: "cpu_get_core_id (k_cpu k1) < 8" using k1(4) by simp
  obtain m' h' c' where p: "panic hw im (s_no_framebuffer im) [] k1 =
      Some (Stop (k1\<lparr>k_con := c', k_hw := h', k_heap := (k_heap k1)\<lparr>mem := m'\<rparr>,
        k_cpu := cpu_disable_interrupts ((k_cpu k1)\<lparr>cpu_states :=
          (cpu_states (k_cpu k1))[unat (cpu_get_core_id (k_cpu k1)) := CPU_STATE_HALTED]\<rparr>)\<rparr>))"
    "sent h' = sent (k_hw k1) @ crlf (ascii ''kernel panic: '' @ (ascii ''framebuffer info not found in dtb!'' @ [10]) @ [10])"
    using panic_uart [OF k1(6,2) core panic_texts(1-3)] k1(8) unfolding literals_def by blast
  then show ?thesis unfolding main using k1
    by (simp add: cpu_disable_interrupts_def sys_op_def ascii_def)
qed

lemma kernel_main_other:
  assumes "0 < cpu_get_core_id (k_cpu k)" and "cpu_get_core_id (k_cpu k) < 8"
  shows "\<exists>k'. kernel_main hw im a k = Some (Stop k') \<and> sent (k_hw k') = sent (k_hw k) \<and> k_heap k' = k_heap k \<and>
    cpu_states (k_cpu k') = (cpu_states (k_cpu k))[unat (cpu_get_core_id (k_cpu k)) := CPU_STATE_HALTED] \<and>
    irq_masked (k_cpu k')"
proof -
  let ?c = "(k_con k)\<lparr>con_mem := kmem k, con_hw := k_hw k\<rparr>"
  from uart_init_ok [of ?c] obtain h where
    h: "uart_init hw ?c = ?c\<lparr>con_hw := h\<rparr>" "enabled h" "sent h = sent (k_hw k)" by auto
  have "\<not> 8 \<le> cpu_get_core_id (k_cpu k)" "cpu_get_core_id (k_cpu k) \<noteq> 0" using assms by auto
  then show ?thesis using h
    by (simp add: kernel_main_def kernel_entry_def on_console_def check_and_halt_core_def cpu_halt_eq
      cpu_disable_interrupts_def sys_op_def)
qed

end


end
