(* ===== verification/Boot.thy ===== *)
theory Boot
  imports Kernel
begin

text \<open>
  The assembly around the C code: the entry of \<^verbatim>\<open>src/kern/boot/bootloader.s\<close> with the symbols of
  \<^verbatim>\<open>src/kern/boot/linker.ld\<close>, and the exception entries of \<^verbatim>\<open>src/kern/cpu/exceptions.s\<close>, instruction by
  instruction as in \<^verbatim>\<open>Cpu.thy\<close>.
\<close>

section \<open>\<^verbatim>\<open>bootloader.s\<close>\<close>

text \<open>The symbols the entry code uses; \<open>__bss_size\<close> is loaded into a 32-bit register.\<close>

record boot_symbols =
  sym_start :: u64
  bss_start :: u64
  bss_size :: u32
  dtb_ptr :: u64

text \<open>The linker script puts the stack of 16 KB on the next page after the bss section, and \<open>_dtb_ptr\<close> after it.\<close>

definition dtb_slot :: "nat \<Rightarrow> nat \<Rightarrow> nat" where
  "dtb_slot b n = (let bss_end = b + n; stack_start = (bss_end + 4095) div 4096 * 4096;
     stack_end = stack_start + 0x4000 in (stack_end + 4095) div 4096 * 4096)"

text \<open>\<open>str xzr, [x1], #8\<close>, \<open>sub w2, w2, #1\<close>, \<open>cbnz w2\<close>, for the value of \<open>w2\<close>.\<close>

primrec clear_bss :: "nat \<Rightarrow> u64 \<Rightarrow> mem \<Rightarrow> mem" where
  "clear_bss 0 x1 m = m"
| "clear_bss (Suc w2) x1 m = clear_bss w2 (x1 + 8) (store64 m x1 0)"

text \<open>\<open>_start\<close>: every core but the first waits in \<open>halt\<close>, where the first one ends when \<open>kernel_main\<close> returns.\<close>

definition start :: "'h hw \<Rightarrow> kernel_image \<Rightarrow> boot_symbols \<Rightarrow> 'h kernel \<Rightarrow> 'h kernel control option" where
  "start hw im b k =
     (let c = (k_cpu k)\<lparr>xreg := (xreg (k_cpu k))(1 := mrs MPIDR_EL1 (k_cpu k) AND 0xff)\<rparr>
      in if xreg c 1 \<noteq> 0 then Some (Stop (k\<lparr>k_cpu := c\<rparr>))
         else (let n = unat (bss_size b);
                   m = clear_bss n (bss_start b) (kmem k);
                   x0 = load64 m (dtb_ptr b);
                   c = c\<lparr>sp_reg := sym_start b, xreg := (xreg c)(0 := x0, 1 := bss_start b + 8 * of_nat n, 2 := 0)\<rparr>
               in do {
                 r \<leftarrow> kernel_main hw im x0 (k\<lparr>k_cpu := c, k_heap := (k_heap k)\<lparr>mem := m\<rparr>\<rparr>);
                 Some (case r of Back k \<Rightarrow> Stop k | _ \<Rightarrow> r)
               }))"

section \<open>\<^verbatim>\<open>exceptions.s\<close>\<close>

text \<open>\<open>stp xa, xb, [sp, #-16]!\<close>, \<open>ldp xa, xb, [sp], #16\<close> and \<open>ldp xa, xb, [sp, #-16]!\<close>; and the first two with \<open>xzr\<close> as the
  second register.\<close>

definition push :: "nat \<Rightarrow> nat \<Rightarrow> insn" where
  "push a b s = (let (c, m) = s; p = sp_reg c - 16
     in (c\<lparr>sp_reg := p\<rparr>, store64 (store64 m p (xreg c a)) (p + 8) (xreg c b)))"

definition pop :: "nat \<Rightarrow> nat \<Rightarrow> insn" where
  "pop a b s = (let (c, m) = s; p = sp_reg c
     in (c\<lparr>sp_reg := p + 16, xreg := (xreg c)(a := load64 m p, b := load64 m (p + 8))\<rparr>, m))"

definition ldp_pre :: "nat \<Rightarrow> nat \<Rightarrow> insn" where
  "ldp_pre a b s = (let (c, m) = s; p = sp_reg c - 16
     in (c\<lparr>sp_reg := p, xreg := (xreg c)(a := load64 m p, b := load64 m (p + 8))\<rparr>, m))"

definition push_zr :: "nat \<Rightarrow> insn" where
  "push_zr a s = (let (c, m) = s; p = sp_reg c - 16 in (c\<lparr>sp_reg := p\<rparr>, store64 (store64 m p (xreg c a)) (p + 8) 0))"

definition pop_zr :: "nat \<Rightarrow> insn" where
  "pop_zr a s = (let (c, m) = s; p = sp_reg c in (c\<lparr>sp_reg := p + 16, xreg := (xreg c)(a := load64 m p)\<rparr>, m))"

definition save_context :: insn where
  "save_context = run [
     push 0 1, push 2 3, push 4 5, push 6 7, push 8 9, push 10 11, push 12 13, push 14 15, push 16 17,
     push 18 19, push 20 21, push 22 23, push 24 25, push 26 27, push 28 29,
     mrs_x 20 ELR_EL1, mrs_x 21 SPSR_EL1, push 30 20, push_zr 21]"

definition restore_context :: insn where
  "restore_context = run [
     pop_zr 21, pop 30 20, msr_x ELR_EL1 20, msr_x SPSR_EL1 21, pop 28 29,
     ldp_pre 26 27, ldp_pre 24 25, ldp_pre 22 23, ldp_pre 20 21, ldp_pre 18 19, ldp_pre 16 17, ldp_pre 14 15,
     ldp_pre 12 13, ldp_pre 10 11, ldp_pre 8 9, ldp_pre 6 7, ldp_pre 4 5, ldp_pre 2 3, pop 0 1]"

text \<open>The entries \<open>el1_sync\<close> to \<open>el0_serror\<close>, numbered as the code numbers them: up to the call, and after it.
  \<open>eret\<close> continues at \<open>ELR_EL1\<close> with the interrupt mask of bit 7 of \<open>SPSR_EL1\<close>.\<close>

definition vector_entry :: "nat \<Rightarrow> insn" where
  "vector_entry n s = (let (c, m) = save_context s in (c\<lparr>xreg := (xreg c)(0 := sp_reg c, 1 := of_nat n)\<rparr>, m))"

definition vector_return :: insn where
  "vector_return s = (let (c, m) = restore_context s
     in (c\<lparr>pc := sysregs c ELR_EL1, irq_masked := bit (sysregs c SPSR_EL1) 7\<rparr>, m))"

text \<open>\<open>el1_irq\<close> calls the timer, the others the exception handler.\<close>

definition on_core :: "insn \<Rightarrow> 'h kernel \<Rightarrow> 'h kernel" where
  "on_core f k = (let (c, m) = f (k_cpu k, kmem k) in k\<lparr>k_cpu := c, k_heap := (k_heap k)\<lparr>mem := m\<rparr>\<rparr>)"

definition vector_handler :: "'h hw \<Rightarrow> kernel_image \<Rightarrow> nat \<Rightarrow> 'h kernel \<Rightarrow> 'h kernel control option" where
  "vector_handler hw im n k =
     (if n = 1
      then do {
        r \<leftarrow> timer_handle_interrupt (yield_return im) ((k_sched k)\<lparr>core := k_cpu k, heap := k_heap k\<rparr>);
        let put = (\<lambda>s. k\<lparr>k_sched := s, k_cpu := core s, k_heap := heap s\<rparr>);
        Some (case r of Back s \<Rightarrow> Back (put s) | Stop s \<Rightarrow> Stop (put s) | Switch s \<Rightarrow> Switch (put s))
      }
      else exception_handler hw im (xreg (k_cpu k) 0) (ucast (xreg (k_cpu k) 1)) k)"

definition take_exception :: "'h hw \<Rightarrow> kernel_image \<Rightarrow> nat \<Rightarrow> 'h kernel \<Rightarrow> 'h kernel control option" where
  "take_exception hw im n k = do {
     r \<leftarrow> vector_handler hw im n (on_core (vector_entry n) k);
     Some (case r of Back k \<Rightarrow> Back (on_core vector_return k) | _ \<Rightarrow> r)
   }"

text \<open>The branches of the table, four bytes each, by the number of the entry they go to; the processor enters
  the table at multiples of 128 bytes.\<close>

definition exception_table :: "nat list" where
  "exception_table = [0, 1, 2, 3, 0, 1, 2, 3, 4, 5, 6, 7, 4, 5, 6, 7]"

definition vectored :: "nat \<Rightarrow> nat option" where
  "vectored off = (if off mod 4 = 0 \<and> off div 4 < length exception_table then Some (exception_table ! (off div 4)) else None)"

section \<open>Clearing the bss section\<close>

lemma store64_zero: "store64 m p 0 x = (if x \<in> region p 8 then 0 else m x)"
proof -
  have "le_bytes 8 (0 :: u64) ! i = 0" if "i < 8" for i using that by (simp add: nth_le_bytes)
  then show ?thesis by (simp add: store64_def write_bytes_def region_def)
qed

lemma clear_bss_mem:
  assumes "a + 8 * n \<le> 2 ^ 64"
  shows "clear_bss n (of_nat a) m x = (if a \<le> unat x \<and> unat x < a + 8 * n then 0 else m x)"
  using assms
proof (induction n arbitrary: a m)
  case (Suc n)
  have "(of_nat a + 8 :: u64) = of_nat (a + 8)" by simp
  then have "clear_bss (Suc n) (of_nat a) m x = clear_bss n (of_nat (a + 8)) (store64 m (of_nat a) 0) x" by simp
  also have "\<dots> = (if a + 8 \<le> unat x \<and> unat x < a + 8 + 8 * n then 0 else store64 m (of_nat a) 0 x)"
    using Suc.prems by (intro Suc.IH) simp
  also have "store64 m (of_nat a) 0 x = (if a \<le> unat x \<and> unat x < a + 8 then 0 else m x)"
    using region_nat [of a 8 x] Suc.prems by (simp add: store64_zero)
  finally show ?case by auto
qed auto

lemma load64_zeros: "(\<And>i. i < 8 \<Longrightarrow> m (p + of_nat i) = 0) \<Longrightarrow> load64 m p = 0"
proof -
  assume "\<And>i. i < 8 \<Longrightarrow> m (p + of_nat i) = 0"
  then have "read_bytes m p 8 = replicate 8 0" by (intro nth_equalityI) (simp_all add: read_bytes_def)
  then show ?thesis by (simp only: load64_def le_word_zeros)
qed

lemma dtb_slot_bounds: "a \<le> dtb_slot a n" "dtb_slot a n \<le> a + n + 4095 + 0x4000 + 4095"
  unfolding dtb_slot_def Let_def by linarith+

lemma start_master:
  assumes "mrs MPIDR_EL1 (k_cpu k) AND 0xff = 0" and "bss_start b = of_nat s" and "unat (bss_size b) = n"
    and "8192 \<le> n" and "s + 8 * n \<le> 2 ^ 64" and "dtb_ptr b = of_nat (dtb_slot s n)"
  obtains k' where "start hw im b k = do { r \<leftarrow> kernel_main hw im 0 k'; Some (case r of Back k \<Rightarrow> Stop k | _ \<Rightarrow> r) }"
    and "sp_reg (k_cpu k') = sym_start b"
    and "\<And>x. kmem k' x = (if s \<le> unat x \<and> unat x < s + 8 * n then 0 else kmem k x)"
proof -
  let ?m = "clear_bss n (bss_start b) (kmem k)" and ?d = "dtb_slot s n"
  have m: "?m x = (if s \<le> unat x \<and> unat x < s + 8 * n then 0 else kmem k x)" for x
    using clear_bss_mem [OF assms(5)] assms(2) by simp
  have "?m (dtb_ptr b + of_nat i) = 0" if "i < 8" for i
  proof -
    have le: "?d + i < s + 8 * n" using dtb_slot_bounds(2) [of s n] assms(4) that by linarith
    then have "unat (of_nat (?d + i) :: u64) = ?d + i" using assms(5) by (intro unat_of_nat64) linarith
    then have "unat (dtb_ptr b + of_nat i) = ?d + i" using assms(6) by simp
    then show ?thesis using m le dtb_slot_bounds(1) [of s n] by simp
  qed
  then have x0: "load64 ?m (dtb_ptr b) = 0" by (rule load64_zeros)
  let ?c = "k_cpu k"
  let ?k = "k\<lparr>k_cpu := ?c\<lparr>sp_reg := sym_start b,
      xreg := (xreg ?c)(1 := 0, 0 := 0, 1 := bss_start b + 8 * of_nat n, 2 := 0)\<rparr>, k_heap := (k_heap k)\<lparr>mem := ?m\<rparr>\<rparr>"
  have "start hw im b k = do { r \<leftarrow> kernel_main hw im 0 ?k; Some (case r of Back k \<Rightarrow> Stop k | _ \<Rightarrow> r) }"
    using assms(1,3) x0 by (simp add: start_def Let_def)
  then show thesis using that m by simp
qed

section \<open>Exception entry and return\<close>

lemmas exception_defs = push_def pop_def ldp_pre_def push_zr_def pop_zr_def mrs_x_def msr_x_def

lemma save_context_words:
  assumes "sp_reg c = p + 272"
  shows "sp_reg (fst (save_context (c, m))) = p"
    and "load64 (snd (save_context (c, m))) p = mrs SPSR_EL1 c" and "load64 (snd (save_context (c, m))) (p + 8) = 0"
    and "load64 (snd (save_context (c, m))) (p + 16) = xreg c 30" and "load64 (snd (save_context (c, m))) (p + 24) = mrs ELR_EL1 c"
    and "load64 (snd (save_context (c, m))) (p + 32) = xreg c 28" and "load64 (snd (save_context (c, m))) (p + 40) = xreg c 29"
  using assms
  by (simp_all add: save_context_def run_def exception_defs Let_def load64_store64_offs load64_store64_same mrs_def
      add_diff_eq [symmetric] add.assoc)

lemma restore_context_words:
  assumes "sp_reg c = p"
  shows "sp_reg (fst (restore_context (c, m))) = p - 144"
    and "sysregs (fst (restore_context (c, m))) ELR_EL1 = load64 m (p + 24)"
    and "sysregs (fst (restore_context (c, m))) SPSR_EL1 = load64 m p"
    and "xreg (fst (restore_context (c, m))) 30 = load64 m (p + 16)"
    and "xreg (fst (restore_context (c, m))) 29 = load64 m (p + 40)" and "xreg (fst (restore_context (c, m))) 28 = load64 m (p + 32)"
    and "xreg (fst (restore_context (c, m))) 27 = load64 m (p + 40)" and "xreg (fst (restore_context (c, m))) 26 = load64 m (p + 32)"
    and "xreg (fst (restore_context (c, m))) 25 = load64 m (p + 24)" and "xreg (fst (restore_context (c, m))) 24 = load64 m (p + 16)"
    and "xreg (fst (restore_context (c, m))) 23 = load64 m (p + 8)" and "xreg (fst (restore_context (c, m))) 22 = load64 m p"
  using assms
  by (simp_all add: restore_context_def run_def exception_defs Let_def msr_def sys_op_def add_diff_eq [symmetric] add.assoc)

lemma load64_frame:
  assumes "\<And>x. x \<in> region p n \<Longrightarrow> m' x = m x" and "i + 8 \<le> n" and "n \<le> 2 ^ 64"
  shows "load64 m' (p + of_nat i) = load64 m (p + of_nat i)"
proof -
  have "m' (p + of_nat i + of_nat j) = m (p + of_nat i + of_nat j)" if "j < 8" for j
    using assms(1) [of "p + of_nat (i + j)"] region_offset [of "i + j" n p] assms(2,3) that by (simp add: add.assoc)
  then have "read_bytes m' (p + of_nat i) 8 = read_bytes m (p + of_nat i) 8"
    unfolding read_bytes_def by (intro map_cong) auto
  then show ?thesis by (simp add: load64_def)
qed

text \<open>Of the sixteen places where the processor enters the table only the first holds a branch of it.\<close>

lemma vectors_missed: "0 < i \<Longrightarrow> i < 16 \<Longrightarrow> vectored (128 * i) = None"
  by (simp add: vectored_def exception_table_def)

section \<open>Properties\<close>

text \<open>C24: an exception entry and return give back the program counter, the saved status and the registers 28 to 30;
  but the return sequence reads the rest with the wrong addressing mode: registers 22 to 27 receive the words of
  other registers, and the stack pointer ends 416 bytes below its value.\<close>

theorem exception_return_registers:
  assumes "sp_reg c = p + 272" and "sp_reg c' = sp_reg (fst (vector_entry n (c, m)))"
    and "\<And>x. x \<in> region p 48 \<Longrightarrow> m' x = snd (vector_entry n (c, m)) x"
  shows "let r = fst (vector_return (c', m')) in
    pc r = mrs ELR_EL1 c \<and> sysregs r SPSR_EL1 = mrs SPSR_EL1 c \<and>
    xreg r 30 = xreg c 30 \<and> xreg r 29 = xreg c 29 \<and> xreg r 28 = xreg c 28 \<and>
    xreg r 27 = xreg c 29 \<and> xreg r 26 = xreg c 28 \<and> xreg r 25 = mrs ELR_EL1 c \<and> xreg r 24 = xreg c 30 \<and>
    xreg r 23 = 0 \<and> xreg r 22 = mrs SPSR_EL1 c \<and> sp_reg r = sp_reg c - 416"
proof -
  let ?m = "snd (save_context (c, m))"
  have e: "snd (vector_entry n (c, m)) = ?m" "sp_reg (fst (vector_entry n (c, m))) = sp_reg (fst (save_context (c, m)))"
    by (simp_all add: vector_entry_def split: prod.splits)
  have sp: "sp_reg c' = p" using assms(2) save_context_words(1) [OF assms(1)] e(2) by simp
  have w: "load64 m' (p + of_nat i) = load64 ?m (p + of_nat i)" if "i + 8 \<le> 48" for i
    using load64_frame [of p 48 m' ?m i] assms(3) that by (simp add: e(1))
  have saved: "load64 m' p = mrs SPSR_EL1 c" "load64 m' (p + 8) = 0" "load64 m' (p + 16) = xreg c 30" "load64 m' (p + 24) = mrs ELR_EL1 c"
    "load64 m' (p + 32) = xreg c 28" "load64 m' (p + 40) = xreg c 29"
    using w [of 0] w [of 8] w [of 16] w [of 24] w [of 32] w [of 40] save_context_words [OF assms(1)] by simp_all
  have "p - 144 = sp_reg c - 416" using assms(1) by simp
  then show ?thesis using restore_context_words [OF sp, of m'] saved
    by (simp add: vector_return_def Let_def case_prod_beta)
qed

theorem exception_return_registers_witness:
  "xreg (fst (vector_return (vector_entry 1
     (\<lparr>sysregs = (\<lambda>_. 0), xreg = of_nat, sp_reg = 0x1000, pc = 0, irq_masked = False, sys_trace = [], cpu_states = [], console = []\<rparr>,
      \<lambda>_. 0)))) 26 = 28"
proof -
  let ?c = "\<lparr>sysregs = (\<lambda>_. 0), xreg = of_nat, sp_reg = 0x1000, pc = 0, irq_masked = False, sys_trace = [], cpu_states = [], console = []\<rparr> :: cpu"
  have "sp_reg ?c = 3824 + 272" by simp
  from exception_return_registers [OF this refl refl, where n = 1 and m = "\<lambda>_. 0"] show ?thesis
    by (simp add: Let_def)
qed

end
