(* ===== verification/Emmc.thy ===== *)
theory Emmc
  imports Block_Device
begin

text \<open>
  The EMMC path of \<^verbatim>\<open>src/kern/drivers/block/block_device.c\<close> (modelled in \<open>Block_Device\<close>) with a host controller.
  \<open>emmc_send_command\<close> waits for \<open>EMMC_STATUS_TRANSFER_COMPLETE\<close>, also for the two data commands, before the
  first word is moved; the controller has a separate bit for the end of a command
  (\<open>EMMC_STATUS_COMMAND_COMPLETE\<close> of \<^verbatim>\<open>block_device.h\<close>, which the driver never uses).  The locale \<open>emmc_hardware\<close>
  states what is used of a controller; a reference controller fulfils it.
\<close>

section \<open>Waiting for a bit\<close>

text \<open>A property of the device that reading the register keeps.\<close>

lemma poll_clear_keeps:
  assumes "poll_clear hw a bits s = Some s'" and "P (hw_state s)" and keeps: "\<And>h. P h \<Longrightarrow> P (snd (hw_read hw a h))"
  shows "P (hw_state s')"
  using assms(1,2) keeps
proof (induction rule: poll_clear.raw_induct [rotated 1, consumes 1])
  case (1 poll hw a bits s s')
  obtain v h where r: "hw_read hw a (hw_state s) = (v, h)" by fastforce
  then have h: "P h" using 1(4) [OF 1(3)] by simp
  show ?case
  proof (cases "v AND bits = 0")
    case True
    with 1(2) r h show ?thesis by (auto simp: mmio_read_def)
  next
    case False
    with 1(2) r have "poll hw a bits (s\<lparr>hw_state := h\<rparr>) = Some s'" by (simp add: mmio_read_def)
    from 1(1) [OF this] h 1(4) show ?thesis by simp
  qed
qed

text \<open>A bit that stays clear is waited for without end.\<close>

lemma poll_set_never:
  assumes "P (hw_state s)" and keeps: "\<And>h. P h \<Longrightarrow> P (snd (hw_read hw a h))"
    and clear: "\<And>h. P h \<Longrightarrow> fst (hw_read hw a h) AND bits = 0"
  shows "poll_set hw a bits s = None"
proof -
  have False if "poll_set hw a bits s = Some s'" for s'
    using that assms
  proof (induction rule: poll_set.raw_induct [rotated 1, consumes 1])
    case (1 poll hw a bits s s')
    obtain v h where r: "hw_read hw a (hw_state s) = (v, h)" by fastforce
    then have "v AND bits = 0" "P h" using 1(4,5) [OF 1(3)] by simp_all
    with 1(2) r have "poll hw a bits (s\<lparr>hw_state := h\<rparr>) = Some s'" by (simp add: mmio_read_def)
    from 1(1) [OF this] \<open>P h\<close> 1(4,5) show False by simp
  qed
  then show ?thesis by (cases "poll_set hw a bits s") auto
qed

section \<open>A controller\<close>

lemma mmio_write_state: "hw_state (mmio_write hw a v s) = snd (hw_write hw a v (bd_mem s, hw_state s))"
  by (simp add: mmio_write_def case_prod_beta)

text \<open>What the driver meets: \<open>complete h\<close> says that a transfer has completed and its completion has not been
  acknowledged.  The status register reports it only then.  A transfer completes by moving its data or by
  being stopped, so neither writing the argument, nor giving a data command, nor reading the status
  makes it complete.\<close>

locale emmc_hardware =
  fixes hw :: "'h hw"
    and complete :: "'h \<Rightarrow> bool"
  assumes reported: "fst (hw_read hw EMMC_HCI_INTERRUPT_STATUS_REG h) AND EMMC_STATUS_TRANSFER_COMPLETE \<noteq> 0 \<Longrightarrow> complete h"
    and status_read: "a \<in> {EMMC_HCI_STATUS_REG, EMMC_HCI_INTERRUPT_STATUS_REG} \<Longrightarrow> \<not> complete h \<Longrightarrow>
      \<not> complete (snd (hw_read hw a h))"
    and argument_write: "\<not> complete h \<Longrightarrow> \<not> complete (snd (hw_write hw EMMC_HCI_ARGUMENT_REG v (m, h)))"
    and data_command: "cmd \<in> {EMMC_CMD_READ_MULTIPLE_BLOCK, EMMC_CMD_WRITE_MULTIPLE_BLOCK} \<Longrightarrow> \<not> complete h \<Longrightarrow>
      \<not> complete (snd (hw_write hw EMMC_HCI_COMMAND_REG cmd (m, h)))"
begin

lemma data_command_hangs:
  assumes "cmd \<in> {EMMC_CMD_READ_MULTIPLE_BLOCK, EMMC_CMD_WRITE_MULTIPLE_BLOCK}" and "\<not> complete (hw_state s)"
  shows "emmc_send_command hw cmd arg 0 s = None"
proof (cases "poll_clear hw EMMC_HCI_STATUS_REG EMMC_STATUS_CMD_INHIBIT s")
  case None
  then show ?thesis by (simp add: emmc_send_command_def)
next
  case (Some s1)
  have 1: "\<not> complete (hw_state s1)"
    using poll_clear_keeps [OF Some, of "\<lambda>h. \<not> complete h"] assms(2) status_read by blast
  let ?s2 = "mmio_write hw EMMC_HCI_ARGUMENT_REG arg s1"
  let ?s3 = "mmio_write hw EMMC_HCI_COMMAND_REG cmd ?s2"
  have 2: "\<not> complete (hw_state ?s2)"
    using argument_write [OF 1, of arg "bd_mem s1"] by (simp add: mmio_write_state)
  have "\<not> complete (hw_state ?s3)"
    using data_command [OF assms(1) 2, of "bd_mem ?s2"] by (simp add: mmio_write_state)
  then have "poll_set hw EMMC_HCI_INTERRUPT_STATUS_REG EMMC_STATUS_TRANSFER_COMPLETE ?s3 = None"
    using reported status_read by (intro poll_set_never [where P = "\<lambda>h. \<not> complete h"]) blast+
  then show ?thesis by (simp add: emmc_send_command_def Some)
qed

lemma transfer_hangs:
  assumes "active_block_device_type s = BLOCK_DEVICE_TYPE_EMMC" and "\<not> complete (hw_state s)"
  shows "block_device_read hw lba n buffer s = (if n = 0 then Some (0, s) else None)"
    and "block_device_write hw lba n buffer s = (if n = 0 then Some (0, s) else None)"
  using assms data_command_hangs [of EMMC_CMD_READ_MULTIPLE_BLOCK s "ucast lba"]
    data_command_hangs [of EMMC_CMD_WRITE_MULTIPLE_BLOCK s "ucast lba"]
  by (simp_all add: block_device_read_def block_device_write_def emmc_read_blocks_def emmc_write_blocks_def)

end

section \<open>A reference controller\<close>

text \<open>A card of 32-bit words, 128 to a sector.  A data command sets the cursor to the first word of the sector in the
  argument register and completes as a command; the data register then moves one word at a time; the
  command that ends the transmission completes the transfer.  Both completions are cleared by writing
  their bits back.\<close>

datatype emmc_mode = Idle | Reading | Writing

record emmc_ctrl =
  e_words :: "nat \<Rightarrow> u32"
  e_arg :: u32
  e_mode :: emmc_mode
  e_cursor :: nat
  e_command_done :: bool
  e_complete :: bool

abbreviation EMMC_STATUS_COMMAND_COMPLETE :: u32 where "EMMC_STATUS_COMMAND_COMPLETE \<equiv> 0x1"

definition emmc_execute :: "u32 \<Rightarrow> emmc_ctrl \<Rightarrow> emmc_ctrl" where
  "emmc_execute cmd e =
     (let e = e\<lparr>e_command_done := True\<rparr>
      in if cmd = EMMC_CMD_READ_MULTIPLE_BLOCK then e\<lparr>e_mode := Reading, e_cursor := EMMC_WORDS * unat (e_arg e)\<rparr>
         else if cmd = EMMC_CMD_WRITE_MULTIPLE_BLOCK then e\<lparr>e_mode := Writing, e_cursor := EMMC_WORDS * unat (e_arg e)\<rparr>
         else if cmd = EMMC_CMD_STOP_TRANSMISSION then e\<lparr>e_mode := Idle, e_complete := True\<rparr>
         else e)"

definition emmc_card :: "emmc_ctrl hw" where
  "emmc_card =
     \<lparr>hw_read = (\<lambda>a e.
        if a = EMMC_HCI_DATA_REG \<and> e_mode e = Reading then (e_words e (e_cursor e), e\<lparr>e_cursor := Suc (e_cursor e)\<rparr>)
        else if a = EMMC_HCI_STATUS_REG
        then (case e_mode e of Idle \<Rightarrow> 0 | Reading \<Rightarrow> EMMC_STATUS_BUFFER_READ_READY
                | Writing \<Rightarrow> EMMC_STATUS_BUFFER_WRITE_READY, e)
        else if a = EMMC_HCI_INTERRUPT_STATUS_REG
        then ((if e_command_done e then EMMC_STATUS_COMMAND_COMPLETE else 0) OR
              (if e_complete e then EMMC_STATUS_TRANSFER_COMPLETE else 0), e)
        else (0, e)),
      hw_write = (\<lambda>a v (m, e).
        if a = EMMC_HCI_ARGUMENT_REG then (m, e\<lparr>e_arg := v\<rparr>)
        else if a = EMMC_HCI_COMMAND_REG then (m, emmc_execute v e)
        else if a = EMMC_HCI_INTERRUPT_STATUS_REG
        then (m, e\<lparr>e_command_done := e_command_done e \<and> v AND EMMC_STATUS_COMMAND_COMPLETE = 0,
                   e_complete := e_complete e \<and> v AND EMMC_STATUS_TRANSFER_COMPLETE = 0\<rparr>)
        else if a = EMMC_HCI_DATA_REG \<and> e_mode e = Writing
        then (m, e\<lparr>e_words := (e_words e)(e_cursor e := v), e_cursor := Suc (e_cursor e)\<rparr>)
        else (m, e))\<rparr>"

interpretation emmc_reference: emmc_hardware emmc_card e_complete
  by unfold_locales (auto simp: emmc_card_def emmc_execute_def Let_def split: if_splits)

section \<open>Properties\<close>

text \<open>C19: the EMMC path never transfers a block.  With any controller that reports the completion of a transfer no earlier than
  its data has moved or it was stopped, and no completion left over from before, a read or a write of at least one
  block gives the data command and then waits for that completion for ever, before the first word; with no
  block to move both return 0 at once and change nothing.\<close>

theorem emmc_transfer_hangs:
  assumes "emmc_hardware hw complete" and "active_block_device_type s = BLOCK_DEVICE_TYPE_EMMC"
    and "\<not> complete (hw_state s)"
  shows "block_device_read hw lba n buffer s = (if n = 0 then Some (0, s) else None) \<and>
    block_device_write hw lba n buffer s = (if n = 0 then Some (0, s) else None)"
  using emmc_hardware.transfer_hangs [OF assms] by blast

definition sample_emmc :: "emmc_ctrl bdev" where
  "sample_emmc = \<lparr>bd_mem = (\<lambda>x. ucast x), hw_state = \<lparr>e_words = (\<lambda>_. 0), e_arg = 0, e_mode = Idle,
     e_cursor = 0, e_command_done = False, e_complete = False\<rparr>, active_block_device_type = BLOCK_DEVICE_TYPE_EMMC, bd_log = []\<rparr>"

theorem emmc_transfer_hangs_witness:
  "block_device_read emmc_card 7 3 0x8000 sample_emmc = None \<and>
   block_device_write emmc_card 7 3 0x1000 sample_emmc = None \<and>
   block_device_write emmc_card 7 0 0x1000 sample_emmc = Some (0, sample_emmc)"
proof -
  have "active_block_device_type sample_emmc = BLOCK_DEVICE_TYPE_EMMC" "\<not> e_complete (hw_state sample_emmc)"
    by (simp_all add: sample_emmc_def)
  note hangs = emmc_transfer_hangs [OF emmc_reference.emmc_hardware_axioms this]
  show ?thesis using hangs [of 7 3 "0x8000"] hangs [of 7 3 "0x1000"] hangs [of 7 0 "0x1000"] by simp
qed

end
