(* ===== verification/Layout.thy ===== *)
theory Layout
  imports Sched Vfs Dtb Fs Block_Device
begin

text \<open>
  The layout of the structs of the headers in memory, by the rules of the AArch64 procedure call
  standard: an integer or a pointer is aligned to its size, an array like its elements, a struct like
  its most strictly aligned member; a member is placed at the next offset of its alignment, and the
  size of a struct is rounded up to its alignment.  The components read and write structs at literal
  offsets; here these are shown to be the offsets of the members.
\<close>

section \<open>C types\<close>

datatype ctype =
    CInt nat
  | CArr ctype nat
  | CStruct "(string \<times> ctype) list"

definition round_up :: "nat \<Rightarrow> nat \<Rightarrow> nat" where
  "round_up a n = (n + a - 1) div a * a"

fun alignof :: "ctype \<Rightarrow> nat" and alignof_members :: "(string \<times> ctype) list \<Rightarrow> nat" where
  "alignof (CInt n) = n"
| "alignof (CArr t n) = alignof t"
| "alignof (CStruct ms) = alignof_members ms"
| "alignof_members [] = 1"
| "alignof_members ((x, t) # ms) = max (alignof t) (alignof_members ms)"

fun sizeof :: "ctype \<Rightarrow> nat" and end_of_members :: "nat \<Rightarrow> (string \<times> ctype) list \<Rightarrow> nat" where
  "sizeof (CInt n) = n"
| "sizeof (CArr t n) = n * sizeof t"
| "sizeof (CStruct ms) = round_up (alignof_members ms) (end_of_members 0 ms)"
| "end_of_members off [] = off"
| "end_of_members off ((x, t) # ms) = end_of_members (round_up (alignof t) off + sizeof t) ms"

fun place :: "nat \<Rightarrow> (string \<times> ctype) list \<Rightarrow> (string \<times> nat \<times> ctype) list" where
  "place off [] = []"
| "place off ((x, t) # ms) = (x, round_up (alignof t) off, t) # place (round_up (alignof t) off + sizeof t) ms"

fun members :: "ctype \<Rightarrow> (string \<times> nat \<times> ctype) list" where
  "members (CStruct ms) = place 0 ms"
| "members _ = []"

text \<open>Offset and type of a member, by a path through nested structs, and its bytes.\<close>

fun member :: "ctype \<Rightarrow> string list \<Rightarrow> (nat \<times> ctype) option" where
  "member t [] = Some (0, t)"
| "member t (x # xs) = (case map_of (members t) x of
     None \<Rightarrow> None
   | Some (off, t') \<Rightarrow> (case member t' xs of None \<Rightarrow> None | Some (off', t'') \<Rightarrow> Some (off + off', t'')))"

definition offset :: "ctype \<Rightarrow> string list \<Rightarrow> nat" where
  "offset t xs = (case member t xs of Some (off, _) \<Rightarrow> off | None \<Rightarrow> 0)"

definition member_bytes :: "ctype \<Rightarrow> string list \<Rightarrow> u8 list \<Rightarrow> u8 list" where
  "member_bytes t xs b = (case member t xs of Some (off, t') \<Rightarrow> slice off (sizeof t') b | None \<Rightarrow> [])"

text \<open>Types whose integers have 1, 2, 4 or 8 bytes.\<close>

fun plain :: "ctype \<Rightarrow> bool" where
  "plain (CInt n) \<longleftrightarrow> n \<in> {1, 2, 4, 8}"
| "plain (CArr t n) \<longleftrightarrow> plain t"
| "plain (CStruct ms) \<longleftrightarrow> (\<forall>m \<in> set ms. plain (snd m))"

text \<open>A layout in which every member is aligned and inside the struct, and each begins after the one before it.\<close>

definition well_laid :: "ctype \<Rightarrow> bool" where
  "well_laid t \<longleftrightarrow> sizeof t mod alignof t = 0 \<and>
     (\<forall>(x, off, t') \<in> set (members t). off mod alignof t' = 0 \<and> off + sizeof t' \<le> sizeof t) \<and>
     sorted_wrt (\<lambda>(x, off, t') (x', off', t''). off + sizeof t' \<le> off') (members t)"

section \<open>Soundness of the layout rules\<close>

lemma round_up_ge: "0 < a \<Longrightarrow> n \<le> round_up a n"
proof -
  assume a: "0 < a"
  have "(n + a - 1) div a * a + (n + a - 1) mod a = n + a - 1" by simp
  moreover have "(n + a - 1) mod a < a" using a by simp
  ultimately show ?thesis unfolding round_up_def by linarith
qed

lemma round_up_mod [simp]: "round_up a n mod a = 0"
  by (simp add: round_up_def)

lemma max_pow: "\<exists>i. a = 2 ^ i \<Longrightarrow> \<exists>j. b = 2 ^ j \<Longrightarrow> \<exists>k. max a b = (2 :: nat) ^ k"
  by (auto simp: max_def)

lemma alignof_pow:
  "plain t \<Longrightarrow> \<exists>k. alignof t = 2 ^ k"
  "\<forall>m \<in> set ms. plain (snd m) \<Longrightarrow> \<exists>k. alignof_members ms = 2 ^ k"
proof (induction t and ms rule: alignof_alignof_members.induct)
  case (1 n)
  then have "n = 2 ^ 0 \<or> n = 2 ^ 1 \<or> n = 2 ^ 2 \<or> n = 2 ^ 3" by auto
  then show ?case unfolding alignof.simps by blast
next
  case 4
  show ?case by (rule exI [of _ 0]) simp
qed (simp_all add: max_pow)

lemma alignof_pos: "plain t \<Longrightarrow> 0 < alignof t"
  using alignof_pow(1) by fastforce

lemma end_of_members_ge: "\<forall>m \<in> set ms. plain (snd m) \<Longrightarrow> off \<le> end_of_members off ms"
proof (induction ms arbitrary: off)
  case (Cons m ms)
  obtain x t where m: "m = (x, t)" by fastforce
  have "off \<le> round_up (alignof t) off" using Cons.prems by (intro round_up_ge alignof_pos) (simp add: m)
  moreover have "round_up (alignof t) off + sizeof t \<le> end_of_members (round_up (alignof t) off + sizeof t) ms"
    using Cons by simp
  ultimately show ?case by (simp add: m)
qed simp

lemma place_inside:
  assumes "\<forall>m \<in> set ms. plain (snd m)" and "(x, o', t) \<in> set (place off ms)"
  shows "o' mod alignof t = 0 \<and> off \<le> o' \<and> o' + sizeof t \<le> end_of_members off ms"
  using assms
proof (induction ms arbitrary: off)
  case (Cons m ms)
  obtain y u where m: "m = (y, u)" by fastforce
  let ?o = "round_up (alignof u) off"
  have ge: "off \<le> ?o" using Cons.prems(1) by (intro round_up_ge alignof_pos) (simp add: m)
  have le: "?o + sizeof u \<le> end_of_members (?o + sizeof u) ms" using Cons.prems(1) by (intro end_of_members_ge) simp
  consider "o' = ?o" "t = u" | "(x, o', t) \<in> set (place (?o + sizeof u) ms)" using Cons.prems(2) by (auto simp: m)
  then show ?case
  proof cases
    case 1
    with ge le show ?thesis by (simp add: m)
  next
    case 2
    with Cons.IH Cons.prems(1) ge show ?thesis by (fastforce simp: m)
  qed
qed simp

lemma place_sorted:
  assumes "\<forall>m \<in> set ms. plain (snd m)"
  shows "sorted_wrt (\<lambda>(x, off, t') (x', off', t''). off + sizeof t' \<le> off') (place off ms)"
  using assms
proof (induction ms arbitrary: off)
  case (Cons m ms)
  obtain y u where m: "m = (y, u)" by fastforce
  have "round_up (alignof u) off + sizeof u \<le> o'"
    if "(x, o', t) \<in> set (place (round_up (alignof u) off + sizeof u) ms)" for x o' t
    using place_inside [OF _ that] Cons.prems by simp
  with Cons show ?case by (auto simp: m)
qed simp

lemma plain_well_laid: "plain (CStruct ms) \<Longrightarrow> well_laid (CStruct ms)"
proof -
  assume p: "plain (CStruct ms)"
  then have all: "\<forall>m \<in> set ms. plain (snd m)" by simp
  have "end_of_members 0 ms \<le> sizeof (CStruct ms)" using alignof_pos [OF p] by (simp add: round_up_ge)
  with place_inside [OF all] place_sorted [OF all] show ?thesis
    unfolding well_laid_def by fastforce
qed

section \<open>The structs of the kernel\<close>

abbreviation uint8_t :: ctype where "uint8_t \<equiv> CInt 1"
abbreviation uint16_t :: ctype where "uint16_t \<equiv> CInt 2"
abbreviation uint32_t :: ctype where "uint32_t \<equiv> CInt 4"
abbreviation uint64_t :: ctype where "uint64_t \<equiv> CInt 8"
abbreviation c_int_t :: ctype where "c_int_t \<equiv> CInt 4"
abbreviation pointer :: ctype where "pointer \<equiv> CInt 8"

definition inode_t :: ctype where
  "inode_t = CStruct [(''id'', uint32_t), (''type'', uint16_t), (''permissions'', uint16_t), (''owner_id'', uint32_t),
     (''group_id'', uint32_t), (''size'', uint64_t), (''creation_time'', uint64_t), (''modification_time'', uint64_t),
     (''direct_blocks'', CArr uint32_t 10), (''indirect_block'', uint32_t), (''double_indirect_block'', uint32_t)]"

definition dir_entry_t :: ctype where
  "dir_entry_t = CStruct [(''inode_id'', uint32_t), (''name'', CArr uint8_t (FS_MAX_FILENAME_LEN + 1))]"

definition superblock_t :: ctype where
  "superblock_t = CStruct [(''magic'', uint32_t), (''block_size'', uint32_t), (''total_blocks'', uint32_t),
     (''free_blocks'', uint32_t), (''total_inodes'', uint32_t), (''free_inodes'', uint32_t), (''root_inode'', uint32_t),
     (''inode_bitmap_block'', uint32_t), (''block_bitmap_block'', uint32_t), (''inode_table_start_block'', uint32_t),
     (''data_start_block'', uint32_t)]"

definition block_header_t :: ctype where
  "block_header_t = CStruct [(''size'', uint64_t), (''next'', pointer), (''free'', c_int_t)]"

definition vm_map_entry_t :: ctype where
  "vm_map_entry_t = CStruct [(''virtual_address'', uint64_t), (''physical_address'', uint64_t), (''size'', uint64_t),
     (''protection_flags'', uint32_t)]"

definition cpu_context_t :: ctype where
  "cpu_context_t = CStruct [(''sp'', uint64_t), (''lr'', uint64_t), (''x19'', uint64_t), (''x20'', uint64_t),
     (''x21'', uint64_t), (''x22'', uint64_t), (''x23'', uint64_t), (''x24'', uint64_t), (''x25'', uint64_t),
     (''x26'', uint64_t), (''x27'', uint64_t), (''x28'', uint64_t), (''fp'', uint64_t)]"

definition tcb_t :: ctype where
  "tcb_t = CStruct [(''id'', uint32_t), (''context'', cpu_context_t), (''state'', uint32_t), (''stack_base'', uint64_t),
     (''stack_size'', uint64_t), (''ttbr0_el1'', uint64_t)]"

definition spinlock_t :: ctype where
  "spinlock_t = CStruct [(''lock'', uint32_t)]"

definition vfs_node_t :: ctype where
  "vfs_node_t = CStruct [(''name'', pointer), (''type'', c_int_t), (''parent'', pointer), (''child'', pointer),
     (''sibling'', pointer), (''fs_data'', pointer)]"

definition fdt_header_t :: ctype where
  "fdt_header_t = CStruct [(''magic'', uint32_t), (''totalsize'', uint32_t), (''off_dt_struct'', uint32_t),
     (''off_dt_strings'', uint32_t), (''off_mem_rsvmap'', uint32_t), (''version'', uint32_t),
     (''last_comp_version'', uint32_t), (''boot_cpuid_phys'', uint32_t), (''size_dt_strings'', uint32_t),
     (''size_dt_struct'', uint32_t)]"

definition fdt_reserve_entry_t :: ctype where
  "fdt_reserve_entry_t = CStruct [(''address'', uint64_t), (''size'', uint64_t)]"

definition utp_trd_t :: ctype where
  "utp_trd_t = CStruct [(''dword0'', uint32_t), (''dword1'', uint32_t), (''dword2'', uint32_t), (''dword3'', uint32_t),
     (''dword4'', uint32_t), (''dword5'', uint32_t), (''dword6'', uint32_t), (''dword7'', uint32_t)]"

definition prdt_entry_t :: ctype where
  "prdt_entry_t = CStruct [(''dword0'', uint32_t), (''dword1'', uint32_t), (''dword2'', uint32_t), (''dword3'', uint32_t)]"

lemmas struct_defs = inode_t_def dir_entry_t_def superblock_t_def block_header_t_def vm_map_entry_t_def
  cpu_context_t_def tcb_t_def spinlock_t_def vfs_node_t_def fdt_header_t_def fdt_reserve_entry_t_def
  utp_trd_t_def prdt_entry_t_def

lemma struct_members:
  "members inode_t = [(''id'', 0, uint32_t), (''type'', 4, uint16_t), (''permissions'', 6, uint16_t),
     (''owner_id'', 8, uint32_t), (''group_id'', 12, uint32_t), (''size'', 16, uint64_t), (''creation_time'', 24, uint64_t),
     (''modification_time'', 32, uint64_t), (''direct_blocks'', 40, CArr uint32_t 10), (''indirect_block'', 80, uint32_t),
     (''double_indirect_block'', 84, uint32_t)]"
  "members dir_entry_t = [(''inode_id'', 0, uint32_t), (''name'', 4, CArr uint8_t 29)]"
  "members block_header_t = [(''size'', 0, uint64_t), (''next'', 8, pointer), (''free'', 16, c_int_t)]"
  "members tcb_t = [(''id'', 0, uint32_t), (''context'', 8, cpu_context_t), (''state'', 112, uint32_t),
     (''stack_base'', 120, uint64_t), (''stack_size'', 128, uint64_t), (''ttbr0_el1'', 136, uint64_t)]"
  by (simp_all add: struct_defs round_up_def)

lemma struct_sizes:
  "sizeof inode_t = SIZEOF_INODE" "sizeof dir_entry_t = SIZEOF_DIR_ENTRY" "sizeof superblock_t = SIZEOF_SUPERBLOCK"
  "sizeof block_header_t = HDR" "of_nat (sizeof tcb_t) = SIZEOF_TCB" "of_nat (sizeof vfs_node_t) = SIZEOF_VFS_NODE"
  "sizeof vm_map_entry_t = 32" "sizeof utp_trd_t = 32" "sizeof prdt_entry_t = 16"
  "FS_BLOCK_SIZE div sizeof inode_t = INODES_PER_BLOCK" "FS_BLOCK_SIZE div sizeof dir_entry_t = ENTRIES_PER_BLOCK"
  by (simp_all add: struct_defs round_up_def)

definition kernel_structs :: "ctype list" where
  "kernel_structs = [inode_t, dir_entry_t, superblock_t, block_header_t, vm_map_entry_t, cpu_context_t, tcb_t,
     spinlock_t, vfs_node_t, fdt_header_t, fdt_reserve_entry_t, utp_trd_t, prdt_entry_t]"

lemma kernel_structs_well_laid: "list_all well_laid kernel_structs"
proof -
  have "list_all (\<lambda>t. plain t \<and> (\<exists>ms. t = CStruct ms)) kernel_structs"
    by (simp add: kernel_structs_def struct_defs)
  then show ?thesis by (rule list.pred_mono_strong) (auto intro: plain_well_laid)
qed

text \<open>Offsets of members, by evaluation of the layout.\<close>

lemma tcb_offsets:
  "of_nat (offset tcb_t [''id'']) = tcb_id"
  "of_nat (offset tcb_t [''context'']) = tcb_context"
  "of_nat (offset tcb_t [''context'', ''sp'']) = tcb_context_sp"
  "of_nat (offset tcb_t [''context'', ''lr'']) = tcb_context_lr"
  "of_nat (offset tcb_t [''context'', ''fp'']) = tcb_context_fp"
  "of_nat (offset tcb_t [''stack_base'']) = tcb_stack_base"
  "of_nat (offset tcb_t [''stack_size'']) = tcb_stack_size"
  "of_nat (offset tcb_t [''ttbr0_el1'']) = tcb_ttbr0_el1"
  by (simp_all add: offset_def struct_members cpu_context_t_def round_up_def)

lemma vfs_node_offsets:
  "of_nat (offset vfs_node_t [''name'']) = node_name" "of_nat (offset vfs_node_t [''type'']) = node_type"
  "of_nat (offset vfs_node_t [''parent'']) = node_parent" "of_nat (offset vfs_node_t [''child'']) = node_child"
  "of_nat (offset vfs_node_t [''sibling'']) = node_sibling" "of_nat (offset vfs_node_t [''fs_data'']) = node_fs_data"
  by (simp_all add: offset_def vfs_node_t_def round_up_def)

lemma fdt_header_offsets:
  "offset fdt_header_t [''magic''] = 0"
  "of_nat (offset fdt_header_t [''off_dt_struct'']) = off_dt_struct"
  "of_nat (offset fdt_header_t [''off_dt_strings'']) = off_dt_strings"
  by (simp_all add: offset_def fdt_header_t_def round_up_def)

lemma rd_hdr_layout:
  "rd_hdr m a = \<lparr>bh_size = load64 m (a + of_nat (offset block_header_t [''size''])),
     bh_next = load64 m (a + of_nat (offset block_header_t [''next''])),
     bh_free = load32 m (a + of_nat (offset block_header_t [''free'']))\<rparr>"
  by (simp add: rd_hdr_def offset_def struct_members)

lemma inode_of_layout:
  "inode_of b = \<lparr>i_id = le_word (member_bytes inode_t [''id''] b), i_type = le_word (member_bytes inode_t [''type''] b),
     i_permissions = le_word (member_bytes inode_t [''permissions''] b),
     i_owner_id = le_word (member_bytes inode_t [''owner_id''] b), i_group_id = le_word (member_bytes inode_t [''group_id''] b),
     i_size = le_word (member_bytes inode_t [''size''] b),
     i_creation_time = le_word (member_bytes inode_t [''creation_time''] b),
     i_modification_time = le_word (member_bytes inode_t [''modification_time''] b),
     i_direct_blocks = map (\<lambda>k. le_word (slice (k * 4) 4 (member_bytes inode_t [''direct_blocks''] b))) [0..<10],
     i_indirect_block = le_word (member_bytes inode_t [''indirect_block''] b),
     i_double_indirect_block = le_word (member_bytes inode_t [''double_indirect_block''] b)\<rparr>"
  by (simp add: inode_of_def member_bytes_def struct_members slice_slice mult.commute)

lemma superblock_of_layout:
  "superblock_of b = \<lparr>magic = le_word (member_bytes superblock_t [''magic''] b),
     block_size = le_word (member_bytes superblock_t [''block_size''] b),
     total_blocks = le_word (member_bytes superblock_t [''total_blocks''] b),
     free_blocks = le_word (member_bytes superblock_t [''free_blocks''] b),
     total_inodes = le_word (member_bytes superblock_t [''total_inodes''] b),
     free_inodes = le_word (member_bytes superblock_t [''free_inodes''] b),
     root_inode = le_word (member_bytes superblock_t [''root_inode''] b),
     inode_bitmap_block = le_word (member_bytes superblock_t [''inode_bitmap_block''] b),
     block_bitmap_block = le_word (member_bytes superblock_t [''block_bitmap_block''] b),
     inode_table_start_block = le_word (member_bytes superblock_t [''inode_table_start_block''] b),
     data_start_block = le_word (member_bytes superblock_t [''data_start_block''] b)\<rparr>"
  by (simp add: superblock_of_def member_bytes_def superblock_t_def round_up_def)

lemma strncpy_bytes_length: "length (strncpy_bytes n xs) = n"
  by (simp add: strncpy_bytes_def min_def)

lemma dir_entry_layout:
  "entry_id buf j = le_word (member_bytes dir_entry_t [''inode_id''] (slice (j * sizeof dir_entry_t) (sizeof dir_entry_t) buf))"
  "member_bytes dir_entry_t [''inode_id''] (entry_bytes i name pad) = le_bytes 4 i"
  "member_bytes dir_entry_t [''name''] (entry_bytes i name pad) = strncpy_bytes FS_MAX_FILENAME_LEN name @ [0]"
  by (simp_all add: entry_id_def entry_bytes_def member_bytes_def struct_members struct_sizes slice_slice slice_simps)
    (simp add: slice_def strncpy_bytes_length)

lemma ufs_descriptor_layout:
  "load32 (ufs_descriptors m lba n buffer dir) (UFS_PRDT_BASE + of_nat (offset prdt_entry_t [''dword0''])) = ucast buffer"
  "load32 (ufs_descriptors m lba n buffer dir) (UFS_PRDT_BASE + of_nat (offset prdt_entry_t [''dword1''])) = ucast (drop_bit 32 buffer)"
  "load32 (ufs_descriptors m lba n buffer dir) (UFS_PRDT_BASE + of_nat (offset prdt_entry_t [''dword2''])) = n * UFS_BLOCK_SIZE - 1"
  "load32 (ufs_descriptors m lba n buffer dir) (UFS_TRL_BASE + of_nat (offset utp_trd_t [''dword1''])) = ucast UFS_PRDT_BASE"
  "load32 (ufs_descriptors m lba n buffer dir) (UFS_TRL_BASE + of_nat (offset utp_trd_t [''dword2''])) = 0"
  "ufs_descriptors m lba n buffer dir (UFS_TRL_BASE + of_nat (offset utp_trd_t [''dword4''])) =
     (if dir = UTP_TRD_DD_READ then 0x28 else 0x2A)"
  using ufs_descriptors_read [of m lba n buffer dir] by (simp_all add: offset_def struct_defs round_up_def)

section \<open>Properties\<close>

text \<open>In the layout of every struct of the headers each member is aligned, inside the struct and
  after the one before it, and the size is a multiple of the alignment.  The sizes the code asks
  \<open>kmalloc\<close> for, and the inodes and entries it puts in a block, are those of the layout, and the
  models of the heap, the scheduler, the file systems, the device tree and the UFS driver read and
  write each member at its offset.\<close>

theorem struct_layouts:
  "list_all well_laid kernel_structs \<and>
   [sizeof inode_t, sizeof dir_entry_t, sizeof superblock_t, sizeof block_header_t] =
     [SIZEOF_INODE, SIZEOF_DIR_ENTRY, SIZEOF_SUPERBLOCK, HDR] \<and>
   [of_nat (sizeof tcb_t), of_nat (sizeof vfs_node_t)] = [SIZEOF_TCB, SIZEOF_VFS_NODE] \<and>
   [FS_BLOCK_SIZE div sizeof inode_t, FS_BLOCK_SIZE div sizeof dir_entry_t] = [INODES_PER_BLOCK, ENTRIES_PER_BLOCK] \<and>
   map (\<lambda>p. of_nat (offset tcb_t p)) [[''id''], [''context''], [''context'', ''sp''], [''context'', ''lr''],
       [''context'', ''fp''], [''stack_base''], [''stack_size''], [''ttbr0_el1'']] =
     [tcb_id, tcb_context, tcb_context_sp, tcb_context_lr, tcb_context_fp, tcb_stack_base, tcb_stack_size, tcb_ttbr0_el1] \<and>
   map (\<lambda>x. of_nat (offset vfs_node_t [x])) [''name'', ''type'', ''parent'', ''child'', ''sibling'', ''fs_data''] =
     [node_name, node_type, node_parent, node_child, node_sibling, node_fs_data] \<and>
   map (\<lambda>x. of_nat (offset fdt_header_t [x])) [''magic'', ''off_dt_struct'', ''off_dt_strings''] =
     [0, off_dt_struct, off_dt_strings] \<and>
   rd_hdr m a = \<lparr>bh_size = load64 m (a + of_nat (offset block_header_t [''size''])),
     bh_next = load64 m (a + of_nat (offset block_header_t [''next''])),
     bh_free = load32 m (a + of_nat (offset block_header_t [''free'']))\<rparr> \<and>
   [i_id (inode_of b), i_owner_id (inode_of b), i_group_id (inode_of b), i_indirect_block (inode_of b),
      i_double_indirect_block (inode_of b)] =
     map (\<lambda>x. le_word (member_bytes inode_t [x] b)) [''id'', ''owner_id'', ''group_id'', ''indirect_block'', ''double_indirect_block''] \<and>
   [i_type (inode_of b), i_permissions (inode_of b)] = map (\<lambda>x. le_word (member_bytes inode_t [x] b)) [''type'', ''permissions''] \<and>
   [i_size (inode_of b), i_creation_time (inode_of b), i_modification_time (inode_of b)] =
     map (\<lambda>x. le_word (member_bytes inode_t [x] b)) [''size'', ''creation_time'', ''modification_time''] \<and>
   i_direct_blocks (inode_of b) = map (\<lambda>k. le_word (slice (k * 4) 4 (member_bytes inode_t [''direct_blocks''] b))) [0..<10] \<and>
   map (\<lambda>f. f (superblock_of b)) [magic, block_size, total_blocks, free_blocks, total_inodes, free_inodes, root_inode,
       inode_bitmap_block, block_bitmap_block, inode_table_start_block, data_start_block] =
     map (\<lambda>x. le_word (member_bytes superblock_t [x] b)) [''magic'', ''block_size'', ''total_blocks'', ''free_blocks'',
       ''total_inodes'', ''free_inodes'', ''root_inode'', ''inode_bitmap_block'', ''block_bitmap_block'',
       ''inode_table_start_block'', ''data_start_block''] \<and>
   entry_id buf j =
     le_word (member_bytes dir_entry_t [''inode_id''] (slice (j * sizeof dir_entry_t) (sizeof dir_entry_t) buf)) \<and>
   member_bytes dir_entry_t [''inode_id''] (entry_bytes i name pad) = le_bytes 4 i \<and>
   member_bytes dir_entry_t [''name''] (entry_bytes i name pad) = strncpy_bytes FS_MAX_FILENAME_LEN name @ [0] \<and>
   map (\<lambda>x. load32 (ufs_descriptors m lba n buffer dir) (UFS_PRDT_BASE + of_nat (offset prdt_entry_t [x]))) [''dword0'', ''dword1'', ''dword2''] =
     [ucast buffer, ucast (drop_bit 32 buffer), n * UFS_BLOCK_SIZE - 1] \<and>
   map (\<lambda>x. load32 (ufs_descriptors m lba n buffer dir) (UFS_TRL_BASE + of_nat (offset utp_trd_t [x]))) [''dword1'', ''dword2''] =
     [ucast UFS_PRDT_BASE, 0] \<and>
   ufs_descriptors m lba n buffer dir (UFS_TRL_BASE + of_nat (offset utp_trd_t [''dword4''])) =
     (if dir = UTP_TRD_DD_READ then 0x28 else 0x2A)"
  by (intro conjI rd_hdr_layout kernel_structs_well_laid dir_entry_layout ufs_descriptor_layout(6))
    (simp_all only: list.map struct_sizes tcb_offsets vfs_node_offsets fdt_header_offsets inode_of_layout superblock_of_layout
       ufs_descriptor_layout inode.simps superblock.simps, simp_all)

end
