(* ===== verification/Spec2Isabelle.thy ===== *)
theory Spec2Isabelle
  imports Boot Emmc Layout
begin

text \<open>
  A verification development of the AstralOS kernel, a small AArch64 kernel in C
  (\<^verbatim>\<open>src/kern\<close>).

  \<^bold>\<open>The program.\<close>  The entry code (\<^verbatim>\<open>boot/bootloader.s\<close>) parks all cores but the first, clears the
  bss section and calls \<open>kernel_main\<close> (\<^verbatim>\<open>kernel.c\<close>), which sets up the UART, the mapping table and the page
  tables (\<^verbatim>\<open>memory/vm_maps.c\<close>), reads the device tree (\<^verbatim>\<open>boot/dtb.c\<close>) for the framebuffer and the memory,
  starts the console (\<^verbatim>\<open>debug/kprintf.c\<close>), the heap (\<^verbatim>\<open>memory/kmalloc.c\<close>), the file system
  (\<^verbatim>\<open>fs/fs.c\<close>) on a block device (\<^verbatim>\<open>drivers/block/block_device.c\<close>) and the virtual file system
  (\<^verbatim>\<open>fs/vfs.c\<close>), creates two tasks and hands the core to the scheduler
  (\<^verbatim>\<open>sched/astral_sched.c\<close>), which the timer (\<^verbatim>\<open>drivers/timer/timer.c\<close>) enters through the exception vectors
  (\<^verbatim>\<open>cpu/exceptions.s\<close>).  The heap is shared: inode copies, bitmaps, nodes, control blocks, stacks and
  page tables all come from it.

  \<^bold>\<open>How it is modelled.\<close>  Machine integers are words of their width, C \<open>int\<close>s are integers where the
  code keeps them small, memory is a total function from 64-bit addresses to bytes, and a pointer is an
  address.  A structure that the code keeps in memory is read and written there (\<open>cell\<close>, \<open>codec\<close>); the static
  variables of a file are a record that its operations pass on.  A result \<open>None\<close> means that the call does
  not return or has undefined behaviour; error codes are values.  A loop that only the data stops is a
  \<open>partial_function (option)\<close>, without fuel, and each theorem about it states that it returns; loops with a
  counter recurse on the counter.  Nothing is bounded beyond what the code bounds; hypotheses such as
  \<open>unat offset + unat count < 2 ^ 44\<close> keep a block index within the 32 bits the code gives it.

  \<^bold>\<open>Theories.\<close>
  \<^item> \<^verbatim>\<open>Prelude\<close>: integer types, encodings, memory, regions, the locale \<open>cell\<close> of a struct in memory.
  \<^item> \<^verbatim>\<open>Allocator\<close>, \<^verbatim>\<open>Kmalloc\<close>, \<^verbatim>\<open>Heap_Client\<close>: the contract of the heap (locale \<open>allocator\<close>), \<^verbatim>\<open>kmalloc.c\<close> on
    its linked list of headers, which implements first fit on a list of blocks and fulfils the contract, and
    what owners of heap objects share.
  \<^item> \<^verbatim>\<open>Lib\<close>, \<^verbatim>\<open>Printf\<close>: \<^verbatim>\<open>lib/lib.c\<close>, the memory and string routines against byte strings, and the formatted
    output against a reference expansion of the format.
  \<^item> \<^verbatim>\<open>Vm_Maps\<close>, \<^verbatim>\<open>Mmu\<close>: \<^verbatim>\<open>vm_maps.c\<close>, the mapping table as a map from addresses (live entries do not
    overlap unless the end of one wraps around, and a call whose end wraps is accepted), and the page tables against the table walk of the architecture; \<^verbatim>\<open>security.c\<close>.
  \<^item> \<^verbatim>\<open>Cpu\<close>: \<^verbatim>\<open>cpu/cpu.c\<close>, \<^verbatim>\<open>debug/crash_core.c\<close> and \<^verbatim>\<open>cpu/context_switch.s\<close>, instruction by instruction.
  \<^item> \<^verbatim>\<open>Spinlock\<close>, \<^verbatim>\<open>Sched\<close>: the lock as instructions of interleaved cores with exclusive monitors (mutual
    exclusion by rule induction) and as the loop of one core, the scheduler and the timer (invariant of the reachable
    states, the order in which tasks are selected, task creation).
  \<^item> \<^verbatim>\<open>Block_Device\<close>, \<^verbatim>\<open>Emmc\<close>: both drivers over register accesses; the controller is an argument, and the
    locales \<open>ufs_hardware\<close>, which extends \<open>device\<close>, and \<open>emmc_hardware\<close> say what is known of it; a reference
    controller and a reference card fulfil them.  The UFS driver reads back what it wrote (the contract has a transfer complete with
    the write to the doorbell register); the EMMC driver waits for the end of a transfer before it moves the
    data and does not return.
  \<^item> \<^verbatim>\<open>Codec\<close>, \<^verbatim>\<open>Fs\<close>: structs in blocks (locale \<open>codec\<close>, interpreted for inodes and the superblock) and every
    operation of \<^verbatim>\<open>fs.c\<close>, over operations of a block device that are an argument.
  \<^item> \<^verbatim>\<open>Fs_Spec\<close>, \<^verbatim>\<open>Fs_Dir\<close>, \<^verbatim>\<open>Fs_Format\<close>: the same operations on a device that stores what is written (locale
    \<open>block_store\<close>): inodes, allocation, reading and writing files; directories as maps from names, with
    looking up, creating and deleting; what \<open>fs_init\<close> does, mounting, giving up
    or formatting in memory when the device fails (locale \<open>dead_store\<close>).
  \<^item> \<^verbatim>\<open>Fs_Ufs\<close>, \<^verbatim>\<open>Fs_Names\<close>: the UFS driver fulfils \<open>block_store\<close> (locale \<open>ufs_disk\<close> and its sublocale), so that
    the results hold for file system, driver and controller together.
  \<^item> \<^verbatim>\<open>Vfs\<close>: \<^verbatim>\<open>vfs.c\<close>, nodes in the heap that refine a tree of named children.
  \<^item> \<^verbatim>\<open>Console\<close>, \<^verbatim>\<open>Serial\<close>: \<^verbatim>\<open>kprintf.c\<close>, the font and the UART of \<^verbatim>\<open>lib.c\<close>; output stays in the framebuffer, and
    before there is one it is sent on a UART with the contract \<open>uart_hardware\<close>, which sends only once \<open>uart_init\<close> has
    enabled it.
  \<^item> \<^verbatim>\<open>Dtb\<close>: \<^verbatim>\<open>dtb.c\<close> on the tokens of a flattened tree; what the two walks return on a well-formed tree, proved
    over the locales \<open>prop_pass\<close> and \<open>token_walk\<close>, which both loops interpret.
  \<^item> \<^verbatim>\<open>Layout\<close>: the structs of the headers as C types, the layout rules of the procedure call standard with
    their soundness, and that the other theories use the sizes and offsets that follow from them.
  \<^item> \<^verbatim>\<open>Kernel\<close>, \<^verbatim>\<open>Boot\<close>: \<open>kernel_main\<close> composed of all of them, the two tasks, the exception handler, the entry
    code and the exception vectors.  This theory has the properties of the whole start.

  \<^bold>\<open>What is shown.\<close>  The heap never hands out overlapping or live memory and keeps its list well formed;
  mappings whose ends do not wrap around never overlap; the lock excludes and is taken by a core that is alone; the
  scheduler selects the tasks in the order of its table, and calls \<open>context_switch\<close> with the contexts of the old and
  the new one; what is written to a file is read back and nothing else changes; a name that was created
  is found, one that was deleted is not, and the others keep their meaning; a disk with a file system is mounted
  with its superblock and bitmaps; text output stays inside its buffers.  The start itself fails: the entry code erases the address of the device tree,
  and with a tree in place \<open>kernel_main\<close> still panics, because its lookup cannot match.  Where the code differs
  from what it means to do, the theorem states what it does: returning from an exception or switching a
  context restores the wrong registers, the table walk starts at a level the tables were not built for, the
  EMMC driver hangs, a disk is formatted only when it cannot be written either, and several calls report success when
  they did nothing.

  \<^bold>\<open>Parameters.\<close>  The devices (UFS and EMMC controllers, UART) are records of register operations with the
  contracts above.  The addresses the linker chooses are \<open>kernel_image\<close> and \<open>boot_symbols\<close>; the contents of
  uninitialised local arrays is an argument.  \<open>vfs_read\<close> and \<open>vfs_write\<close> call \<open>fs_read\<close> and \<open>fs_write\<close> with three
  arguments, which is not the interface of \<^verbatim>\<open>fs.c\<close>; the callee is a parameter there.

  \<^bold>\<open>Not modelled.\<close>  Macros of the headers that no code uses (the second set of register addresses in
  \<^verbatim>\<open>block_device.h\<close>, single-block EMMC commands) have no definition.  The build files and documents (\<^verbatim>\<open>Makefile\<close>, \<^verbatim>\<open>README.md\<close>, \<^verbatim>\<open>running.md\<close>) hold no program logic.
  Of the linker script only the symbols of the entry code are used.  Addresses are physical throughout:
  after \<open>cpu_enable_mmu\<close> the model of \<open>kernel_main\<close> goes on without translating them, which is the same for addresses of the first
  gigabyte and differs above it, as \<open>cpu_enable_mmu_aliases\<close> shows.  Caches, the weak ordering of memory
  accesses outside the lock, and interrupts at arbitrary points of C code are not part of the model; the
  model of the lock shows what such an interrupt does inside the critical section of the scheduler.
\<close>

section \<open>Properties that span components\<close>

text \<open>A machine with the sample device tree at 0x1000 and the literals at 0x2000.\<close>

definition sample_literals :: "u8 list" where
  "sample_literals = ascii ''/chosen'' @ [0] @ ascii ''framebuffer'' @ [0] @ ascii ''kernel panic: '' @ [0] @
     ascii ''framebuffer info not found in dtb!'' @ [10, 0, 10, 0]"

definition sample_image :: kernel_image where
  "sample_image = \<lparr>l1_table = 0x100000, l2_table = 0x101000, exception_vectors = 0x80000, print_buffer = 0x200000,
     fs_buffer = 0x210000, fs_junk = replicate 4096 0, task_a = 0x80100, task_b = 0x80200, yield_return = 0x80300,
     s_panic = 8212, s_newline = 8263, s_chosen = 8192, s_framebuffer = 8200, s_no_framebuffer = 8227, s_astral = 8265,
     s_memory = 8265, s_reg = 8265, s_root = 8265, s_vfs_failed = 8265, s_no_root = 8265, s_bin = 8265, s_etc = 8265,
     s_dev = 8265, s_vfs_ready = 8265, s_task_a = 8265, s_task_b = 8265, s_exception = 8265, s_message = \<lambda>_. 8265\<rparr>"

definition sample_memory :: mem where
  "sample_memory = write_bytes sample_dtb 8192 sample_literals"

definition sample_kernel :: "(u32 \<times> u8 list) kernel" where
  "sample_kernel =
     \<lparr>k_heap = \<lparr>mem = sample_memory, heap_start_ptr = 0, total_heap_size = 0\<rparr>, k_hw = (0, []), k_cpu = sample_cpu 0 0 0,
      k_vm = bss_vm,
      k_dtb = \<lparr>dtb_base_address = 0, dt_strings_ptr = 0\<rparr>,
      k_con = \<lparr>con_mem = \<lambda>_. 0, con_hw = (0, []), kprintf_framebuffer = 0, kprintf_fb_width = 0, kprintf_fb_height = 0,
        kprintf_fb_pitch = 0, cursor_x = 0, cursor_y = 0\<rparr>,
      k_fs = \<lparr>current_superblock = superblock_of (replicate 4096 0), inode_bitmap = None, block_bitmap = None,
        disk = \<lparr>bd_mem = \<lambda>_. 0, hw_state = (0, []), active_block_device_type = BLOCK_DEVICE_TYPE_NONE, bd_log = []\<rparr>,
        fs_heap = \<lparr>mem = \<lambda>_. 0, heap_start_ptr = 0, total_heap_size = 0\<rparr>\<rparr>,
      k_vfs = \<lparr>vheap = \<lparr>mem = \<lambda>_. 0, heap_start_ptr = 0, total_heap_size = 0\<rparr>, vroot = 0, vlog = []\<rparr>,
      k_sched = \<lparr>current_task = 0, task_list = replicate 8 0, num_tasks = 0, current_task_index = -1, sched_lock = 0,
        core = sample_cpu 0 0 0, heap = \<lparr>mem = \<lambda>_. 0, heap_start_ptr = 0, total_heap_size = 0\<rparr>, timer_frequency = 0\<rparr>\<rparr>"

definition sample_symbols :: boot_symbols where
  "sample_symbols = \<lparr>sym_start = 0x80000, bss_start = 0x90000, bss_size = 0x3000, dtb_ptr = 0x97000\<rparr>"

lemma sample_literals_bytes: "sample_literals =
    [0x2F, 0x63, 0x68, 0x6F, 0x73, 0x65, 0x6E, 0, 0x66, 0x72, 0x61, 0x6D, 0x65, 0x62, 0x75, 0x66, 0x66, 0x65, 0x72, 0,
     0x6B, 0x65, 0x72, 0x6E, 0x65, 0x6C, 0x20, 0x70, 0x61, 0x6E, 0x69, 0x63, 0x3A, 0x20, 0,
     0x66, 0x72, 0x61, 0x6D, 0x65, 0x62, 0x75, 0x66, 0x66, 0x65, 0x72, 0x20, 0x69, 0x6E, 0x66, 0x6F, 0x20, 0x6E, 0x6F, 0x74,
     0x20, 0x66, 0x6F, 0x75, 0x6E, 0x64, 0x20, 0x69, 0x6E, 0x20, 0x64, 0x74, 0x62, 0x21, 10, 0, 10, 0]"
  by (simp add: sample_literals_def ascii_def of_char_def)

lemma sample_literals_length: "length sample_literals = 73"
  by (simp add: sample_literals_bytes)

lemma sample_strings:
  assumes "\<And>x. unat (x - 8192) < 73 \<Longrightarrow> m x = sample_literals ! unat (x - 8192)"
  shows "literals sample_image m"
proof -
  have "c_string m 8192 (ascii ''/chosen'')" "c_string m 8200 (ascii ''framebuffer'')" "c_string m 8212 (ascii ''kernel panic: '')"
    "c_string m 8227 (ascii ''framebuffer info not found in dtb!'' @ [10])" "c_string m 8263 [10]"
    by (simp_all add: ascii_def of_char_def assms sample_literals_bytes)
  then show ?thesis
    by (auto simp: literals_def sample_image_def c_text_def intro!: readable_below) (simp_all add: ascii_def)
qed

lemma sample_cold_start: "cold_start sample_image 4096 sample_tree sample_kernel"
proof -
  have "tree_at m 4096 sample_tree \<and> literals sample_image m"
    if m: "\<forall>x. x \<notin> table_area sample_image \<longrightarrow> m x = sample_memory x" for m
  proof -
    have at: "m x = sample_memory x" if "4096 \<le> unat x" "unat x < 0x100000" for x
      using that m region_nat [of "0x100000" 4096 x] region_nat [of "0x101000" 4096 x] region_nat [of 0 4096 x]
      by (auto simp: table_area_def sample_image_def)
    have off: "4096 \<le> unat x \<and> unat x < 0x100000 \<and> unat x - a = unat (x - of_nat a)"
      if "unat (x - of_nat a) < n" "4096 \<le> a" "a + n \<le> 0x100000" for x :: u64 and a n
    proof -
      have "x \<in> region (of_nat a) n" using that(1) by (simp add: region_def)
      then have r: "a \<le> unat x" "unat x < a + n" using region_nat [of a n x] that(3) by simp_all
      have "unat (of_nat a :: u64) = a" using that(3) by (intro unat_of_nat64) simp
      then have "unat (x - of_nat a) = unat x - a" using r(1) unat_sub [of "of_nat a" x] by (simp add: word_le_nat_alt)
      then show ?thesis using r that by simp
    qed
    have "m x = sample_blob ! unat (x - 4096)" if x: "unat (x - 4096) < 101" for x
    proof -
      have r: "4096 \<le> unat x" "unat x < 0x100000" "unat x - 4096 = unat (x - 4096)" using off [of x 4096 101] x by simp_all
      have "x \<notin> region 8192 (length sample_literals)"
        using region_nat [of 8192 73 x] r x by (auto simp: sample_literals_length)
      then show ?thesis using at [OF r(1,2)] x by (simp add: sample_memory_def write_bytes_frame sample_dtb_at)
    qed
    moreover have "m x = sample_literals ! unat (x - 8192)" if x: "unat (x - 8192) < 73" for x
      using at [of x] off [of x 8192 73] x by (simp add: sample_memory_def write_bytes_def sample_literals_length)
    ultimately show ?thesis using sample_tree_in sample_strings by blast
  qed
  then show ?thesis using sample_tables
    by (simp add: cold_start_def outside_def sample_kernel_def sample_image_def sample_cpu_def bss_vm_length)
qed

text \<open>C22: at a start with a well-formed device tree, whatever it holds, \<open>kernel_main\<close> does not get beyond the
  framebuffer: the master core sends the panic message on the UART and is halted with interrupts masked,
  before the heap, the file systems and the scheduler are set up.  Cores 1 to 7 are halted at once and
  write nothing but the UART setup.\<close>

theorem kernel_main_panics:
  assumes "uart_hardware hw enabled sent backlog" and "cold_start im a t k" and "cpu_get_core_id (k_cpu k) < 8"
  shows "\<exists>k'. kernel_main hw im a k = Some (Stop k') \<and>
    cpu_states (k_cpu k') ! unat (cpu_get_core_id (k_cpu k)) = CPU_STATE_HALTED \<and> irq_masked (k_cpu k') \<and>
    heap_start_ptr (k_heap k') = 0 \<and>
    (if cpu_get_core_id (k_cpu k) = 0
     then sent (k_hw k') = sent (k_hw k) @ crlf (ascii ''kernel panic: framebuffer info not found in dtb!'' @ [10, 10]) \<and>
       k_sched k' = k_sched k \<and> k_fs k' = k_fs k \<and> k_vfs k' = k_vfs k
     else sent (k_hw k') = sent (k_hw k) \<and> k_heap k' = k_heap k)"
proof (cases "cpu_get_core_id (k_cpu k) = 0")
  case True
  then show ?thesis using uart_hardware.kernel_main_master [OF assms(1,2) True] by auto
next
  case False
  then have "0 < cpu_get_core_id (k_cpu k)" by (simp add: word_gt_0)
  moreover have "unat (cpu_get_core_id (k_cpu k)) < 8" using assms(3) by (simp add: word_less_nat_alt)
  ultimately show ?thesis
    using uart_hardware.kernel_main_other [OF assms(1) _ assms(3)] assms(2) False by (fastforce simp: cold_start_def)
qed

theorem kernel_main_panics_witness:
  "\<exists>k'. kernel_main simple_uart sample_image 4096 sample_kernel = Some (Stop k') \<and>
     snd (k_hw k') = ascii ''kernel panic: framebuffer info not found in dtb!'' @ [10, 13, 10, 13]"
proof -
  have c: "cpu_get_core_id (k_cpu sample_kernel) = 0"
    by (simp add: sample_kernel_def cpu_get_core_id_def mrs_def sample_cpu_def)
  have "crlf (ascii ''kernel panic: framebuffer info not found in dtb!'' @ [10, 10]) =
      ascii ''kernel panic: framebuffer info not found in dtb!'' @ [10, 13, 10, 13]"
    by (simp add: crlf_def ascii_def of_char_def)
  then show ?thesis
    using kernel_main_panics [OF simple_uart.uart_hardware_axioms sample_cold_start] c
    by (auto simp: sample_kernel_def)
qed

text \<open>C23: \<open>_start\<close> parks every core but the first without touching memory.  The first one clears eight bytes for each
  byte of the bss section, from its start on, and nothing else; the word that holds the address of the
  device tree lies in that range once the section has the size of its two page tables, so that \<open>kernel_main\<close> is
  called with the address 0, on the stack below \<open>_start\<close>.\<close>

theorem start_loses_device_tree:
  assumes "bss_start b = of_nat s" and "unat (bss_size b) = n" and "8192 \<le> n" and "s + 8 * n \<le> 2 ^ 64"
    and "dtb_ptr b = of_nat (dtb_slot s n)"
  shows "(mrs MPIDR_EL1 (k_cpu k) AND 0xff \<noteq> 0 \<longrightarrow> (\<exists>k'. start hw im b k = Some (Stop k') \<and> k_heap k' = k_heap k \<and> k_hw k' = k_hw k)) \<and>
    (mrs MPIDR_EL1 (k_cpu k) AND 0xff = 0 \<longrightarrow> (\<exists>k'.
       start hw im b k = do { r \<leftarrow> kernel_main hw im 0 k'; Some (case r of Back k \<Rightarrow> Stop k | _ \<Rightarrow> r) } \<and>
       sp_reg (k_cpu k') = sym_start b \<and>
       (\<forall>x. kmem k' x = (if s \<le> unat x \<and> unat x < s + 8 * n then 0 else kmem k x))))"
proof (intro conjI impI)
  assume "mrs MPIDR_EL1 (k_cpu k) AND 0xff \<noteq> 0"
  then show "\<exists>k'. start hw im b k = Some (Stop k') \<and> k_heap k' = k_heap k \<and> k_hw k' = k_hw k"
    by (simp add: start_def Let_def)
next
  assume "mrs MPIDR_EL1 (k_cpu k) AND 0xff = 0"
  from this assms obtain k' where "start hw im b k = do { r \<leftarrow> kernel_main hw im 0 k'; Some (case r of Back k \<Rightarrow> Stop k | _ \<Rightarrow> r) }"
    "sp_reg (k_cpu k') = sym_start b" "\<And>x. kmem k' x = (if s \<le> unat x \<and> unat x < s + 8 * n then 0 else kmem k x)"
    by (rule start_master) blast
  then show "\<exists>k'. start hw im b k = do { r \<leftarrow> kernel_main hw im 0 k'; Some (case r of Back k \<Rightarrow> Stop k | _ \<Rightarrow> r) } \<and>
       sp_reg (k_cpu k') = sym_start b \<and> (\<forall>x. kmem k' x = (if s \<le> unat x \<and> unat x < s + 8 * n then 0 else kmem k x))"
    by (intro exI [of _ k']) simp
qed

theorem start_loses_device_tree_witness:
  "\<exists>k'. start simple_uart sample_image sample_symbols sample_kernel =
      do { r \<leftarrow> kernel_main simple_uart sample_image 0 k'; Some (case r of Back k \<Rightarrow> Stop k | _ \<Rightarrow> r) } \<and>
    sp_reg (k_cpu k') = 0x80000"
proof -
  have b: "bss_start sample_symbols = of_nat 0x90000" "unat (bss_size sample_symbols) = 0x3000" "(8192 :: nat) \<le> 0x3000"
    "(0x90000 :: nat) + 8 * 0x3000 \<le> 2 ^ 64" "dtb_ptr sample_symbols = of_nat (dtb_slot 0x90000 0x3000)"
    by (simp_all add: sample_symbols_def dtb_slot_def Let_def)
  have "mrs MPIDR_EL1 (k_cpu sample_kernel) AND 0xff = 0" by (simp add: sample_kernel_def sample_cpu_def mrs_def)
  then show ?thesis
    using start_loses_device_tree [OF b, of sample_kernel simple_uart sample_image] by (auto simp: sample_symbols_def)
qed

end
